(* ===== verification/Prelude.thy ===== *)
theory Prelude
  imports Main "HOL-Library.Multiset"
begin

text \<open>
  Shared vocabulary of the development: the state-and-exception computations that every
  handler of the Collector and of the Agent is written in (a Python method that reads and
  writes state and may raise), their weakest preconditions, the loops, and the generic list
  facts the components use.
\<close>

named_theorems wp_simps \<open>weakest preconditions of the basic computations\<close>
named_theorems wp_rules \<open>derived introduction rules for weakest preconditions\<close>

subsection \<open>Computations: a state passed through, a value or an exception out\<close>

type_synonym ('s, 'e, 'a) comp = "'s \<Rightarrow> ('e + 'a) \<times> 's"

definition ret :: "'a \<Rightarrow> ('s, 'e, 'a) comp" where
  "ret x = (\<lambda>s. (Inr x, s))"

definition raise :: "'e \<Rightarrow> ('s, 'e, 'a) comp" where
  "raise x = (\<lambda>s. (Inl x, s))"

text \<open>\<open>seq m f\<close> runs \<open>m\<close> and hands its value to \<open>f\<close>; an exception skips \<open>f\<close>.\<close>

definition seq :: "('s, 'e, 'a) comp \<Rightarrow> ('a \<Rightarrow> ('s, 'e, 'b) comp) \<Rightarrow> ('s, 'e, 'b) comp" where
  "seq m f = (\<lambda>s. case m s of (Inl x, t) \<Rightarrow> (Inl x, t) | (Inr v, t) \<Rightarrow> f v t)"

text \<open>\<open>attempt m h\<close> is \<open>try: m except: h\<close>; the state changes made before the exception stay.\<close>

definition attempt :: "('s, 'e, 'a) comp \<Rightarrow> ('e \<Rightarrow> ('s, 'e, 'a) comp) \<Rightarrow> ('s, 'e, 'a) comp" where
  "attempt m h = (\<lambda>s. case m s of (Inl x, t) \<Rightarrow> h x t | (Inr v, t) \<Rightarrow> (Inr v, t))"

definition reads :: "('s \<Rightarrow> 'a) \<Rightarrow> ('s, 'e, 'a) comp" where
  "reads f = (\<lambda>s. (Inr (f s), s))"

definition writes :: "('s \<Rightarrow> 's) \<Rightarrow> ('s, 'e, unit) comp" where
  "writes f = (\<lambda>s. (Inr (), f s))"

definition from_result :: "'e + 'a \<Rightarrow> ('s, 'e, 'a) comp" where
  "from_result r = (\<lambda>s. (r, s))"

text \<open>A \<open>for\<close> loop that collects what its body returns.\<close>

primrec for_each :: "('x \<Rightarrow> ('s, 'e, 'a) comp) \<Rightarrow> 'x list \<Rightarrow> ('s, 'e, 'a list) comp" where
  "for_each f [] = ret []"
| "for_each f (x # xs) = seq (f x) (\<lambda>y. seq (for_each f xs) (\<lambda>ys. ret (y # ys)))"

subsection \<open>Weakest preconditions\<close>

definition wp :: "('s, 'e, 'a) comp \<Rightarrow> ('a \<Rightarrow> 's \<Rightarrow> bool) \<Rightarrow> ('e \<Rightarrow> 's \<Rightarrow> bool) \<Rightarrow> 's \<Rightarrow> bool" where
  "wp m Q E s = (case m s of (Inl x, t) \<Rightarrow> E x t | (Inr v, t) \<Rightarrow> Q v t)"

lemma wp_ret [wp_simps]: "wp (ret x) Q E = Q x"
  by (rule ext) (simp add: wp_def ret_def)

lemma wp_raise [wp_simps]: "wp (raise x) Q E = E x"
  by (rule ext) (simp add: wp_def raise_def)

lemma wp_reads [wp_simps]: "wp (reads f) Q E = (\<lambda>s. Q (f s) s)"
  by (rule ext) (simp add: wp_def reads_def)

lemma wp_writes [wp_simps]: "wp (writes f) Q E = (\<lambda>s. Q () (f s))"
  by (rule ext) (simp add: wp_def writes_def)

lemma wp_from_result [wp_simps]:
  "wp (from_result r) Q E = (case r of Inl x \<Rightarrow> E x | Inr v \<Rightarrow> Q v)"
  by (rule ext) (simp add: wp_def from_result_def split: sum.splits)

lemma wp_seq [wp_simps]: "wp (seq m f) Q E = wp m (\<lambda>v. wp (f v) Q E) E"
  by (rule ext) (simp add: wp_def seq_def split: prod.splits sum.splits)

lemma wp_attempt [wp_simps]: "wp (attempt m h) Q E = wp m Q (\<lambda>x. wp (h x) Q E)"
  by (rule ext) (simp add: wp_def attempt_def split: prod.splits sum.splits)

lemma wp_if [wp_simps]: "wp (if b then m else n) Q E = (if b then wp m Q E else wp n Q E)"
  by simp

lemma wp_mono:
  assumes "wp m Q E s"
    and "\<And>v t. Q v t \<Longrightarrow> Q' v t" and "\<And>x t. E x t \<Longrightarrow> E' x t"
  shows "wp m Q' E' s"
  using assms by (auto simp: wp_def split: prod.splits sum.splits)

lemma wp_conj:
  "wp m Q E s \<Longrightarrow> wp m Q' E' s \<Longrightarrow> wp m (\<lambda>v t. Q v t \<and> Q' v t) (\<lambda>x t. E x t \<and> E' x t) s"
  by (auto simp: wp_def split: prod.splits sum.splits)

lemma wp_result:
  "wp m Q E s \<longleftrightarrow> (case fst (m s) of Inl x \<Rightarrow> E x (snd (m s)) | Inr v \<Rightarrow> Q v (snd (m s)))"
  by (cases "m s") (auto simp: wp_def split: sum.splits)

lemma wp_state: "wp m (\<lambda>_ t. P t) (\<lambda>_ t. P t) s \<longleftrightarrow> P (snd (m s))"
  by (simp add: wp_def split: prod.splits sum.splits)

lemma wp_returnsD: "wp m Q E s \<Longrightarrow> fst (m s) = Inr v \<Longrightarrow> Q v (snd (m s))"
  by (simp add: wp_result)

lemma wp_raisesD: "wp m Q E s \<Longrightarrow> fst (m s) = Inl x \<Longrightarrow> E x (snd (m s))"
  by (simp add: wp_result)

lemma wp_case_option:
  "(v = None \<Longrightarrow> wp m Q E s) \<Longrightarrow> (\<And>y. v = Some y \<Longrightarrow> wp (n y) Q E s) \<Longrightarrow>
   wp (case v of None \<Rightarrow> m | Some y \<Rightarrow> n y) Q E s"
  by (cases v) auto

text \<open>
  The loop rule. The relation \<open>R\<close> says how the states before and after are connected: it is
  reflexive and transitive and every run of the body, from a state reached so far, extends it.
\<close>

lemma wp_for_each_rel:
  assumes refl: "\<And>s. R s s"
    and trans: "\<And>s t u. R s t \<Longrightarrow> R t u \<Longrightarrow> R s u"
    and body: "\<And>x s. x \<in> set xs \<Longrightarrow> wp (f x) (\<lambda>_ t. R s t) (\<lambda>_ t. R s t) s"
  shows "wp (for_each f xs) (\<lambda>_ t. R s t) (\<lambda>_ t. R s t) s"
  using body
proof (induction xs arbitrary: s)
  case Nil
  then show ?case by (simp add: wp_simps refl)
next
  case (Cons x xs)
  have tail: "wp (for_each f xs) (\<lambda>_ u. R t u) (\<lambda>_ u. R t u) t" for t
    using Cons.IH Cons.prems by simp
  have "wp (f x) (\<lambda>_ t. R s t) (\<lambda>_ t. R s t) s"
    using Cons.prems by simp
  then show ?case
    unfolding for_each.simps wp_seq wp_ret
  proof (rule wp_mono)
    fix y t
    assume "R s t"
    show "wp (for_each f xs) (\<lambda>_ u. R s u) (\<lambda>_ u. R s u) t"
      by (rule wp_mono [OF tail [of t]]) (blast intro: trans \<open>R s t\<close>)+
  qed simp
qed

text \<open>The loop rule for an invariant of the state and a property of every collected value.\<close>

lemma wp_for_each_inv:
  assumes "I s"
    and body: "\<And>x t. x \<in> set xs \<Longrightarrow> I t \<Longrightarrow> wp (f x) (\<lambda>y u. I u \<and> P y) (\<lambda>x u. E x u) t"
  shows "wp (for_each f xs) (\<lambda>ys u. I u \<and> (\<forall>y \<in> set ys. P y)) E s"
  using assms
proof (induction xs arbitrary: s)
  case Nil
  then show ?case by (simp add: wp_simps)
next
  case (Cons x xs)
  have tail: "wp (for_each f xs) (\<lambda>ys u. I u \<and> (\<forall>y \<in> set ys. P y)) E t" if "I t" for t
    using Cons.IH [OF that] Cons.prems(2) by simp
  have "wp (f x) (\<lambda>y u. I u \<and> P y) (\<lambda>x u. E x u) s"
    using Cons.prems by simp
  then show ?case
    unfolding for_each.simps wp_seq wp_ret
    by (rule wp_mono) (auto intro: wp_mono [OF tail])
qed

text \<open>The loop rule for a relation between the items and the collected values.\<close>

lemma wp_for_each_all2:
  assumes "I s" and "\<And>x t. x \<in> set xs \<Longrightarrow> I t \<Longrightarrow> wp (f x) (\<lambda>y u. I u \<and> P x y) E t"
  shows "wp (for_each f xs) (\<lambda>ys u. I u \<and> list_all2 P xs ys) E s"
  using assms
proof (induction xs arbitrary: s)
  case Nil
  then show ?case by (simp add: wp_simps)
next
  case (Cons x xs)
  have tail: "wp (for_each f xs) (\<lambda>ys u. I u \<and> list_all2 P xs ys) E t" if "I t" for t
    using Cons.IH [OF that] Cons.prems(2) by simp
  have "wp (f x) (\<lambda>y u. I u \<and> P x y) E s"
    using Cons.prems by simp
  then show ?case
    unfolding for_each.simps wp_seq wp_ret
    by (rule wp_mono) (auto intro: wp_mono [OF tail])
qed

text \<open>
  The loop rule for a relation that also speaks of the collected values: it composes along the
  concatenation of what consecutive iterations return.
\<close>

lemma wp_for_each_acc:
  assumes nil: "\<And>s. R [] s s"
    and app: "\<And>ys zs s t u. R ys s t \<Longrightarrow> R zs t u \<Longrightarrow> R (ys @ zs) s u"
    and err: "\<And>ys s t u. R ys s t \<Longrightarrow> E t u \<Longrightarrow> E s u"
    and body: "\<And>x s. x \<in> set xs \<Longrightarrow> wp (f x) (\<lambda>y. R [y] s) (\<lambda>_. E s) s"
  shows "wp (for_each f xs) (\<lambda>ys. R ys s) (\<lambda>_. E s) s"
  using body
proof (induction xs arbitrary: s)
  case Nil
  then show ?case by (simp add: wp_simps nil)
next
  case (Cons x xs)
  have tail: "wp (for_each f xs) (\<lambda>ys. R ys t) (\<lambda>_. E t) t" for t
    using Cons.IH Cons.prems by simp
  have "wp (f x) (\<lambda>y. R [y] s) (\<lambda>_. E s) s"
    using Cons.prems by simp
  then show ?case
    unfolding for_each.simps wp_seq wp_ret
    using app [of "[_]"] by (elim wp_mono) (auto intro: wp_mono [OF tail] err)
qed

subsection \<open>Running a computation\<close>

text \<open>Equations for computing a computation on a known state; they evaluate closed runs.\<close>

lemma run_ret: "ret x s = (Inr x, s)"
  by (simp add: ret_def)

lemma run_raise: "raise x s = (Inl x, s)"
  by (simp add: raise_def)

lemma run_seq_Inr: "m s = (Inr v, t) \<Longrightarrow> seq m f s = f v t"
  by (simp add: seq_def)

lemma run_seq_Inl: "m s = (Inl x, t) \<Longrightarrow> seq m f s = (Inl x, t)"
  by (simp add: seq_def)

lemmas run_defs = ret_def raise_def seq_def attempt_def reads_def writes_def from_result_def

subsection \<open>Python slices\<close>

text \<open>\<open>xs[:n]\<close> and \<open>xs[n:]\<close>: a negative bound counts from the end.\<close>

definition py_take :: "int \<Rightarrow> 'a list \<Rightarrow> 'a list" where
  "py_take n xs = (if 0 \<le> n then take (nat n) xs else take (length xs - nat (- n)) xs)"

definition py_drop :: "int \<Rightarrow> 'a list \<Rightarrow> 'a list" where
  "py_drop n xs = (if 0 \<le> n then drop (nat n) xs else drop (length xs - nat (- n)) xs)"

lemma py_take_drop: "py_take n xs @ py_drop n xs = xs"
  by (simp add: py_take_def py_drop_def)

lemma py_take_nonneg [simp]: "0 \<le> n \<Longrightarrow> py_take n xs = take (nat n) xs"
  by (simp add: py_take_def)

lemma py_drop_nonneg [simp]: "0 \<le> n \<Longrightarrow> py_drop n xs = drop (nat n) xs"
  by (simp add: py_drop_def)

subsection \<open>List facts\<close>

lemma find_SomeD: "find P xs = Some x \<Longrightarrow> x \<in> set xs \<and> P x"
  by (induction xs) (auto split: if_splits)

lemma find_NoneD: "find P xs = None \<Longrightarrow> x \<in> set xs \<Longrightarrow> \<not> P x"
  by (induction xs) (auto split: if_splits)

lemma length_filter_mono:
  "(\<And>x. x \<in> set xs \<Longrightarrow> P x \<Longrightarrow> Q x) \<Longrightarrow> length (filter P xs) \<le> length (filter Q xs)"
  by (induction xs) auto

lemma length_filter_filter_le: "length (filter P (filter Q xs)) \<le> length (filter P xs)"
  by (induction xs) auto

lemma length_filter_split:
  "S \<subseteq> Collect P \<Longrightarrow>
   length (filter (\<lambda>x. x \<in> S) xs) + length (filter P (filter (\<lambda>x. x \<notin> S) xs)) = length (filter P xs)"
  by (induction xs) auto

end
