(* ===== verification/Exceptions.thy ===== *)
theory Exceptions
  imports Prelude
begin

text \<open>
  The exceptions that can reach a handler, one constructor per class: the ClusterPulse
  hierarchy of \<open>shared/exceptions\<close> and \<open>collector/exceptions.py\<close> with its message, and the
  built-in and third-party classes that the code lets through or catches. The \<open>context\<close> dict
  of a ClusterPulse exception, which only feeds log records and error bodies, is left out.
\<close>

datatype exn =
    AuthenticationError string
  | ConfigurationError string
  | PersistenceError string
  | RemediationSafetyError string
  | RetryableTransportError string
  | FatalTransportError string
  | NodeNotFoundError string
  | AlertNotFoundError string
  | AlertAlreadyResolvedError string
  | RemediationActionNotFoundError string
  | RemediationActionNotDispatchedError string
  | OSErr string
  | ValueErr
  | OverflowErr
  | TypeErr
  | UnicodeDecodeErr
  | HttpxError string
  | PsutilError string

text \<open>\<open>isinstance(exc, ClusterPulseError)\<close> and \<open>isinstance(exc, TransportError)\<close>.\<close>

fun is_cluster_pulse_error :: "exn \<Rightarrow> bool" where
  "is_cluster_pulse_error (OSErr m) = False"
| "is_cluster_pulse_error ValueErr = False"
| "is_cluster_pulse_error OverflowErr = False"
| "is_cluster_pulse_error TypeErr = False"
| "is_cluster_pulse_error UnicodeDecodeErr = False"
| "is_cluster_pulse_error (HttpxError m) = False"
| "is_cluster_pulse_error (PsutilError m) = False"
| "is_cluster_pulse_error _ = True"

fun is_transport_error :: "exn \<Rightarrow> bool" where
  "is_transport_error (RetryableTransportError m) = True"
| "is_transport_error (FatalTransportError m) = True"
| "is_transport_error _ = False"

end
