(* ===== verification/Py_Float.thy ===== *)
theory Py_Float
  imports Prelude Complex_Main "HOL-Library.Log_Nat"
begin

text \<open>
  Python's \<open>float\<close>: an IEEE 754 double is a finite value (the rational it denotes), an infinity
  or NaN, with the comparisons of the language and rounding to nearest, ties to even. The two
  zeros are one value here: they compare equal, and only the text of a notification tells them apart.
  What the components use of it: rounding is monotone and leaves integers of at most 53 bits.
\<close>

subsection \<open>Doubles and their comparisons\<close>

datatype pyfloat = Fin rat | PInf | NInf | NaN

fun fle :: "pyfloat \<Rightarrow> pyfloat \<Rightarrow> bool" where
  "fle NaN y = False"
| "fle x NaN = False"
| "fle NInf y = True"
| "fle x PInf = True"
| "fle (Fin a) (Fin b) = (a \<le> b)"
| "fle x y = False"

fun flt :: "pyfloat \<Rightarrow> pyfloat \<Rightarrow> bool" where
  "flt NaN y = False"
| "flt x NaN = False"
| "flt PInf y = False"
| "flt x NInf = False"
| "flt (Fin a) (Fin b) = (a < b)"
| "flt x y = True"

lemma fle_trans: "fle x y \<Longrightarrow> fle y z \<Longrightarrow> fle x z"
  by (cases x; cases y; cases z) auto

lemma not_flt: "x \<noteq> NaN \<Longrightarrow> y \<noteq> NaN \<Longrightarrow> \<not> flt x y \<longleftrightarrow> fle y x"
  by (cases x; cases y) auto

lemma flt_not_fle: "flt x y \<Longrightarrow> \<not> fle y x"
  by (cases x; cases y) auto

lemma fle_refl: "x \<noteq> NaN \<Longrightarrow> fle x x"
  by (cases x) auto

lemma fle_not_NaN: "fle x y \<Longrightarrow> x \<noteq> NaN \<and> y \<noteq> NaN"
  by (cases x; cases y) auto

lemma fle_flt_trans: "fle x y \<Longrightarrow> flt y z \<Longrightarrow> flt x z"
  by (cases x; cases y; cases z) auto

subsection \<open>Rounding\<close>

definition round_half_even :: "rat \<Rightarrow> int" where
  "round_half_even x =
     (let f = \<lfloor>x\<rfloor>; d = x - of_int f
      in if d < 1 / 2 then f else if 1 / 2 < d then f + 1 else if even f then f else f + 1)"

lemma round_half_even_of_int [simp]: "round_half_even (of_int k) = k"
  by (simp add: round_half_even_def)

lemma round_half_even_bounds: "\<lfloor>x\<rfloor> \<le> round_half_even x" "round_half_even x \<le> \<lfloor>x\<rfloor> + 1"
  by (auto simp: round_half_even_def Let_def)

lemma round_half_even_mono:
  assumes "x \<le> y"
  shows "round_half_even x \<le> round_half_even y"
proof (cases "\<lfloor>x\<rfloor> = \<lfloor>y\<rfloor>")
  case True
  then show ?thesis
    using assms by (auto simp: round_half_even_def Let_def)
next
  case False
  with assms have "\<lfloor>x\<rfloor> + 1 \<le> \<lfloor>y\<rfloor>"
    using floor_mono [OF assms] by linarith
  then show ?thesis
    using round_half_even_bounds [of x] round_half_even_bounds [of y] by linarith
qed

text \<open>\<open>binexp x\<close> is the binary exponent of a positive rational: \<open>2^binexp x \<le> x < 2^(binexp x + 1)\<close>.\<close>

definition binexp :: "rat \<Rightarrow> int" where
  "binexp x = (let (n, d) = quotient_of x; k = bitlen n - bitlen d
               in if (2 :: rat) powi k \<le> x then k else k - 1)"

lemma bitlen_powi:
  assumes "0 < n"
  shows "(2 :: rat) powi (bitlen n - 1) \<le> of_int n" "of_int n < (2 :: rat) powi (bitlen n)"
proof -
  have pos: "0 < bitlen n"
    using assms bitlen_nonneg [of n] bitlen_eq_zero_iff [of n] by linarith
  have le: "2 ^ nat (bitlen n - 1) \<le> n" and lt: "n < 2 ^ nat (bitlen n)"
    using bitlen_bounds [OF assms] by auto
  have "(2 :: rat) powi (bitlen n - 1) = of_int (2 ^ nat (bitlen n - 1))"
    using pos by (simp add: power_int_def)
  then show "(2 :: rat) powi (bitlen n - 1) \<le> of_int n"
    using le by (metis of_int_le_iff)
  have "(2 :: rat) powi (bitlen n) = of_int (2 ^ nat (bitlen n))"
    using pos by (simp add: power_int_def)
  then show "of_int n < (2 :: rat) powi (bitlen n)"
    using lt by (metis of_int_less_iff)
qed

lemma binexp_bounds:
  assumes "0 < x"
  shows "(2 :: rat) powi (binexp x) \<le> x" "x < 2 powi (binexp x + 1)"
proof -
  obtain n d where q: "quotient_of x = (n, d)"
    by (cases "quotient_of x")
  have d: "0 < d" and x: "x = of_int n / of_int d"
    using quotient_of_denom_pos [OF q] quotient_of_div [OF q] by auto
  have n: "0 < n"
    using assms d by (simp add: x zero_less_divide_iff)
  let ?k = "bitlen n - bitlen d"
  note bn = bitlen_powi [OF n] and bd = bitlen_powi [OF d]
  have "x < 2 powi (bitlen n) / 2 powi (bitlen d - 1)"
    unfolding x using bn(2) bd(1) d n by (intro frac_less) auto
  also have "\<dots> = 2 powi (?k + 1)"
    by (simp add: power_int_diff power_int_add)
  finally have up: "x < 2 powi (?k + 1)" .
  have "2 powi (bitlen n - 1) / 2 powi (bitlen d) \<le> x"
    unfolding x using bn(1) bd(2) d n by (intro frac_le) auto
  moreover have "2 powi (bitlen n - 1) / 2 powi (bitlen d) = (2 :: rat) powi (?k - 1)"
    by (simp add: power_int_diff power_int_add)
  ultimately have lo: "2 powi (?k - 1) \<le> x"
    by simp
  show "(2 :: rat) powi (binexp x) \<le> x" "x < 2 powi (binexp x + 1)"
    using up lo by (auto simp: binexp_def q Let_def)
qed

text \<open>
  Round to nearest, ties to even, on the grid of doubles: 53 bits of significand, least
  exponent \<open>-1074\<close>, overflow to infinity from \<open>2^1024\<close>.
\<close>

definition ulp_exp :: "rat \<Rightarrow> int" where
  "ulp_exp x = max (binexp x - 52) (- 1074)"

definition round_pos :: "rat \<Rightarrow> rat" where
  "round_pos x = of_int (round_half_even (x / 2 powi (ulp_exp x))) * 2 powi (ulp_exp x)"

definition round_double :: "rat \<Rightarrow> pyfloat" where
  "round_double x =
     (if x = 0 then Fin 0
      else let r = round_pos \<bar>x\<bar>
           in if r < 2 ^ 1024 then Fin (if x < 0 then - r else r)
              else if x < 0 then NInf else PInf)"

lemma two_powi_mono: "i \<le> j \<Longrightarrow> (2 :: rat) powi i \<le> 2 powi j"
  by (rule power_int_increasing) auto

lemma two_powi_less: "(2 :: rat) powi i < 2 powi j \<Longrightarrow> i < j"
  using two_powi_mono [of j i] by (meson leD leI)

lemma binexp_mono:
  assumes "0 < x" "x \<le> y"
  shows "binexp x \<le> binexp y"
proof -
  have "(2 :: rat) powi (binexp x) < 2 powi (binexp y + 1)"
    using binexp_bounds [OF assms(1)] binexp_bounds [of y] assms by linarith
  then show ?thesis
    using two_powi_less by fastforce
qed

lemma round_half_even_powi: "0 \<le> i \<Longrightarrow> round_half_even (2 powi i) = 2 ^ nat i"
  by (metis of_int_numeral of_int_power power_int_def round_half_even_of_int)

lemma round_pos_le_powi:
  assumes "0 < x" "x \<le> 2 powi j" "ulp_exp x \<le> j"
  shows "round_pos x \<le> 2 powi j"
proof -
  let ?e = "ulp_exp x"
  have "x / 2 powi ?e \<le> 2 powi (j - ?e)"
    using assms by (simp add: power_int_diff divide_right_mono)
  then have "round_half_even (x / 2 powi ?e) \<le> 2 ^ nat (j - ?e)"
    using round_half_even_mono round_half_even_powi assms(3) by fastforce
  then have "of_int (round_half_even (x / 2 powi ?e)) \<le> (2 :: rat) powi (j - ?e)"
    using assms(3) by (simp add: power_int_def)
  then have "round_pos x \<le> 2 powi (j - ?e) * 2 powi ?e"
    unfolding round_pos_def by (intro mult_right_mono) auto
  then show ?thesis
    by (simp add: power_int_diff)
qed

lemma round_pos_ge_powi:
  assumes "2 powi j \<le> x" "ulp_exp x \<le> j"
  shows "2 powi j \<le> round_pos x"
proof -
  let ?e = "ulp_exp x"
  have "2 powi (j - ?e) \<le> x / 2 powi ?e"
    using assms by (simp add: power_int_diff divide_right_mono)
  then have "2 ^ nat (j - ?e) \<le> round_half_even (x / 2 powi ?e)"
    using round_half_even_mono round_half_even_powi assms(2) by fastforce
  then have "(2 :: rat) powi (j - ?e) \<le> of_int (round_half_even (x / 2 powi ?e))"
    using assms(2) by (simp add: power_int_def)
  then have "2 powi (j - ?e) * 2 powi ?e \<le> round_pos x"
    unfolding round_pos_def by (intro mult_right_mono) auto
  then show ?thesis
    by (simp add: power_int_diff)
qed

lemma round_pos_mono:
  assumes "0 < x" "x \<le> y"
  shows "round_pos x \<le> round_pos y"
proof (cases "ulp_exp x = ulp_exp y")
  case True
  then show ?thesis
    using assms unfolding round_pos_def
    by (auto intro!: mult_right_mono round_half_even_mono divide_right_mono)
next
  case False
  have b: "binexp x \<le> binexp y"
    by (rule binexp_mono) fact+
  with False have "binexp x < binexp y" and e: "ulp_exp y = binexp y - 52" "ulp_exp x \<le> ulp_exp y"
    by (auto simp: ulp_exp_def)
  then have "x \<le> 2 powi (binexp y)"
    using binexp_bounds(2) [OF assms(1)] two_powi_mono [of "binexp x + 1" "binexp y"] by linarith
  then have "round_pos x \<le> 2 powi (binexp y)"
    using e assms(1) by (intro round_pos_le_powi) auto
  also have "\<dots> \<le> round_pos y"
    using binexp_bounds(1) [of y] assms e by (intro round_pos_ge_powi) auto
  finally show ?thesis .
qed

lemma round_pos_nonneg: "0 < x \<Longrightarrow> 0 \<le> round_pos x"
proof -
  assume "0 < x"
  then have "(0 :: int) \<le> \<lfloor>x / 2 powi (ulp_exp x)\<rfloor>"
    by simp
  then have "0 \<le> round_half_even (x / 2 powi (ulp_exp x))"
    using round_half_even_bounds(1) [of "x / 2 powi (ulp_exp x)"] by linarith
  then show ?thesis
    by (simp add: round_pos_def)
qed

lemma round_double_not_NaN [simp]: "round_double x \<noteq> NaN"
  by (simp add: round_double_def Let_def)

lemma round_double_mono: "x \<le> y \<Longrightarrow> fle (round_double x) (round_double y)"
proof -
  assume le: "x \<le> y"
  consider "x < 0" "y < 0" | "x \<le> 0" "0 \<le> y" | "0 < x" "0 < y"
    using le by linarith
  then show ?thesis
  proof cases
    case 1
    then show ?thesis
      using round_pos_mono [of "- y" "- x"] le by (auto simp: round_double_def Let_def)
  next
    case 2
    then show ?thesis
      using round_pos_nonneg [of "- x"] round_pos_nonneg [of y]
      by (auto simp: round_double_def Let_def)
  next
    case 3
    then show ?thesis
      using round_pos_mono [of x y] le by (auto simp: round_double_def Let_def)
  qed
qed

text \<open>Every integer of at most 53 bits is a double, so rounding leaves it.\<close>

lemma round_pos_int:
  assumes "0 < k" "k < 2 ^ 53"
  shows "round_pos (of_int k) = of_int k"
proof -
  let ?x = "of_int k :: rat"
  have "?x < 2 powi 53"
    using assms(2) by (simp add: power_int_def)
  then have "(2 :: rat) powi (binexp ?x) < 2 powi 53"
    using binexp_bounds(1) [of ?x] assms(1) by linarith
  then have "binexp ?x < 53"
    by (rule two_powi_less)
  then have e: "ulp_exp ?x \<le> 0"
    by (simp add: ulp_exp_def)
  then have "?x / 2 powi (ulp_exp ?x) = of_int (k * 2 ^ nat (- ulp_exp ?x))"
    by (simp add: power_int_def field_simps)
  then have "round_half_even (?x / 2 powi (ulp_exp ?x)) = k * 2 ^ nat (- ulp_exp ?x)"
    by (metis round_half_even_of_int)
  then show ?thesis
    unfolding round_pos_def using e by (simp add: power_int_def field_simps)
qed

lemma round_double_int:
  assumes "\<bar>k\<bar> < 2 ^ 53"
  shows "round_double (of_int k) = Fin (of_int k)"
proof -
  have big: "(of_int m :: rat) < 2 ^ 1024" if "m < 2 ^ 53" for m :: int
  proof -
    have "(of_int m :: rat) < 2 ^ 53"
      using that by (metis of_int_less_iff of_int_numeral of_int_power)
    also have "\<dots> \<le> 2 ^ 1024"
      by (rule power_increasing) auto
    finally show ?thesis .
  qed
  consider "k = 0" | "0 < k" | "k < 0" by linarith
  then show ?thesis
  proof cases
    case 2
    then show ?thesis
      using assms big [of k] by (simp add: round_double_def round_pos_int)
  next
    case 3
    then have "round_pos (- of_int k) = - of_int k"
      using assms round_pos_int [of "- k"] by simp
    then show ?thesis
      using assms big [of "- k"] 3 by (simp add: round_double_def)
  qed (simp add: round_double_def)
qed

subsection \<open>Subtraction\<close>

fun fsub :: "pyfloat \<Rightarrow> pyfloat \<Rightarrow> pyfloat" where
  "fsub (Fin a) (Fin b) = round_double (a - b)"
| "fsub NaN y = NaN"
| "fsub x NaN = NaN"
| "fsub PInf PInf = NaN"
| "fsub NInf NInf = NaN"
| "fsub PInf y = PInf"
| "fsub NInf y = NInf"
| "fsub x PInf = NInf"
| "fsub x NInf = PInf"

end
