(* ===== verification/Py_Time.thy ===== *)
theory Py_Time
  imports Exceptions Py_Float
begin

text \<open>
  Python's \<open>datetime\<close> module as the code uses it. A \<open>datetime\<close> is a count of microseconds since
  the start of the year 1 (in UTC) with its awareness; a \<open>timedelta\<close> is a count of microseconds.
  Subtracting a naive from an aware value (or the converse) raises \<open>TypeError\<close>, leaving the
  range of years 1 to 9999 raises \<open>OverflowError\<close>.
\<close>

datatype datetime = DT (us: int) (aware: bool)

definition max_us :: int where
  "max_us = 315537897600000000"

text \<open>\<open>d1 - d2\<close>, a timedelta.\<close>

definition dt_sub :: "datetime \<Rightarrow> datetime \<Rightarrow> exn + int" where
  "dt_sub d1 d2 = (if aware d1 = aware d2 then Inr (us d1 - us d2) else Inl TypeErr)"

text \<open>\<open>d - td\<close>, a datetime.\<close>

definition dt_minus :: "datetime \<Rightarrow> int \<Rightarrow> exn + datetime" where
  "dt_minus d td =
     (if 0 \<le> us d - td \<and> us d - td < max_us then Inr (DT (us d - td) (aware d))
      else Inl OverflowErr)"

text \<open>\<open>td.total_seconds()\<close>: the true division by a million, rounded to a double.\<close>

definition total_seconds :: "int \<Rightarrow> pyfloat" where
  "total_seconds td = round_double (of_int td / 1000000)"

text \<open>
  \<open>timedelta(seconds=x)\<close>: whole seconds exactly, the fraction times a million as a double and
  then rounded half to even; NaN raises \<open>ValueError\<close>, an infinity or more than 999999999 days
  \<open>OverflowError\<close>. \<open>timedelta(days=n)\<close> for an int.
\<close>

definition max_days_us :: int where
  "max_days_us = 86400000000 * 999999999"

definition check_timedelta :: "int \<Rightarrow> exn + int" where
  "check_timedelta td =
     (if - max_days_us \<le> td \<and> td < max_days_us + 86400000000 then Inr td else Inl OverflowErr)"

fun timedelta_seconds :: "pyfloat \<Rightarrow> exn + int" where
  "timedelta_seconds (Fin x) =
     (let w = (if x < 0 then \<lceil>x\<rceil> else \<lfloor>x\<rfloor>)
      in case round_double ((x - of_int w) * 1000000) of
           Fin f \<Rightarrow> check_timedelta (w * 1000000 + round_half_even f)
         | _ \<Rightarrow> Inl OverflowErr)"
| "timedelta_seconds PInf = Inl OverflowErr"
| "timedelta_seconds NInf = Inl OverflowErr"
| "timedelta_seconds NaN = Inl ValueErr"

definition timedelta_days :: "int \<Rightarrow> exn + int" where
  "timedelta_days n = check_timedelta (n * 86400000000)"

definition one_hour :: int where
  "one_hour = 3600000000"

text \<open>\<open>collector/db/timeutil.py\<close>: a naive value is taken as UTC.\<close>

definition ensure_utc :: "datetime \<Rightarrow> datetime" where
  "ensure_utc d = (if aware d then d else DT (us d) True)"

lemma us_ensure_utc [simp]: "us (ensure_utc d) = us d"
  by (simp add: ensure_utc_def)

lemma aware_ensure_utc [simp]: "aware (ensure_utc d)"
  by (simp add: ensure_utc_def)

lemma ensure_utc_idem [simp]: "ensure_utc (ensure_utc d) = ensure_utc d"
  by (simp add: ensure_utc_def)

lemma ensure_utc_eq: "ensure_utc d = DT (us d) True"
  by (cases d) (simp add: ensure_utc_def)

lemma dt_sub_aware: "aware d1 \<Longrightarrow> aware d2 \<Longrightarrow> dt_sub d1 d2 = Inr (us d1 - us d2)"
  by (simp add: dt_sub_def)

lemma total_seconds_mono: "a \<le> b \<Longrightarrow> fle (total_seconds a) (total_seconds b)"
  unfolding total_seconds_def by (intro round_double_mono divide_right_mono) auto

lemma total_seconds_not_NaN [simp]: "total_seconds td \<noteq> NaN"
  by (simp add: total_seconds_def)

text \<open>Whole seconds of at most 53 bits are exact.\<close>

lemma total_seconds_whole:
  "\<bar>k\<bar> < 2 ^ 53 \<Longrightarrow> total_seconds (k * 1000000) = Fin (of_int k)"
  using round_double_int [of k] by (simp add: total_seconds_def)

text \<open>For evaluation: no rounding is needed for whole seconds.\<close>

lemma total_seconds_code [code]:
  "total_seconds td =
     (if td mod 1000000 = 0 \<and> \<bar>td div 1000000\<bar> < 9007199254740992 then Fin (of_int (td div 1000000))
      else round_double (of_int td / 1000000))"
proof (cases "td mod 1000000 = 0 \<and> \<bar>td div 1000000\<bar> < 9007199254740992")
  case True
  have "td div 1000000 * 1000000 = td"
    using True by (simp add: dvd_div_mult_self mod_0_imp_dvd)
  moreover have "total_seconds (td div 1000000 * 1000000) = Fin (of_int (td div 1000000))"
    using True by (intro total_seconds_whole) simp
  ultimately show ?thesis
    using True by (simp only: if_True simp_thms)
next
  case False
  then show ?thesis
    by (simp only: total_seconds_def if_False)
qed

lemma timedelta_seconds_whole:
  assumes "\<bar>k\<bar> \<le> 86399999913600"
  shows "timedelta_seconds (Fin (of_int k)) = Inr (k * 1000000)"
  using assms by (auto simp: Let_def round_double_def round_half_even_def check_timedelta_def
      max_days_us_def)

text \<open>Differences of dates of the years 1 to 9999 are finite numbers of seconds.\<close>

lemma total_seconds_Fin: "\<bar>td\<bar> \<le> max_us \<Longrightarrow> \<exists>x. total_seconds td = Fin x"
proof -
  assume "\<bar>td\<bar> \<le> max_us"
  then have "fle (total_seconds (- 315537897600 * 1000000)) (total_seconds td)"
      "fle (total_seconds td) (total_seconds (315537897600 * 1000000))"
    by (intro total_seconds_mono; simp add: max_us_def)+
  moreover have "total_seconds (k * 1000000) = Fin (of_int k)" if "\<bar>k\<bar> = 315537897600" for k
    using that by (intro total_seconds_whole) simp
  ultimately have "fle (Fin (of_int (- 315537897600))) (total_seconds td)"
      "fle (total_seconds td) (Fin (of_int 315537897600))"
    by (metis abs_minus abs_numeral)+
  then show ?thesis
    by (cases "total_seconds td") simp_all
qed

definition in_range :: "datetime \<Rightarrow> bool" where
  "in_range d \<longleftrightarrow> 0 \<le> us d \<and> us d < max_us"

end
