(* ===== verification/Py_Text.thy ===== *)
theory Py_Text
  imports Prelude Py_Float
begin

text \<open>
  The string operations of Python that the code uses. A \<open>str\<close> is a list of bytes here (the
  UTF-8 encoding of its text): decimal numerals, \<open>repr\<close>, \<open>strip\<close>, \<open>split\<close>, \<open>splitlines\<close>,
  \<open>upper\<close> and the \<open>.0f\<close> format.
\<close>

subsection \<open>Numerals\<close>

fun show_nat :: "nat \<Rightarrow> string" where
  "show_nat n = (if n < 10 then [char_of (48 + n)]
                 else show_nat (n div 10) @ [char_of (48 + n mod 10)])"

declare show_nat.simps [simp del]

definition show_int :: "int \<Rightarrow> string" where
  "show_int i = (if i < 0 then CHR ''-'' # show_nat (nat (- i)) else show_nat (nat i))"

text \<open>\<open>int(x)\<close> of a float: truncation towards zero; NaN and the infinities raise.\<close>

definition trunc_rat :: "rat \<Rightarrow> int" where
  "trunc_rat x = (if x < 0 then \<lceil>x\<rceil> else \<lfloor>x\<rfloor>)"

text \<open>The format \<open>{x:.0f}\<close>: no decimals, rounded half to even on the exact value.\<close>

fun fmt_0f :: "pyfloat \<Rightarrow> string" where
  "fmt_0f (Fin r) = (if r < 0 then CHR ''-'' # show_int (round_half_even (- r))
                     else show_int (round_half_even r))"
| "fmt_0f PInf = ''inf''"
| "fmt_0f NInf = ''-inf''"
| "fmt_0f NaN = ''nan''"

subsection \<open>\<open>repr\<close> of a string\<close>

definition hex_digit :: "nat \<Rightarrow> char" where
  "hex_digit n = (if n < 10 then char_of (48 + n) else char_of (87 + n))"

definition repr_char :: "char \<Rightarrow> char \<Rightarrow> string" where
  "repr_char q c =
     (if c = q \<or> c = CHR 0x5C then [CHR 0x5C, c]
      else if c = CHR 0x0A then [CHR 0x5C, CHR ''n'']
      else if c = CHR 0x0D then [CHR 0x5C, CHR ''r'']
      else if c = CHR 0x09 then [CHR 0x5C, CHR ''t'']
      else if of_char c < (32 :: nat) \<or> of_char c = (127 :: nat)
           then [CHR 0x5C, CHR ''x'', hex_digit (of_char c div 16), hex_digit (of_char c mod 16)]
      else [c])"

definition py_repr :: "string \<Rightarrow> string" where
  "py_repr s =
     (let q = (if CHR 0x27 \<in> set s \<and> CHR 0x22 \<notin> set s then CHR 0x22 else CHR 0x27)
      in q # concat (map (repr_char q) s) @ [q])"

subsection \<open>\<open>strip\<close>, \<open>split\<close>, \<open>splitlines\<close>, \<open>upper\<close>\<close>

text \<open>
  The white space that \<open>str.strip\<close> removes, encoded: the ASCII blanks and separators, U+0085,
  U+00A0, U+1680, U+2000 to U+200A, U+2028, U+2029, U+202F, U+205F and U+3000.
\<close>

definition utf8_spaces :: "string list" where
  "utf8_spaces =
     map (\<lambda>n. [char_of (n :: nat)]) ([9..<14] @ [28..<33]) @
     [[CHR 0xC2, CHR 0x85], [CHR 0xC2, CHR 0xA0], [CHR 0xE1, CHR 0x9A, CHR 0x80]] @
     map (\<lambda>n. [CHR 0xE2, CHR 0x80, char_of (n :: nat)]) ([0x80..<0x8B] @ [0xA8, 0xA9, 0xAF]) @
     [[CHR 0xE2, CHR 0x81, CHR 0x9F], [CHR 0xE3, CHR 0x80, CHR 0x80]]"

text \<open>For evaluation: the list written out.\<close>

lemma utf8_spaces_code [code]:
  "utf8_spaces =
     [[CHR 0x09], [CHR 0x0A], [CHR 0x0B], [CHR 0x0C], [CHR 0x0D], [CHR 0x1C], [CHR 0x1D], [CHR 0x1E], [CHR 0x1F],
      [CHR 0x20], [CHR 0xC2, CHR 0x85], [CHR 0xC2, CHR 0xA0], [CHR 0xE1, CHR 0x9A, CHR 0x80],
      [CHR 0xE2, CHR 0x80, CHR 0x80], [CHR 0xE2, CHR 0x80, CHR 0x81], [CHR 0xE2, CHR 0x80, CHR 0x82],
      [CHR 0xE2, CHR 0x80, CHR 0x83], [CHR 0xE2, CHR 0x80, CHR 0x84], [CHR 0xE2, CHR 0x80, CHR 0x85],
      [CHR 0xE2, CHR 0x80, CHR 0x86], [CHR 0xE2, CHR 0x80, CHR 0x87], [CHR 0xE2, CHR 0x80, CHR 0x88],
      [CHR 0xE2, CHR 0x80, CHR 0x89], [CHR 0xE2, CHR 0x80, CHR 0x8A], [CHR 0xE2, CHR 0x80, CHR 0xA8],
      [CHR 0xE2, CHR 0x80, CHR 0xA9], [CHR 0xE2, CHR 0x80, CHR 0xAF], [CHR 0xE2, CHR 0x81, CHR 0x9F],
      [CHR 0xE3, CHR 0x80, CHR 0x80]]"
  by code_simp

definition drop_prefix :: "string list \<Rightarrow> string \<Rightarrow> string option" where
  "drop_prefix ps s =
     map_option (\<lambda>p. drop (length p) s) (find (\<lambda>p. p \<noteq> [] \<and> take (length p) s = p) ps)"

lemma drop_prefix_SomeD: "drop_prefix ps s = Some r \<Longrightarrow> \<exists>p \<in> set ps. p \<noteq> [] \<and> s = p @ r"
  by (auto simp: drop_prefix_def dest!: find_SomeD) (metis append_take_drop_id)

function drop_all :: "string list \<Rightarrow> string \<Rightarrow> string" where
  "drop_all ps s = (case drop_prefix ps s of None \<Rightarrow> s | Some r \<Rightarrow> drop_all ps r)"
  by pat_completeness auto
termination
  by (relation "measure (length \<circ> snd)") (auto dest: drop_prefix_SomeD)

declare drop_all.simps [simp del]

definition strip :: "string \<Rightarrow> string" where
  "strip s = rev (drop_all (map rev utf8_spaces) (rev (drop_all utf8_spaces s)))"

lemma drop_all_Nil [simp]: "drop_all ps [] = []"
proof -
  have "drop_prefix ps [] = None"
    using drop_prefix_SomeD [of ps "[]"] by (cases "drop_prefix ps []") auto
  then show ?thesis
    by (subst drop_all.simps) simp
qed

text \<open>For evaluation: the empty text needs no list of white space.\<close>

lemma strip_code [code]:
  "strip s = (if s = [] then [] else rev (drop_all (map rev utf8_spaces) (rev (drop_all utf8_spaces s))))"
  by (simp add: strip_def)

text \<open>A character that is part of no white space survives stripping.\<close>

lemma drop_all_keeps: "c \<in> set s \<Longrightarrow> \<forall>p \<in> set ps. c \<notin> set p \<Longrightarrow> c \<in> set (drop_all ps s)"
proof (induction ps s rule: drop_all.induct)
  case (1 ps s)
  show ?case
  proof (cases "drop_prefix ps s")
    case None
    then show ?thesis
      using 1 by (subst drop_all.simps) simp
  next
    case (Some r)
    then have "c \<in> set r"
      using 1(2,3) drop_prefix_SomeD [OF Some] by auto
    then show ?thesis
      using 1(1) [OF Some] 1(3) Some by (subst drop_all.simps) simp
  qed
qed

lemma strip_nonblank: "CHR ''{'' \<in> set s \<Longrightarrow> strip s \<noteq> []"
proof -
  have "\<forall>p \<in> set utf8_spaces. CHR ''{'' \<notin> set p"
    by code_simp
  then show "CHR ''{'' \<in> set s \<Longrightarrow> strip s \<noteq> []"
    using drop_all_keeps [of "CHR ''{''" s utf8_spaces]
      drop_all_keeps [of "CHR ''{''" "rev (drop_all utf8_spaces s)" "map rev utf8_spaces"]
    by (auto simp: strip_def)
qed
fun split_on :: "char \<Rightarrow> string \<Rightarrow> string list" where
  "split_on c [] = [[]]"
| "split_on c (x # xs) =
     (if x = c then [] # split_on c xs
      else case split_on c xs of [] \<Rightarrow> [[x]] | w # ws \<Rightarrow> (x # w) # ws)"

text \<open>
  \<open>str.splitlines\<close>: a line ends at \<open>\n\<close>, \<open>\r\<close>, \<open>\r\n\<close>, a vertical tab, a form feed, one of the
  separators U+001C to U+001E, U+0085, U+2028 or U+2029; the end of the text closes a last line
  only if there is something on it.
\<close>

fun line_break :: "string \<Rightarrow> string option" where
  "line_break (c # s) =
     (let n = of_char c :: nat in
      if n = 13 then (case s of d # s' \<Rightarrow> if d = CHR 0x0A then Some s' else Some s | [] \<Rightarrow> Some s)
      else if (10 \<le> n \<and> n \<le> 12) \<or> (28 \<le> n \<and> n \<le> 30) then Some s
      else if c = CHR 0xC2 then (case s of d # s' \<Rightarrow> if d = CHR 0x85 then Some s' else None | [] \<Rightarrow> None)
      else if c = CHR 0xE2 then
        (case s of d # f # s' \<Rightarrow>
           if d = CHR 0x80 \<and> (f = CHR 0xA8 \<or> f = CHR 0xA9) then Some s' else None
         | _ \<Rightarrow> None)
      else None)"
| "line_break [] = None"

lemma line_break_shorter: "line_break s = Some r \<Longrightarrow> length r < length s"
  by (cases s) (auto simp: Let_def split: if_splits list.splits)

function split_lines_from :: "string \<Rightarrow> string \<Rightarrow> string list" where
  "split_lines_from acc s =
     (case line_break s of
        Some r \<Rightarrow> rev acc # split_lines_from [] r
      | None \<Rightarrow> (case s of [] \<Rightarrow> (if acc = [] then [] else [rev acc]) | c # s' \<Rightarrow> split_lines_from (c # acc) s'))"
  by pat_completeness auto
termination
  by (relation "measure (length \<circ> snd)") (auto dest: line_break_shorter)

declare split_lines_from.simps [simp del]

definition splitlines :: "string \<Rightarrow> string list" where
  "splitlines s = split_lines_from [] s"

text \<open>Texts with no line break in them, and the round trip of such lines.\<close>

fun unbroken :: "string \<Rightarrow> bool" where
  "unbroken [] = True"
| "unbroken (c # s) = (line_break (c # s) = None \<and> unbroken s)"

lemma line_break_newline: "line_break (CHR 0x0A # s) = Some s"
  by simp

lemma line_break_before_newline:
  "line_break (c # s) = None \<Longrightarrow> line_break (c # s @ CHR 0x0A # r) = None"
  by (cases s rule: list.exhaust; cases "tl s")
    (auto simp: Let_def split: if_splits list.splits)

lemma split_lines_unbroken:
  "unbroken x \<Longrightarrow> split_lines_from acc (x @ CHR 0x0A # r) = (rev acc @ x) # split_lines_from [] r"
proof (induction x arbitrary: acc)
  case Nil
  then show ?case
    by (subst split_lines_from.simps) (simp only: append_Nil line_break_newline option.case append_Nil2)
next
  case (Cons c x)
  have "line_break (c # x @ CHR 0x0A # r) = None"
    using Cons.prems by (intro line_break_before_newline) simp
  then show ?case
    using Cons by (subst split_lines_from.simps) (simp del: line_break.simps)
qed

lemma splitlines_lines:
  "list_all unbroken xs \<Longrightarrow> splitlines (concat (map (\<lambda>x. x @ [CHR 0x0A]) xs)) = xs"
proof (induction xs)
  case Nil
  show ?case
    by (simp add: splitlines_def split_lines_from.simps)
next
  case (Cons x xs)
  then show ?case
    using split_lines_unbroken [of x "[]" "concat (map (\<lambda>x. x @ [CHR 0x0A]) xs)"]
    by (simp add: splitlines_def)
qed

definition upper :: "string \<Rightarrow> string" where
  "upper s = map (\<lambda>c. let n = of_char c :: nat in
                       if 97 \<le> n \<and> n \<le> 122 then char_of (n - 32) else c) s"

text \<open>The comma-separated settings: the stripped, non-blank entries.\<close>

definition comma_set :: "string \<Rightarrow> string list" where
  "comma_set s = map strip (filter (\<lambda>p. strip p \<noteq> []) (split_on CHR '','' s))"

lemma comma_set_nonempty: "p \<in> set (comma_set s) \<Longrightarrow> p \<noteq> []"
  by (auto simp: comma_set_def)

subsection \<open>Dictionaries\<close>

text \<open>A \<open>dict[str, str]\<close> as the list of its items, in insertion order.\<close>

type_synonym dict = "(string \<times> string) list"

definition dict_get :: "dict \<Rightarrow> string \<Rightarrow> string \<Rightarrow> string" where
  "dict_get d k dflt = (case map_of d k of None \<Rightarrow> dflt | Some v \<Rightarrow> v)"

end
