(* ===== verification/Database.thy ===== *)
theory Database
  imports Domain
begin

text \<open>
  The Collector's database as its repositories see it: the four tables declared by
  \<open>collector/db/models\<close>, and a session that issues statements and commits. What the database
  server decides is a parameter, the record \<open>env\<close>: which statement or commit raises an
  \<open>SQLAlchemyError\<close>, in which order an unordered \<open>SELECT\<close> returns its rows (and so which rows a
  \<open>LIMIT\<close> keeps), and which fresh key an autoincrement column takes. Nothing is assumed of these
  choices. A commit either applies everything or nothing, and a
  statement sees what the previous commit left. The operations of the repositories are the units
  that theory \<open>Interleaving\<close> lets the threads of the Collector interleave.
\<close>

subsection \<open>Rows\<close>

record node_row =
  nd_node_id :: string
  nd_first_seen_at :: datetime
  nd_last_seen_at :: datetime

record sample_row =
  sm_id :: int
  sm_node_id :: string
  sm_metric_type :: metric_type
  sm_value :: pyfloat
  sm_unit :: string
  sm_labels :: dict
  sm_collected_at :: datetime
  sm_received_at :: datetime

record alert_row =
  al_id :: int
  al_node_id :: string
  al_rule_key :: string
  al_rule_kind :: rule_kind
  al_severity :: severity
  al_status :: alert_status
  al_description :: string
  al_triggering_value :: pyfloat
  al_bound :: pyfloat
  al_first_fired_at :: datetime
  al_last_fired_at :: datetime
  al_resolved_at :: "datetime option"
  al_acknowledged_at :: "datetime option"
  al_acknowledged_by :: "string option"
  al_escalated_at :: "datetime option"
  al_remediated_at :: "datetime option"

record action_row =
  ac_id :: int
  ac_node_id :: string
  ac_alert_id :: int
  ac_rule_key :: string
  ac_playbook_name :: string
  ac_action_type :: action_type
  ac_parameters :: dict
  ac_status :: action_status
  ac_reason :: "string option"
  ac_created_at :: datetime
  ac_completed_at :: "datetime option"

record db =
  nodes :: "node_row list"
  samples :: "sample_row list"
  alerts :: "alert_row list"
  actions :: "action_row list"

text \<open>
  The state of a Collector process: the tables, the number of statements issued so far, and the
  messages handed to the Telegram API, in order.
\<close>

record world =
  tables :: db
  stmts :: nat
  outbox :: "(string \<times> string) list"

record env =
  fails :: "nat \<Rightarrow> bool"
  rank :: "nat \<Rightarrow> nat \<Rightarrow> nat"
  id_gap :: "nat \<Rightarrow> nat"
  telegram :: "nat \<Rightarrow> http_outcome"
  float_repr :: "pyfloat \<Rightarrow> string"

definition init_db :: db where
  "init_db = \<lparr>nodes = [], samples = [], alerts = [], actions = []\<rparr>"

definition init_world :: world where
  "init_world = \<lparr>tables = init_db, stmts = 0, outbox = []\<rparr>"

subsection \<open>Statements\<close>

text \<open>
  \<open>execute e msg q\<close> issues one statement or commit: it either fails, which the repositories turn
  into a \<open>PersistenceError\<close> (after a rollback, so the tables are as before), or has the effect
  and the result \<open>q\<close>, which may itself be an integrity error of the database.
\<close>

definition execute :: "env \<Rightarrow> string \<Rightarrow> (nat \<Rightarrow> db \<Rightarrow> (unit + 'a \<times> db)) \<Rightarrow> (world, exn, 'a) comp" where
  "execute e msg q = (\<lambda>w.
     let n = stmts w; w' = w\<lparr>stmts := Suc n\<rparr>
     in if fails e n then (Inl (PersistenceError msg), w')
        else case q n (tables w) of
               Inl _ \<Rightarrow> (Inl (PersistenceError msg), w')
             | Inr (v, d) \<Rightarrow> (Inr v, w'\<lparr>tables := d\<rparr>))"

definition query :: "env \<Rightarrow> string \<Rightarrow> (nat \<Rightarrow> db \<Rightarrow> 'a) \<Rightarrow> (world, exn, 'a) comp" where
  "query e msg q = execute e msg (\<lambda>n d. Inr (q n d, d))"

text \<open>The rows of an unordered \<open>SELECT\<close>: a permutation picked by the server for this statement.\<close>

definition scan :: "env \<Rightarrow> nat \<Rightarrow> 'r list \<Rightarrow> 'r list" where
  "scan e n rows = map ((!) rows) (sort_key (rank e n) [0..<length rows])"

text \<open>\<open>ORDER BY key DESC\<close>: descending, rows of equal keys in the server's order.\<close>

definition order_desc :: "('r \<Rightarrow> int) \<Rightarrow> 'r list \<Rightarrow> 'r list" where
  "order_desc key rows = sort_key (\<lambda>r. - key r) rows"

definition first_row :: "'r list \<Rightarrow> 'r option" where
  "first_row rows = (case rows of [] \<Rightarrow> None | r # _ \<Rightarrow> Some r)"

text \<open>Autoincrement: above every key in the table, with the gaps that rolled-back inserts leave.\<close>

definition next_id :: "env \<Rightarrow> nat \<Rightarrow> int list \<Rightarrow> int" where
  "next_id e n ids = fold max ids 0 + 1 + int (id_gap e n)"

text \<open>
  \<open>LIMIT n\<close>, an error for a negative \<open>n\<close>; access by primary key; the tables after a row is
  written back or rows are deleted by key.
\<close>

definition limit_rows :: "int \<Rightarrow> 'r list \<Rightarrow> unit + 'r list" where
  "limit_rows n rows = (if n < 0 then Inl () else Inr (take (nat n) rows))"

definition row_at :: "('r \<Rightarrow> 'k) \<Rightarrow> 'k \<Rightarrow> 'r list \<Rightarrow> 'r option" where
  "row_at key k rows = find (\<lambda>r. key r = k) rows"

definition put_row :: "('r \<Rightarrow> 'k) \<Rightarrow> 'r \<Rightarrow> 'r list \<Rightarrow> 'r list" where
  "put_row key row rows = map (\<lambda>r. if key r = key row then row else r) rows"

definition delete_rows :: "('r \<Rightarrow> 'k) \<Rightarrow> 'k list \<Rightarrow> 'r list \<Rightarrow> 'r list" where
  "delete_rows key ks rows = filter (\<lambda>r. key r \<notin> set ks) rows"

subsection \<open>Facts about statements\<close>

lemma mset_scan [simp]: "mset (scan e n rows) = mset rows"
proof -
  have "mset (scan e n rows) = image_mset ((!) rows) (mset [0..<length rows])"
    by (simp add: scan_def)
  also have "\<dots> = mset (map ((!) rows) [0..<length rows])"
    by (simp del: mset_upt)
  finally show ?thesis
    by (simp add: map_nth)
qed

lemma set_scan [simp]: "set (scan e n rows) = set rows"
  by (metis mset_scan set_mset_mset)

lemma length_scan [simp]: "length (scan e n rows) = length rows"
  by (simp add: scan_def)

lemma scan_Nil [simp]: "scan e n [] = []"
  by (simp add: scan_def)

lemma scan_single [simp]: "scan e n [r] = [r]"
  by (simp add: scan_def)

lemma first_row_SomeD: "first_row rows = Some r \<Longrightarrow> r \<in> set rows"
  by (auto simp: first_row_def split: list.splits)

lemma first_row_None [simp]: "first_row rows = None \<longleftrightarrow> rows = []"
  by (auto simp: first_row_def split: list.splits)

lemma first_row_Nil [simp]: "first_row [] = None"
  by (simp add: first_row_def)

lemma first_row_Cons [simp]: "first_row (r # rows) = Some r"
  by (simp add: first_row_def)

lemma set_order_desc [simp]: "set (order_desc key rows) = set rows"
  by (simp add: order_desc_def)

lemma order_desc_Nil [simp]: "order_desc key [] = []"
  by (simp add: order_desc_def)

lemma order_desc_eq_Nil [simp]: "order_desc key rows = [] \<longleftrightarrow> rows = []"
  by (metis set_empty set_order_desc)

lemma order_desc_first:
  assumes "first_row (order_desc key rows) = Some r" and "x \<in> set rows"
  shows "key x \<le> key r"
proof -
  have "sorted (map (\<lambda>r. - key r) (order_desc key rows))"
    by (simp add: order_desc_def)
  moreover obtain rs where "order_desc key rows = r # rs"
    using assms(1) by (auto simp: first_row_def split: list.splits)
  moreover have "x \<in> set (order_desc key rows)"
    using assms(2) by simp
  ultimately show ?thesis
    by auto
qed

lemma fold_max_ge: "(a :: int) \<le> fold max xs a"
  by (induction xs arbitrary: a) (auto intro: order_trans [OF max.cobounded2])

lemma fold_max_ge_mem: "x \<in> set xs \<Longrightarrow> (x :: int) \<le> fold max xs a"
  by (induction xs arbitrary: a) (auto intro: order_trans [OF max.cobounded1 fold_max_ge])

lemma next_id_gt: "i \<in> set ids \<Longrightarrow> i < next_id e n ids"
  using fold_max_ge_mem [of i ids 0] by (simp add: next_id_def)

lemma next_id_fresh [simp]: "next_id e n ids \<notin> set ids"
  using next_id_gt by blast

lemma next_id_fresh_map [simp]: "next_id e n (map f rows) \<notin> f ` set rows"
  by (metis list.set_map next_id_fresh)

lemma next_id_pos: "0 < next_id e n ids"
  using fold_max_ge [of 0 ids] by (simp add: next_id_def)

subsection \<open>Facts about rows under their primary key\<close>

lemma row_at_SomeD: "row_at key k rows = Some r \<Longrightarrow> r \<in> set rows \<and> key r = k"
  unfolding row_at_def by (rule find_SomeD)

lemma row_at_None: "row_at key k rows = None \<longleftrightarrow> k \<notin> key ` set rows"
  by (auto simp: row_at_def find_None_iff)

lemma row_at_mem: "distinct (map key rows) \<Longrightarrow> r \<in> set rows \<Longrightarrow> row_at key (key r) rows = Some r"
  by (induction rows) (auto simp: row_at_def image_iff)

lemma key_put_row [simp]: "map key (put_row key row rows) = map key rows"
  by (induction rows) (auto simp: put_row_def)

lemma length_put_row [simp]: "length (put_row key row rows) = length rows"
  by (simp add: put_row_def)

lemma set_put_row: "set (put_row key row rows) \<subseteq> insert row (set rows)"
  by (auto simp: put_row_def)

lemma mem_put_row:
  "x \<in> set (put_row key row rows) \<Longrightarrow> (x = row \<and> key row \<in> key ` set rows) \<or> (x \<in> set rows \<and> key x \<noteq> key row)"
proof -
  assume "x \<in> set (put_row key row rows)"
  then obtain r where "r \<in> set rows" and x: "x = (if key r = key row then row else r)"
    by (auto simp: put_row_def)
  then have "key r \<in> key ` set rows" by simp
  with x \<open>r \<in> set rows\<close> show ?thesis by (cases "key r = key row") auto
qed

lemma row_at_put_same: "row_at key k rows = Some r \<Longrightarrow> key row = k \<Longrightarrow> row_at key k (put_row key row rows) = Some row"
  by (induction rows) (auto simp: row_at_def put_row_def split: if_splits)

lemma row_at_put_other: "k \<noteq> key row \<Longrightarrow> row_at key k (put_row key row rows) = row_at key k rows"
  by (induction rows) (auto simp: row_at_def put_row_def)

lemma put_row_put_row: "key a = key b \<Longrightarrow> put_row key a (put_row key b rows) = put_row key a rows"
  by (induction rows) (auto simp: put_row_def)

lemma row_at_append_fresh:
  "key row \<notin> key ` set rows \<Longrightarrow> row_at key (key row) (rows @ [row]) = Some row"
  by (induction rows) (auto simp: row_at_def)

lemma row_at_append: "row_at key k rows = Some r \<Longrightarrow> row_at key k (rows @ xs) = Some r"
  by (induction rows) (auto simp: row_at_def)

lemma set_delete_rows: "set (delete_rows key ks rows) = {r \<in> set rows. key r \<notin> set ks}"
  by (auto simp: delete_rows_def)

lemma distinct_delete_rows: "distinct (map key rows) \<Longrightarrow> distinct (map key (delete_rows key' ks rows))"
  by (simp add: delete_rows_def distinct_map_filter)

subsection \<open>Rules for statements\<close>

text \<open>
  A failed statement leaves tables and outbox as they were. Every repository operation is
  described by a rule of this shape: what holds after a failure, what holds after success.
\<close>

definition same_data :: "world \<Rightarrow> world \<Rightarrow> bool" where
  "same_data w w' \<longleftrightarrow> tables w' = tables w \<and> outbox w' = outbox w"

lemma same_data_refl [simp]: "same_data w w"
  by (simp add: same_data_def)

lemma same_data_trans: "same_data u v \<Longrightarrow> same_data v w \<Longrightarrow> same_data u w"
  by (simp add: same_data_def)

lemma same_dataD: "same_data w w' \<Longrightarrow> tables w' = tables w" "same_data w w' \<Longrightarrow> outbox w' = outbox w"
  by (simp_all add: same_data_def)

text \<open>A database that never fails a statement.\<close>

definition no_faults :: "env \<Rightarrow> bool" where
  "no_faults e \<longleftrightarrow> (\<forall>n. \<not> fails e n)"

lemma execute_rule:
  assumes "\<And>w'. same_data w w' \<Longrightarrow> \<not> no_faults e \<or> (\<exists>u. q (stmts w) (tables w) = Inl u) \<Longrightarrow>
      E (PersistenceError msg) w'"
    and "\<And>v d w'. q (stmts w) (tables w) = Inr (v, d) \<Longrightarrow> tables w' = d \<Longrightarrow> outbox w' = outbox w \<Longrightarrow> Q v w'"
  shows "wp (execute e msg q) Q E w"
proof (cases "fails e (stmts w)")
  case True
  then have "\<not> no_faults e"
    by (auto simp: no_faults_def)
  then show ?thesis
    using True assms(1) by (simp add: wp_def execute_def Let_def same_data_def)
next
  case False
  then show ?thesis
    using assms by (auto simp: wp_def execute_def Let_def same_data_def split: sum.splits)
qed

lemma query_rule:
  assumes "\<And>w'. same_data w w' \<Longrightarrow> \<not> no_faults e \<Longrightarrow> E (PersistenceError msg) w'"
    and "\<And>w'. same_data w w' \<Longrightarrow> Q (q (stmts w) (tables w)) w'"
  shows "wp (query e msg q) Q E w"
  unfolding query_def by (rule execute_rule) (use assms in \<open>auto simp: same_data_def\<close>)

lemma execute_ok:
  assumes "no_faults e" and "q (stmts w) (tables w) = Inr (v, d)"
  shows "execute e msg q w = (Inr v, w\<lparr>stmts := Suc (stmts w), tables := d\<rparr>)"
  using assms by (simp add: execute_def no_faults_def Let_def)

lemma query_ok:
  assumes "no_faults e"
  shows "query e msg q w = (Inr (q (stmts w) (tables w)), w\<lparr>stmts := Suc (stmts w)\<rparr>)"
  using assms by (simp add: query_def execute_def no_faults_def Let_def)

end
