(* ===== verification/Alert_Repository.thy ===== *)
theory Alert_Repository
  imports Database
begin

text \<open>
  \<open>collector/repositories/alert_repository.py\<close>: alerts and their lifecycle columns. Every
  mutating operation reads the row by primary key, changes the fields the source assigns and
  commits; the rules below give the row and the tables after each of them, and say that a
  failure leaves tables and outbox alone.
\<close>

definition alert_to_record :: "alert_row \<Rightarrow> alert_row" where
  "alert_to_record r =
     r\<lparr>al_first_fired_at := ensure_utc (al_first_fired_at r),
       al_last_fired_at := ensure_utc (al_last_fired_at r),
       al_resolved_at := map_option ensure_utc (al_resolved_at r),
       al_acknowledged_at := map_option ensure_utc (al_acknowledged_at r),
       al_escalated_at := map_option ensure_utc (al_escalated_at r),
       al_remediated_at := map_option ensure_utc (al_remediated_at r)\<rparr>"

definition is_open :: "string \<Rightarrow> string \<Rightarrow> alert_row \<Rightarrow> bool" where
  "is_open node_id rule_key r \<longleftrightarrow>
     al_node_id r = node_id \<and> al_rule_key r = rule_key \<and> al_status r = FIRING"

definition find_open_alert :: "env \<Rightarrow> string \<Rightarrow> string \<Rightarrow> (world, exn, alert_row option) comp" where
  "find_open_alert e node_id rule_key =
     seq (query e ''failed to look up open alert'' (\<lambda>n d.
            first_row (scan e n (filter (is_open node_id rule_key) (alerts d)))))
       (\<lambda>row. ret (map_option alert_to_record row))"

definition create_alert ::
    "env \<Rightarrow> string \<Rightarrow> string \<Rightarrow> rule_kind \<Rightarrow> severity \<Rightarrow> string \<Rightarrow> pyfloat \<Rightarrow> pyfloat \<Rightarrow> datetime \<Rightarrow>
     (world, exn, alert_row) comp" where
  "create_alert e node_id rule_key kind sev description triggering_value bound fired_at =
     seq (execute e ''failed to create alert'' (\<lambda>n d.
            let row = \<lparr>al_id = next_id e n (map al_id (alerts d)), al_node_id = node_id,
                       al_rule_key = rule_key, al_rule_kind = kind, al_severity = sev,
                       al_status = FIRING, al_description = description,
                       al_triggering_value = triggering_value, al_bound = bound,
                       al_first_fired_at = fired_at, al_last_fired_at = fired_at,
                       al_resolved_at = None, al_acknowledged_at = None,
                       al_acknowledged_by = None, al_escalated_at = None,
                       al_remediated_at = None\<rparr>
            in if node_id \<notin> nd_node_id ` set (nodes d) then Inl ()
               else Inr (row, d\<lparr>alerts := alerts d @ [row]\<rparr>)))
       (\<lambda>row. ret (alert_to_record row))"

definition alert_get_or_raise :: "env \<Rightarrow> int \<Rightarrow> string \<Rightarrow> (world, exn, alert_row) comp" where
  "alert_get_or_raise e alert_id error_message =
     seq (query e error_message (\<lambda>n d. row_at al_id alert_id (alerts d))) (\<lambda>row.
     case row of
       None \<Rightarrow> raise (PersistenceError (error_message @ '': alert not found''))
     | Some r \<Rightarrow> ret r)"

text \<open>The commit writes the changed row back; a row that has gone is a \<open>StaleDataError\<close>.\<close>

definition alert_commit_and_return :: "env \<Rightarrow> alert_row \<Rightarrow> string \<Rightarrow> (world, exn, alert_row) comp" where
  "alert_commit_and_return e row error_message =
     seq (execute e error_message (\<lambda>n d.
            if al_id row \<in> al_id ` set (alerts d)
            then Inr ((), d\<lparr>alerts := put_row al_id row (alerts d)\<rparr>) else Inl ()))
       (\<lambda>_. ret (alert_to_record row))"

definition update_last_fired :: "env \<Rightarrow> int \<Rightarrow> pyfloat \<Rightarrow> datetime \<Rightarrow> (world, exn, alert_row) comp" where
  "update_last_fired e alert_id triggering_value fired_at =
     seq (alert_get_or_raise e alert_id ''failed to advance alert'') (\<lambda>row.
     alert_commit_and_return e
       (row\<lparr>al_triggering_value := triggering_value, al_last_fired_at := fired_at\<rparr>)
       ''failed to advance alert'')"

definition resolve_alert :: "env \<Rightarrow> int \<Rightarrow> datetime \<Rightarrow> (world, exn, alert_row) comp" where
  "resolve_alert e alert_id resolved_at =
     seq (alert_get_or_raise e alert_id ''failed to resolve alert'') (\<lambda>row.
     alert_commit_and_return e
       (row\<lparr>al_status := RESOLVED, al_resolved_at := Some resolved_at\<rparr>)
       ''failed to resolve alert'')"

definition acknowledge_alert :: "env \<Rightarrow> int \<Rightarrow> string \<Rightarrow> datetime \<Rightarrow> (world, exn, alert_row) comp" where
  "acknowledge_alert e alert_id acknowledged_by acknowledged_at =
     seq (alert_get_or_raise e alert_id ''failed to acknowledge alert'') (\<lambda>row.
     alert_commit_and_return e
       (row\<lparr>al_acknowledged_by := Some acknowledged_by, al_acknowledged_at := Some acknowledged_at\<rparr>)
       ''failed to acknowledge alert'')"

definition escalate_alert :: "env \<Rightarrow> int \<Rightarrow> datetime \<Rightarrow> (world, exn, alert_row) comp" where
  "escalate_alert e alert_id escalated_at =
     seq (alert_get_or_raise e alert_id ''failed to escalate alert'') (\<lambda>row.
     alert_commit_and_return e (row\<lparr>al_escalated_at := Some escalated_at\<rparr>)
       ''failed to escalate alert'')"

definition mark_remediated :: "env \<Rightarrow> int \<Rightarrow> datetime \<Rightarrow> (world, exn, alert_row) comp" where
  "mark_remediated e alert_id remediated_at =
     seq (alert_get_or_raise e alert_id ''failed to mark alert remediated'') (\<lambda>row.
     alert_commit_and_return e (row\<lparr>al_remediated_at := Some remediated_at\<rparr>)
       ''failed to mark alert remediated'')"

definition alert_get :: "env \<Rightarrow> int \<Rightarrow> (world, exn, alert_row option) comp" where
  "alert_get e alert_id =
     seq (query e ''failed to fetch alert'' (\<lambda>n d. row_at al_id alert_id (alerts d)))
       (\<lambda>row. ret (map_option alert_to_record row))"

definition alert_list :: "env \<Rightarrow> alert_status option \<Rightarrow> (world, exn, alert_row list) comp" where
  "alert_list e status =
     seq (query e ''failed to list alerts'' (\<lambda>n d.
            scan e n (case status of None \<Rightarrow> alerts d
                      | Some st \<Rightarrow> filter (\<lambda>r. al_status r = st) (alerts d))))
       (\<lambda>rows. ret (map alert_to_record rows))"

text \<open>Pruning: resolved, old enough and referenced by no audit row.\<close>

definition alert_prunable :: "datetime \<Rightarrow> db \<Rightarrow> alert_row \<Rightarrow> bool" where
  "alert_prunable cutoff d r \<longleftrightarrow>
     al_status r = RESOLVED \<and>
     (case al_resolved_at r of None \<Rightarrow> False | Some t \<Rightarrow> us t < us cutoff) \<and>
     al_id r \<notin> ac_alert_id ` set (actions d)"

definition prune_resolved_before :: "env \<Rightarrow> datetime \<Rightarrow> int \<Rightarrow> (world, exn, int) comp" where
  "prune_resolved_before e cutoff batch_size =
     execute e ''failed to prune resolved alerts'' (\<lambda>n d.
       case limit_rows batch_size (scan e n (map al_id (filter (alert_prunable cutoff d) (alerts d)))) of
         Inl _ \<Rightarrow> Inl ()
       | Inr doomed \<Rightarrow>
           if set doomed \<inter> ac_alert_id ` set (actions d) \<noteq> {} then Inl ()
           else Inr (int (length (filter (\<lambda>r. al_id r \<in> set doomed) (alerts d))),
                     d\<lparr>alerts := delete_rows al_id doomed (alerts d)\<rparr>))"

subsection \<open>What the operations do\<close>

lemma alert_to_record_simps [simp]:
  "al_id (alert_to_record r) = al_id r"
  "al_node_id (alert_to_record r) = al_node_id r"
  "al_rule_key (alert_to_record r) = al_rule_key r"
  "al_rule_kind (alert_to_record r) = al_rule_kind r"
  "al_severity (alert_to_record r) = al_severity r"
  "al_status (alert_to_record r) = al_status r"
  "al_description (alert_to_record r) = al_description r"
  "al_triggering_value (alert_to_record r) = al_triggering_value r"
  "al_bound (alert_to_record r) = al_bound r"
  "al_first_fired_at (alert_to_record r) = ensure_utc (al_first_fired_at r)"
  "al_last_fired_at (alert_to_record r) = ensure_utc (al_last_fired_at r)"
  "al_resolved_at (alert_to_record r) = map_option ensure_utc (al_resolved_at r)"
  "al_acknowledged_at (alert_to_record r) = map_option ensure_utc (al_acknowledged_at r)"
  "al_acknowledged_by (alert_to_record r) = al_acknowledged_by r"
  "al_escalated_at (alert_to_record r) = map_option ensure_utc (al_escalated_at r)"
  "al_remediated_at (alert_to_record r) = map_option ensure_utc (al_remediated_at r)"
  by (simp_all add: alert_to_record_def)

lemma find_open_alert_rule:
  assumes "\<And>w'. same_data w w' \<Longrightarrow> \<not> no_faults e \<Longrightarrow> E (PersistenceError ''failed to look up open alert'') w'"
    and "\<And>w'. same_data w w' \<Longrightarrow> filter (is_open node_id rule_key) (alerts (tables w)) = [] \<Longrightarrow> Q None w'"
    and "\<And>r w'. same_data w w' \<Longrightarrow> r \<in> set (alerts (tables w)) \<Longrightarrow> is_open node_id rule_key r \<Longrightarrow>
           Q (Some (alert_to_record r)) w'"
  shows "wp (find_open_alert e node_id rule_key) Q E w"
  unfolding find_open_alert_def wp_seq
proof (rule query_rule)
  fix w'
  assume same: "same_data w w'"
  let ?rows = "scan e (stmts w) (filter (is_open node_id rule_key) (alerts (tables w)))"
  show "wp (ret (map_option alert_to_record (first_row ?rows))) Q E w'"
  proof (cases "first_row ?rows")
    case None
    then have "filter (is_open node_id rule_key) (alerts (tables w)) = []"
      by (metis first_row_None set_empty set_scan)
    then show ?thesis
      using assms(2) [OF same] None by (simp add: wp_simps)
  next
    case (Some r)
    then have "r \<in> set (alerts (tables w)) \<and> is_open node_id rule_key r"
      using first_row_SomeD [OF Some] by simp
    then show ?thesis
      using assms(3) [OF same] Some by (simp add: wp_simps)
  qed
qed (rule assms(1))

text \<open>The row a breach opens.\<close>

definition new_alert ::
    "int \<Rightarrow> string \<Rightarrow> string \<Rightarrow> rule_kind \<Rightarrow> severity \<Rightarrow> string \<Rightarrow> pyfloat \<Rightarrow> pyfloat \<Rightarrow> datetime \<Rightarrow> alert_row" where
  "new_alert i node_id rule_key kind sev description v bound fired_at =
     \<lparr>al_id = i, al_node_id = node_id, al_rule_key = rule_key, al_rule_kind = kind,
      al_severity = sev, al_status = FIRING, al_description = description,
      al_triggering_value = v, al_bound = bound, al_first_fired_at = fired_at,
      al_last_fired_at = fired_at, al_resolved_at = None, al_acknowledged_at = None,
      al_acknowledged_by = None, al_escalated_at = None, al_remediated_at = None\<rparr>"

lemma create_alert_rule:
  assumes "\<And>w'. same_data w w' \<Longrightarrow> \<not> no_faults e \<or> node_id \<notin> nd_node_id ` set (nodes (tables w)) \<Longrightarrow>
      E (PersistenceError ''failed to create alert'') w'"
    and "\<And>row w'. row = new_alert (next_id e (stmts w) (map al_id (alerts (tables w))))
             node_id rule_key kind sev description v bound fired_at \<Longrightarrow>
           node_id \<in> nd_node_id ` set (nodes (tables w)) \<Longrightarrow>
           tables w' = (tables w)\<lparr>alerts := alerts (tables w) @ [row]\<rparr> \<Longrightarrow>
           outbox w' = outbox w \<Longrightarrow> Q (alert_to_record row) w'"
  shows "wp (create_alert e node_id rule_key kind sev description v bound fired_at) Q E w"
  unfolding create_alert_def wp_seq wp_ret
  by (rule execute_rule)
    (use assms in \<open>auto simp: Let_def new_alert_def split: if_splits\<close>)

text \<open>The shape the five lifecycle updates share.\<close>

lemma alert_change_rule:
  assumes "\<And>r. al_id (f r) = al_id r"
    and "\<And>x w'. same_data w w' \<Longrightarrow> \<not> no_faults e \<or> row_at al_id alert_id (alerts (tables w)) = None \<Longrightarrow>
      E (PersistenceError x) w'"
    and "\<And>r w'. row_at al_id alert_id (alerts (tables w)) = Some r \<Longrightarrow>
           tables w' = (tables w)\<lparr>alerts := put_row al_id (f r) (alerts (tables w))\<rparr> \<Longrightarrow>
           outbox w' = outbox w \<Longrightarrow> Q (alert_to_record (f r)) w'"
  shows "wp (seq (alert_get_or_raise e alert_id msg) (\<lambda>row. alert_commit_and_return e (f row) msg)) Q E w"
  unfolding alert_get_or_raise_def alert_commit_and_return_def wp_seq
proof (rule query_rule)
  fix w'
  assume same: "same_data w w'"
  show "wp (case row_at al_id alert_id (alerts (tables w)) of
          None \<Rightarrow> raise (PersistenceError (msg @ '': alert not found'')) | Some x \<Rightarrow> ret x)
        (\<lambda>v. wp (execute e msg (\<lambda>n d. if al_id (f v) \<in> al_id ` set (alerts d)
               then Inr ((), d\<lparr>alerts := put_row al_id (f v) (alerts d)\<rparr>) else Inl ()))
              (\<lambda>va. wp (ret (alert_to_record (f v))) Q E) E) E w'"
  proof (rule wp_case_option)
    assume "row_at al_id alert_id (alerts (tables w)) = None"
    then show "wp (raise (PersistenceError (msg @ '': alert not found'')))
        (\<lambda>v. wp (execute e msg (\<lambda>n d. if al_id (f v) \<in> al_id ` set (alerts d)
               then Inr ((), d\<lparr>alerts := put_row al_id (f v) (alerts d)\<rparr>) else Inl ()))
              (\<lambda>va. wp (ret (alert_to_record (f v))) Q E) E) E w'"
      using assms(2) [OF same] by (simp add: wp_simps)
  next
    fix r
    assume r: "row_at al_id alert_id (alerts (tables w)) = Some r"
    show "wp (ret r)
        (\<lambda>v. wp (execute e msg (\<lambda>n d. if al_id (f v) \<in> al_id ` set (alerts d)
               then Inr ((), d\<lparr>alerts := put_row al_id (f v) (alerts d)\<rparr>) else Inl ()))
              (\<lambda>va. wp (ret (alert_to_record (f v))) Q E) E) E w'"
      unfolding wp_ret
      by (rule execute_rule)
        (use assms r same row_at_SomeD [OF r] in \<open>auto simp: same_data_def split: if_splits\<close>)
  qed
qed (use assms(2) in simp)

lemmas update_last_fired_rule =
  alert_change_rule [where f = "\<lambda>r. r\<lparr>al_triggering_value := v, al_last_fired_at := t\<rparr>"
      and msg = "''failed to advance alert''" for v t,
    folded update_last_fired_def, simplified]

lemmas resolve_alert_rule =
  alert_change_rule [where f = "\<lambda>r. r\<lparr>al_status := RESOLVED, al_resolved_at := Some t\<rparr>"
      and msg = "''failed to resolve alert''" for t,
    folded resolve_alert_def, simplified]

lemmas acknowledge_alert_rule =
  alert_change_rule [where f = "\<lambda>r. r\<lparr>al_acknowledged_by := Some b, al_acknowledged_at := Some t\<rparr>"
      and msg = "''failed to acknowledge alert''" for b t,
    folded acknowledge_alert_def, simplified]

lemmas escalate_alert_rule =
  alert_change_rule [where f = "\<lambda>r. r\<lparr>al_escalated_at := Some t\<rparr>"
      and msg = "''failed to escalate alert''" for t,
    folded escalate_alert_def, simplified]

lemmas mark_remediated_rule =
  alert_change_rule [where f = "\<lambda>r. r\<lparr>al_remediated_at := Some t\<rparr>"
      and msg = "''failed to mark alert remediated''" for t,
    folded mark_remediated_def, simplified]

lemma alert_get_rule:
  assumes "\<And>w'. same_data w w' \<Longrightarrow> \<not> no_faults e \<Longrightarrow> E (PersistenceError ''failed to fetch alert'') w'"
    and "\<And>w'. same_data w w' \<Longrightarrow> Q (map_option alert_to_record (row_at al_id alert_id (alerts (tables w)))) w'"
  shows "wp (alert_get e alert_id) Q E w"
  unfolding alert_get_def wp_seq by (rule query_rule) (use assms in \<open>auto simp: wp_simps\<close>)

end
