(* ===== verification/Notifications.thy ===== *)
theory Notifications
  imports Database
begin

text \<open>
  \<open>collector/notifications\<close>: the three messages and their delivery to Telegram, which never
  raises. The text of a message is its UTF-8 encoding; the text of a float is the server's
  parameter \<open>float_repr\<close>. Every message handed to the API is recorded in the outbox,
  delivered or not.
\<close>

definition icon_red_circle :: string where
  "icon_red_circle = [CHR 0xF0, CHR 0x9F, CHR 0x94, CHR 0xB4]"

definition icon_yellow_circle :: string where
  "icon_yellow_circle = [CHR 0xF0, CHR 0x9F, CHR 0x9F, CHR 0xA1]"

definition icon_red_triangle :: string where
  "icon_red_triangle = [CHR 0xF0, CHR 0x9F, CHR 0x94, CHR 0xBA]"

definition icon_check :: string where
  "icon_check = [CHR 0xE2, CHR 0x9C, CHR 0x85]"

definition em_dash :: string where
  "em_dash = [CHR 0xE2, CHR 0x80, CHR 0x94]"

primrec severity_icon :: "severity \<Rightarrow> string" where
  "severity_icon CRITICAL = icon_red_circle"
| "severity_icon WARNING = icon_yellow_circle"

definition format_opened :: "env \<Rightarrow> alert_row \<Rightarrow> string" where
  "format_opened e alert =
     severity_icon (al_severity alert) @ '' ALERT #'' @ show_int (al_id alert) @ '' ['' @
     upper (severity_value (al_severity alert)) @ ''] '' @ al_node_id alert @ '': '' @
     al_description alert @ '' (value='' @ float_repr e (al_triggering_value alert) @
     '', bound='' @ float_repr e (al_bound alert) @ '')''"

definition format_escalated :: "alert_row \<Rightarrow> string" where
  "format_escalated alert =
     icon_red_triangle @ '' ESCALATED ALERT #'' @ show_int (al_id alert) @ '' '' @ em_dash @
     '' still firing and unacknowledged ['' @ upper (severity_value (al_severity alert)) @ ''] '' @
     al_node_id alert @ '': '' @ al_description alert"

definition format_resolved :: "alert_row \<Rightarrow> string" where
  "format_resolved alert =
     icon_check @ '' RESOLVED ALERT #'' @ show_int (al_id alert) @ '' ['' @
     upper (severity_value (al_severity alert)) @ ''] '' @ al_node_id alert @ '': '' @
     al_description alert"

record telegram_notifier =
  tg_bot_token :: string
  tg_chat_id :: string

text \<open>\<open>TelegramNotifier.notify\<close>: one POST, whose failure is a \<open>False\<close>.\<close>

definition telegram_notify :: "env \<Rightarrow> telegram_notifier \<Rightarrow> string \<Rightarrow> (world, exn, bool) comp" where
  "telegram_notify e tg message = (\<lambda>w.
     let w' = w\<lparr>outbox := outbox w @ [(tg_chat_id tg, message)]\<rparr>
     in case telegram e (length (outbox w)) of
          Response status_code body \<Rightarrow> (Inr (\<not> 400 \<le> status_code), w')
        | _ \<Rightarrow> (Inr False, w'))"

text \<open>\<open>_notify\<close> of the services: nothing without a notifier, the result is not looked at.\<close>

definition notify :: "env \<Rightarrow> telegram_notifier option \<Rightarrow> string \<Rightarrow> (world, exn, unit) comp" where
  "notify e notifier message =
     (case notifier of
        None \<Rightarrow> ret ()
      | Some tg \<Rightarrow> seq (telegram_notify e tg message) (\<lambda>_. ret ()))"

text \<open>The messages a call adds to the outbox.\<close>

definition posted :: "telegram_notifier option \<Rightarrow> string \<Rightarrow> (string \<times> string) list" where
  "posted notifier message = (case notifier of None \<Rightarrow> [] | Some tg \<Rightarrow> [(tg_chat_id tg, message)])"

lemma notify_run: "notify e notifier message w = (Inr (), w\<lparr>outbox := outbox w @ posted notifier message\<rparr>)"
  by (auto simp: notify_def posted_def ret_def seq_def telegram_notify_def Let_def
      split: option.splits http_outcome.splits)

lemma wp_notify [wp_simps]:
  "wp (notify e notifier message) Q E w = Q () (w\<lparr>outbox := outbox w @ posted notifier message\<rparr>)"
  by (simp add: wp_def notify_run)

end
