(* ===== verification/Remediation_Repository.thy ===== *)
theory Remediation_Repository
  imports Database
begin

text \<open>
  \<open>collector/repositories/remediation_repository.py\<close>: the Playbook audit log. Creation (under
  the foreign keys on node and alert), the result of an action, the two queries the Safety
  Limits use, the listings and the pruning.
\<close>

definition action_to_record :: "action_row \<Rightarrow> action_row" where
  "action_to_record r =
     r\<lparr>ac_created_at := ensure_utc (ac_created_at r),
       ac_completed_at := map_option ensure_utc (ac_completed_at r)\<rparr>"

definition new_action ::
    "int \<Rightarrow> string \<Rightarrow> int \<Rightarrow> string \<Rightarrow> string \<Rightarrow> action_type \<Rightarrow> dict \<Rightarrow> action_status \<Rightarrow> string option \<Rightarrow>
     datetime \<Rightarrow> action_row" where
  "new_action i node_id alert_id rule_key playbook_name action_type parameters status reason created_at =
     \<lparr>ac_id = i, ac_node_id = node_id, ac_alert_id = alert_id, ac_rule_key = rule_key,
      ac_playbook_name = playbook_name, ac_action_type = action_type,
      ac_parameters = parameters, ac_status = status, ac_reason = reason,
      ac_created_at = created_at, ac_completed_at = None\<rparr>"

definition create_action ::
    "env \<Rightarrow> string \<Rightarrow> int \<Rightarrow> string \<Rightarrow> string \<Rightarrow> action_type \<Rightarrow> dict \<Rightarrow> action_status \<Rightarrow> string option \<Rightarrow>
     datetime \<Rightarrow> (world, exn, action_row) comp" where
  "create_action e node_id alert_id rule_key playbook_name action_type parameters status reason created_at =
     seq (execute e ''failed to create remediation action'' (\<lambda>n d.
            let row = new_action (next_id e n (map ac_id (actions d))) node_id alert_id rule_key
                        playbook_name action_type parameters status reason created_at
            in if node_id \<notin> nd_node_id ` set (nodes d) \<or> alert_id \<notin> al_id ` set (alerts d) then Inl ()
               else Inr (row, d\<lparr>actions := actions d @ [row]\<rparr>)))
       (\<lambda>row. ret (action_to_record row))"

definition action_get_or_raise :: "env \<Rightarrow> int \<Rightarrow> string \<Rightarrow> (world, exn, action_row) comp" where
  "action_get_or_raise e action_id error_message =
     seq (query e error_message (\<lambda>n d. row_at ac_id action_id (actions d))) (\<lambda>row.
     case row of
       None \<Rightarrow> raise (PersistenceError (error_message @ '': action not found''))
     | Some r \<Rightarrow> ret r)"

definition mark_result ::
    "env \<Rightarrow> int \<Rightarrow> action_status \<Rightarrow> string option \<Rightarrow> datetime \<Rightarrow> (world, exn, action_row) comp" where
  "mark_result e action_id status reason completed_at =
     (let msg = ''failed to mark remediation action result'' in
      seq (action_get_or_raise e action_id msg) (\<lambda>r.
      let row = r\<lparr>ac_status := status, ac_reason := reason, ac_completed_at := Some completed_at\<rparr> in
      seq (execute e msg (\<lambda>n d.
             if ac_id row \<in> ac_id ` set (actions d)
             then Inr ((), d\<lparr>actions := put_row ac_id row (actions d)\<rparr>) else Inl ()))
        (\<lambda>_. ret (action_to_record row))))"

definition count_recent_actions :: "env \<Rightarrow> string \<Rightarrow> datetime \<Rightarrow> (world, exn, int) comp" where
  "count_recent_actions e node_id since =
     query e ''failed to count recent remediation actions'' (\<lambda>n d.
       int (length (filter (\<lambda>r. ac_node_id r = node_id \<and> us since \<le> us (ac_created_at r)) (actions d))))"

definition find_last_action :: "env \<Rightarrow> string \<Rightarrow> string \<Rightarrow> (world, exn, action_row option) comp" where
  "find_last_action e node_id playbook_name =
     seq (query e ''failed to look up last remediation action'' (\<lambda>n d.
            first_row (order_desc (us \<circ> ac_created_at)
              (scan e n (filter (\<lambda>r. ac_node_id r = node_id \<and> ac_playbook_name r = playbook_name)
                (actions d))))))
       (\<lambda>row. ret (map_option action_to_record row))"

definition action_get :: "env \<Rightarrow> int \<Rightarrow> (world, exn, action_row option) comp" where
  "action_get e action_id =
     seq (query e ''failed to fetch remediation action'' (\<lambda>n d. row_at ac_id action_id (actions d)))
       (\<lambda>row. ret (map_option action_to_record row))"

definition action_list :: "env \<Rightarrow> string option \<Rightarrow> (world, exn, action_row list) comp" where
  "action_list e node_id =
     seq (query e ''failed to list remediation actions'' (\<lambda>n d.
            scan e n (case node_id of None \<Rightarrow> actions d
                      | Some i \<Rightarrow> filter (\<lambda>r. ac_node_id r = i) (actions d))))
       (\<lambda>rows. ret (map action_to_record rows))"

definition dispatched_before :: "datetime \<Rightarrow> action_row \<Rightarrow> bool" where
  "dispatched_before cutoff r \<longleftrightarrow> ac_status r = DISPATCHED \<and> us (ac_created_at r) < us cutoff"

definition list_dispatched_before :: "env \<Rightarrow> datetime \<Rightarrow> (world, exn, action_row list) comp" where
  "list_dispatched_before e cutoff =
     seq (query e ''failed to list stale dispatched remediation actions'' (\<lambda>n d.
            scan e n (filter (dispatched_before cutoff) (actions d))))
       (\<lambda>rows. ret (map action_to_record rows))"

definition action_prunable :: "datetime \<Rightarrow> action_row \<Rightarrow> bool" where
  "action_prunable cutoff r \<longleftrightarrow> ac_status r \<noteq> DISPATCHED \<and> us (ac_created_at r) < us cutoff"

definition prune_terminal_before :: "env \<Rightarrow> datetime \<Rightarrow> int \<Rightarrow> (world, exn, int) comp" where
  "prune_terminal_before e cutoff batch_size =
     execute e ''failed to prune remediation actions'' (\<lambda>n d.
       case limit_rows batch_size (scan e n (map ac_id (filter (action_prunable cutoff) (actions d)))) of
         Inl _ \<Rightarrow> Inl ()
       | Inr doomed \<Rightarrow>
           Inr (int (length (filter (\<lambda>r. ac_id r \<in> set doomed) (actions d))),
                d\<lparr>actions := delete_rows ac_id doomed (actions d)\<rparr>))"

subsection \<open>What the operations do\<close>

lemma action_to_record_simps [simp]:
  "ac_id (action_to_record r) = ac_id r"
  "ac_node_id (action_to_record r) = ac_node_id r"
  "ac_alert_id (action_to_record r) = ac_alert_id r"
  "ac_rule_key (action_to_record r) = ac_rule_key r"
  "ac_playbook_name (action_to_record r) = ac_playbook_name r"
  "ac_action_type (action_to_record r) = ac_action_type r"
  "ac_parameters (action_to_record r) = ac_parameters r"
  "ac_status (action_to_record r) = ac_status r"
  "ac_reason (action_to_record r) = ac_reason r"
  "ac_created_at (action_to_record r) = ensure_utc (ac_created_at r)"
  "ac_completed_at (action_to_record r) = map_option ensure_utc (ac_completed_at r)"
  by (simp_all add: action_to_record_def)

lemma create_action_rule:
  assumes "\<And>w'. same_data w w' \<Longrightarrow> \<not> no_faults e \<or> node_id \<notin> nd_node_id ` set (nodes (tables w)) \<or>
        alert_id \<notin> al_id ` set (alerts (tables w)) \<Longrightarrow> E (PersistenceError ''failed to create remediation action'') w'"
    and "\<And>row w'. row = new_action (next_id e (stmts w) (map ac_id (actions (tables w))))
             node_id alert_id rule_key playbook_name action_type parameters status reason created_at \<Longrightarrow>
           node_id \<in> nd_node_id ` set (nodes (tables w)) \<Longrightarrow> alert_id \<in> al_id ` set (alerts (tables w)) \<Longrightarrow>
           tables w' = (tables w)\<lparr>actions := actions (tables w) @ [row]\<rparr> \<Longrightarrow>
           outbox w' = outbox w \<Longrightarrow> Q (action_to_record row) w'"
  shows "wp (create_action e node_id alert_id rule_key playbook_name action_type parameters status
               reason created_at) Q E w"
  unfolding create_action_def wp_seq wp_ret
  by (rule execute_rule) (use assms in \<open>auto simp: Let_def split: if_splits\<close>)

lemma mark_result_rule:
  assumes "\<And>x w'. same_data w w' \<Longrightarrow> \<not> no_faults e \<or> row_at ac_id action_id (actions (tables w)) = None \<Longrightarrow>
      E (PersistenceError x) w'"
    and "\<And>r w'. row_at ac_id action_id (actions (tables w)) = Some r \<Longrightarrow>
           tables w' = (tables w)\<lparr>actions := put_row ac_id
             (r\<lparr>ac_status := status, ac_reason := reason, ac_completed_at := Some completed_at\<rparr>)
             (actions (tables w))\<rparr> \<Longrightarrow>
           outbox w' = outbox w \<Longrightarrow>
           Q (action_to_record (r\<lparr>ac_status := status, ac_reason := reason,
                ac_completed_at := Some completed_at\<rparr>)) w'"
  shows "wp (mark_result e action_id status reason completed_at) Q E w"
  unfolding mark_result_def action_get_or_raise_def Let_def wp_seq
proof (rule query_rule)
  let ?f = "\<lambda>r. r\<lparr>ac_status := status, ac_reason := reason, ac_completed_at := Some completed_at\<rparr>"
  fix w'
  assume same: "same_data w w'"
  have commit: "wp (execute e ''failed to mark remediation action result'' (\<lambda>n d.
        if ac_id (?f r) \<in> ac_id ` set (actions d)
        then Inr ((), d\<lparr>actions := put_row ac_id (?f r) (actions d)\<rparr>) else Inl ()))
      (\<lambda>_. Q (action_to_record (?f r))) E w'"
    if r: "row_at ac_id action_id (actions (tables w)) = Some r" for r
    by (rule execute_rule)
      (use assms r same row_at_SomeD [OF r] in \<open>auto simp: same_data_def split: if_splits\<close>)
  show "wp (case row_at ac_id action_id (actions (tables w)) of
        None \<Rightarrow> raise (PersistenceError (''failed to mark remediation action result'' @ '': action not found''))
      | Some x \<Rightarrow> ret x)
    (\<lambda>v. wp (execute e ''failed to mark remediation action result'' (\<lambda>n d.
        if ac_id (?f v) \<in> ac_id ` set (actions d)
        then Inr ((), d\<lparr>actions := put_row ac_id (?f v) (actions d)\<rparr>) else Inl ()))
      (\<lambda>_. wp (ret (action_to_record (?f v))) Q E) E) E w'"
    using commit assms(1) [OF same] unfolding wp_ret by (cases "row_at ac_id action_id (actions (tables w))") (auto simp: wp_simps)
qed (use assms(1) in simp)

lemma count_recent_actions_rule:
  assumes "\<And>x w'. same_data w w' \<Longrightarrow> \<not> no_faults e \<Longrightarrow> E (PersistenceError x) w'"
    and "\<And>w'. same_data w w' \<Longrightarrow>
           Q (int (length (filter (\<lambda>r. ac_node_id r = node_id \<and> us since \<le> us (ac_created_at r))
                (actions (tables w))))) w'"
  shows "wp (count_recent_actions e node_id since) Q E w"
  unfolding count_recent_actions_def by (rule query_rule) (use assms in auto)

lemma find_last_action_rule:
  assumes "\<And>x w'. same_data w w' \<Longrightarrow> \<not> no_faults e \<Longrightarrow> E (PersistenceError x) w'"
    and "\<And>w'. same_data w w' \<Longrightarrow>
           \<forall>r \<in> set (actions (tables w)). \<not> (ac_node_id r = node_id \<and> ac_playbook_name r = playbook_name) \<Longrightarrow>
           Q None w'"
    and "\<And>r w'. same_data w w' \<Longrightarrow> r \<in> set (actions (tables w)) \<Longrightarrow>
           ac_node_id r = node_id \<Longrightarrow> ac_playbook_name r = playbook_name \<Longrightarrow>
           \<forall>x \<in> set (actions (tables w)). ac_node_id x = node_id \<and> ac_playbook_name x = playbook_name \<longrightarrow>
             us (ac_created_at x) \<le> us (ac_created_at r) \<Longrightarrow>
           Q (Some (action_to_record r)) w'"
  shows "wp (find_last_action e node_id playbook_name) Q E w"
  unfolding find_last_action_def wp_seq
proof (rule query_rule)
  fix w'
  assume same: "same_data w w'"
  let ?sel = "filter (\<lambda>r. ac_node_id r = node_id \<and> ac_playbook_name r = playbook_name) (actions (tables w))"
  let ?row = "first_row (order_desc (us \<circ> ac_created_at) (scan e (stmts w) ?sel))"
  show "wp (ret (map_option action_to_record ?row)) Q E w'"
  proof (cases ?row)
    case None
    then have "set ?sel = {}"
      by (metis first_row_None order_desc_eq_Nil set_empty set_scan)
    then show ?thesis
      using assms(2) [OF same] None by (auto simp: wp_simps filter_empty_conv)
  next
    case (Some r)
    have "r \<in> set ?sel"
      using first_row_SomeD [OF Some] by simp
    moreover have "us (ac_created_at x) \<le> us (ac_created_at r)" if "x \<in> set ?sel" for x
      using order_desc_first [OF Some] that by simp
    ultimately show ?thesis
      using assms(3) [OF same] Some by (simp add: wp_simps)
  qed
qed (rule assms(1))

lemma action_get_rule:
  assumes "\<And>w'. same_data w w' \<Longrightarrow> \<not> no_faults e \<Longrightarrow> E (PersistenceError ''failed to fetch remediation action'') w'"
    and "\<And>w'. same_data w w' \<Longrightarrow> Q (map_option action_to_record (row_at ac_id action_id (actions (tables w)))) w'"
  shows "wp (action_get e action_id) Q E w"
  unfolding action_get_def wp_seq by (rule query_rule) (use assms in \<open>auto simp: wp_simps\<close>)

lemma list_dispatched_before_rule:
  assumes "\<And>w'. same_data w w' \<Longrightarrow> \<not> no_faults e \<Longrightarrow> E (PersistenceError ''failed to list stale dispatched remediation actions'') w'"
    and "\<And>rows w'. same_data w w' \<Longrightarrow> mset rows = mset (filter (dispatched_before cutoff) (actions (tables w))) \<Longrightarrow>
           Q (map action_to_record rows) w'"
  shows "wp (list_dispatched_before e cutoff) Q E w"
  unfolding list_dispatched_before_def wp_seq
  by (rule query_rule) (use assms in \<open>auto simp: wp_simps\<close>)

end
