(* ===== verification/Remediation_Engine.thy ===== *)
theory Remediation_Engine
  imports Remediation_Repository
begin

text \<open>
  \<open>collector/remediation\<close>: the Playbook policy with its validation, and the engine that applies
  the Safety Limits before it records a dispatch. The engine calls its repository through an
  interface, the record \<open>action_repository\<close> (the Protocol \<open>RemediationActionRepository\<close>); what
  the engine needs of it are the laws of the locale \<open>action_log\<close>, in which the guarantee of a
  dispatch is proved, and the SQL repository is shown to satisfy them.
\<close>

subsection \<open>Playbooks\<close>

record playbook =
  pb_rule_key :: string
  pb_playbook_name :: string
  pb_action_type :: action_type
  pb_parameters :: dict
  pb_description :: string

definition validate_action_parameters :: "playbook \<Rightarrow> exn + unit" where
  "validate_action_parameters pb =
     (if pb_action_type pb = CLEAR_DIRECTORY \<and> strip (dict_get (pb_parameters pb) ''path'' []) = []
      then Inl ValueErr
      else if pb_action_type pb = RESTART_SERVICE then Inl ValueErr
      else Inr ())"

fun validate_playbooks_from :: "string list \<Rightarrow> playbook list \<Rightarrow> exn + unit" where
  "validate_playbooks_from seen [] = Inr ()"
| "validate_playbooks_from seen (pb # pbs) =
     (if pb_rule_key pb \<in> set seen then Inl ValueErr
      else case validate_action_parameters pb of
             Inl x \<Rightarrow> Inl x
           | Inr _ \<Rightarrow> validate_playbooks_from (pb_rule_key pb # seen) pbs)"

definition validate_playbooks :: "playbook list \<Rightarrow> exn + playbook list" where
  "validate_playbooks pbs =
     (case validate_playbooks_from [] pbs of Inl x \<Rightarrow> Inl x | Inr _ \<Rightarrow> Inr pbs)"

text \<open>\<open>load_remediation_policy\<close>, with the file, the JSON parser and the field validation as parameters.\<close>

definition load_remediation_policy ::
    "(string \<Rightarrow> exn + string) \<Rightarrow> (string \<Rightarrow> 'json option) \<Rightarrow> ('json \<Rightarrow> playbook list option) \<Rightarrow>
     string \<Rightarrow> exn + playbook list" where
  "load_remediation_policy read_text json_loads validate_fields path =
     (case read_text path of
        Inl (OSErr m) \<Rightarrow> Inl (ConfigurationError (''failed to read remediation policy file: '' @ path))
      | Inl x \<Rightarrow> Inl x
      | Inr raw \<Rightarrow>
          (case json_loads raw of
             None \<Rightarrow> Inl (ConfigurationError (''remediation policy file is not valid JSON: '' @ path))
           | Some data \<Rightarrow>
               (case validate_fields data of
                  None \<Rightarrow> Inl (ConfigurationError (''remediation policy file failed validation: '' @ path))
                | Some pbs \<Rightarrow>
                    (case validate_playbooks pbs of
                       Inl _ \<Rightarrow> Inl (ConfigurationError (''remediation policy file failed validation: '' @ path))
                     | Inr pbs' \<Rightarrow> Inr pbs'))))"

lemma validate_playbooks_from_ok:
  "validate_playbooks_from seen pbs = Inr () \<longleftrightarrow>
     distinct (map pb_rule_key pbs) \<and> pb_rule_key ` set pbs \<inter> set seen = {} \<and>
     (\<forall>pb \<in> set pbs. validate_action_parameters pb = Inr ())"
  by (induction pbs arbitrary: seen) (auto split: sum.splits)

lemma validate_playbooks_ok:
  "validate_playbooks pbs = Inr pbs' \<longleftrightarrow>
     pbs' = pbs \<and> distinct (map pb_rule_key pbs) \<and> (\<forall>pb \<in> set pbs. validate_action_parameters pb = Inr ())"
  using validate_playbooks_from_ok [of "[]" pbs]
  by (auto simp: validate_playbooks_def split: sum.splits)

subsection \<open>The engine\<close>

record action_repository =
  rp_create_action :: "string \<Rightarrow> int \<Rightarrow> string \<Rightarrow> string \<Rightarrow> action_type \<Rightarrow> dict \<Rightarrow> action_status \<Rightarrow>
    string option \<Rightarrow> datetime \<Rightarrow> (world, exn, action_row) comp"
  rp_count_recent_actions :: "string \<Rightarrow> datetime \<Rightarrow> (world, exn, int) comp"
  rp_find_last_action :: "string \<Rightarrow> string \<Rightarrow> (world, exn, action_row option) comp"

definition sql_action_repository :: "env \<Rightarrow> action_repository" where
  "sql_action_repository e =
     \<lparr>rp_create_action = create_action e, rp_count_recent_actions = count_recent_actions e,
      rp_find_last_action = find_last_action e\<rparr>"

record remediation_engine =
  en_by_rule_key :: "string \<rightharpoonup> playbook"
  en_enabled :: bool
  en_max_actions_per_node_per_hour :: int
  en_cooldown_seconds :: pyfloat

definition RemediationEngine :: "playbook list \<Rightarrow> bool \<Rightarrow> int \<Rightarrow> pyfloat \<Rightarrow> remediation_engine" where
  "RemediationEngine pbs enabled max_actions cooldown =
     \<lparr>en_by_rule_key = map_of (rev (map (\<lambda>p. (pb_rule_key p, p)) pbs)), en_enabled = enabled,
      en_max_actions_per_node_per_hour = max_actions, en_cooldown_seconds = cooldown\<rparr>"

definition check_cooldown ::
    "action_repository \<Rightarrow> remediation_engine \<Rightarrow> string \<Rightarrow> playbook \<Rightarrow> datetime \<Rightarrow> (world, exn, string option) comp" where
  "check_cooldown repo eng node_id pb now =
     seq (rp_find_last_action repo node_id (pb_playbook_name pb)) (\<lambda>last.
     case last of
       None \<Rightarrow> ret None
     | Some l \<Rightarrow>
         seq (from_result (dt_sub now (ac_created_at l))) (\<lambda>td.
         let elapsed = total_seconds td
         in ret (if flt elapsed (en_cooldown_seconds eng)
                 then Some (''cooldown active: '' @ fmt_0f elapsed @ ''s of '' @
                            fmt_0f (en_cooldown_seconds eng) @ ''s since last action'')
                 else None)))"

definition check_rate_limit ::
    "action_repository \<Rightarrow> remediation_engine \<Rightarrow> string \<Rightarrow> datetime \<Rightarrow> (world, exn, string option) comp" where
  "check_rate_limit repo eng node_id now =
     seq (from_result (dt_minus now one_hour)) (\<lambda>since.
     seq (rp_count_recent_actions repo node_id since) (\<lambda>recent_count.
     ret (if en_max_actions_per_node_per_hour eng \<le> recent_count
          then Some (''rate limit reached: '' @ show_int recent_count @
                     '' actions in the last hour (max '' @
                     show_int (en_max_actions_per_node_per_hour eng) @ '')'')
          else None)))"

definition check_safety_limits ::
    "action_repository \<Rightarrow> remediation_engine \<Rightarrow> string \<Rightarrow> playbook \<Rightarrow> datetime \<Rightarrow> (world, exn, string option) comp" where
  "check_safety_limits repo eng node_id pb now =
     seq (check_cooldown repo eng node_id pb now) (\<lambda>blocked.
     case blocked of
       Some reason \<Rightarrow> ret (Some reason)
     | None \<Rightarrow> check_rate_limit repo eng node_id now)"

definition decide ::
    "action_repository \<Rightarrow> remediation_engine \<Rightarrow> string \<Rightarrow> int \<Rightarrow> string \<Rightarrow> datetime \<Rightarrow>
     (world, exn, action_row option) comp" where
  "decide repo eng node_id alert_id rule_key now =
     (if \<not> en_enabled eng then ret None
      else case en_by_rule_key eng rule_key of
             None \<Rightarrow> ret None
           | Some pb \<Rightarrow>
               seq (check_safety_limits repo eng node_id pb now) (\<lambda>blocked_reason.
               let status = (if blocked_reason \<noteq> None then BLOCKED_BY_SAFETY_LIMIT else DISPATCHED)
               in seq (rp_create_action repo node_id alert_id rule_key (pb_playbook_name pb)
                         (pb_action_type pb) (pb_parameters pb) status blocked_reason now)
                    (\<lambda>record. ret (Some record))))"

subsection \<open>What a dispatch needs\<close>

text \<open>
  The Safety Limits, as a predicate on the audit log: every earlier action of the same node and
  Playbook is at least a cooldown old (a limit that is NaN blocks nothing), and fewer than the
  maximum of this node's actions lie in the hour before.
\<close>

definition cooldown_clear :: "remediation_engine \<Rightarrow> string \<Rightarrow> string \<Rightarrow> datetime \<Rightarrow> action_row list \<Rightarrow> bool" where
  "cooldown_clear eng node_id name now rows \<longleftrightarrow>
     (\<forall>r \<in> set rows. ac_node_id r = node_id \<and> ac_playbook_name r = name \<longrightarrow>
        \<not> flt (total_seconds (us now - us (ac_created_at r))) (en_cooldown_seconds eng))"

definition hour_clear :: "remediation_engine \<Rightarrow> string \<Rightarrow> datetime \<Rightarrow> action_row list \<Rightarrow> bool" where
  "hour_clear eng node_id now rows \<longleftrightarrow>
     int (length (filter (\<lambda>r. ac_node_id r = node_id \<and> us now - one_hour \<le> us (ac_created_at r)) rows))
       < en_max_actions_per_node_per_hour eng"

definition safe_to_dispatch ::
    "remediation_engine \<Rightarrow> string \<Rightarrow> string \<Rightarrow> datetime \<Rightarrow> action_row list \<Rightarrow> bool" where
  "safe_to_dispatch eng node_id name now rows \<longleftrightarrow>
     cooldown_clear eng node_id name now rows \<and> hour_clear eng node_id now rows"

text \<open>A time at which the limits can be computed: aware, with an hour before it.\<close>

definition ready :: "datetime \<Rightarrow> bool" where
  "ready now \<longleftrightarrow> aware now \<and> one_hour \<le> us now \<and> us now < max_us"

locale action_log =
  fixes e :: env and repo :: action_repository
  assumes create_law:
    "(\<And>x w'. same_data w w' \<Longrightarrow> \<not> no_faults e \<or> node_id \<notin> nd_node_id ` set (nodes (tables w)) \<or>
        alert_id \<notin> al_id ` set (alerts (tables w)) \<Longrightarrow> E x w') \<Longrightarrow>
     (\<And>i w'. i \<notin> ac_id ` set (actions (tables w)) \<Longrightarrow>
        node_id \<in> nd_node_id ` set (nodes (tables w)) \<Longrightarrow> alert_id \<in> al_id ` set (alerts (tables w)) \<Longrightarrow>
        tables w' = (tables w)\<lparr>actions := actions (tables w) @
          [new_action i node_id alert_id rule_key name atype params status reason now]\<rparr> \<Longrightarrow>
        outbox w' = outbox w \<Longrightarrow>
        Q (action_to_record (new_action i node_id alert_id rule_key name atype params status reason now)) w') \<Longrightarrow>
     wp (rp_create_action repo node_id alert_id rule_key name atype params status reason now) Q E w"
    and count_law:
    "(\<And>x w'. same_data w w' \<Longrightarrow> \<not> no_faults e \<Longrightarrow> E x w') \<Longrightarrow>
     (\<And>w'. same_data w w' \<Longrightarrow>
        Qn (int (length (filter (\<lambda>r. ac_node_id r = node_id \<and> us since \<le> us (ac_created_at r))
             (actions (tables w))))) w') \<Longrightarrow>
     wp (rp_count_recent_actions repo node_id since) Qn E w"
    and last_law:
    "(\<And>x w'. same_data w w' \<Longrightarrow> \<not> no_faults e \<Longrightarrow> E x w') \<Longrightarrow>
     (\<And>w'. same_data w w' \<Longrightarrow>
        \<forall>r \<in> set (actions (tables w)). \<not> (ac_node_id r = node_id \<and> ac_playbook_name r = name) \<Longrightarrow>
        Ql None w') \<Longrightarrow>
     (\<And>r w'. same_data w w' \<Longrightarrow> r \<in> set (actions (tables w)) \<Longrightarrow>
        ac_node_id r = node_id \<Longrightarrow> ac_playbook_name r = name \<Longrightarrow>
        \<forall>x \<in> set (actions (tables w)). ac_node_id x = node_id \<and> ac_playbook_name x = name \<longrightarrow>
          us (ac_created_at x) \<le> us (ac_created_at r) \<Longrightarrow>
        Ql (Some (action_to_record r)) w') \<Longrightarrow>
     wp (rp_find_last_action repo node_id name) Ql E w"
begin

text \<open>
  The cooldown check: without a reason every earlier action of the pair is old enough, because
  the latest one is and elapsed times are monotone.
\<close>

lemma check_cooldown_rule:
  assumes "\<And>x w'. same_data w w' \<Longrightarrow> \<not> no_faults e \<or> \<not> ready now \<Longrightarrow> E x w'"
    and "\<And>v w'. same_data w w' \<Longrightarrow>
           (v = None \<Longrightarrow> cooldown_clear eng node_id (pb_playbook_name pb) now (actions (tables w))) \<Longrightarrow>
           (v \<noteq> None \<Longrightarrow> \<not> cooldown_clear eng node_id (pb_playbook_name pb) now (actions (tables w))) \<Longrightarrow> Q v w'"
  shows "wp (check_cooldown repo eng node_id pb now) Q E w"
  unfolding check_cooldown_def wp_seq
proof (rule last_law)
  fix w'
  assume same: "same_data w w'"
    and none: "\<forall>r \<in> set (actions (tables w)). \<not> (ac_node_id r = node_id \<and> ac_playbook_name r = pb_playbook_name pb)"
  show "wp (case None of None \<Rightarrow> ret None | Some l \<Rightarrow>
      seq (from_result (dt_sub now (ac_created_at l))) (\<lambda>td. let elapsed = total_seconds td in
        ret (if flt elapsed (en_cooldown_seconds eng) then Some (''cooldown active: '' @ fmt_0f elapsed @
          ''s of '' @ fmt_0f (en_cooldown_seconds eng) @ ''s since last action'') else None))) Q E w'"
    using none by (auto simp: wp_simps cooldown_clear_def intro!: assms(2) [OF same])
next
  fix r w'
  assume same: "same_data w w'" and r: "r \<in> set (actions (tables w))" "ac_node_id r = node_id"
      "ac_playbook_name r = pb_playbook_name pb"
    and latest: "\<forall>x \<in> set (actions (tables w)). ac_node_id x = node_id \<and> ac_playbook_name x = pb_playbook_name pb \<longrightarrow>
      us (ac_created_at x) \<le> us (ac_created_at r)"
  let ?el = "total_seconds (us now - us (ac_created_at r))"
  have mono: "fle ?el (total_seconds (us now - us (ac_created_at x)))"
    if "x \<in> set (actions (tables w))" "ac_node_id x = node_id" "ac_playbook_name x = pb_playbook_name pb" for x
    using that latest by (intro total_seconds_mono) auto
  have clear: "cooldown_clear eng node_id (pb_playbook_name pb) now (actions (tables w)) \<longleftrightarrow>
      \<not> flt ?el (en_cooldown_seconds eng)"
    unfolding cooldown_clear_def using r mono by (blast intro: fle_flt_trans)
  show "wp (case Some (action_to_record r) of None \<Rightarrow> ret None | Some l \<Rightarrow>
      seq (from_result (dt_sub now (ac_created_at l))) (\<lambda>td. let elapsed = total_seconds td in
        ret (if flt elapsed (en_cooldown_seconds eng) then Some (''cooldown active: '' @ fmt_0f elapsed @
          ''s of '' @ fmt_0f (en_cooldown_seconds eng) @ ''s since last action'') else None))) Q E w'"
    using clear by (auto simp: ready_def wp_simps dt_sub_def Let_def intro!: assms same)
qed (use assms(1) in blast)

lemma check_rate_limit_rule:
  assumes "\<And>x w'. same_data w w' \<Longrightarrow> \<not> no_faults e \<or> \<not> ready now \<Longrightarrow> E x w'"
    and "\<And>v w'. same_data w w' \<Longrightarrow> (v = None \<longleftrightarrow> hour_clear eng node_id now (actions (tables w))) \<Longrightarrow> Q v w'"
  shows "wp (check_rate_limit repo eng node_id now) Q E w"
  unfolding check_rate_limit_def wp_seq wp_from_result
  using assms(1) by (auto simp: dt_minus_def wp_simps hour_clear_def ready_def one_hour_def split: sum.splits if_splits
      intro!: count_law assms(2))

lemma check_safety_limits_rule:
  assumes "\<And>x w'. same_data w w' \<Longrightarrow> \<not> no_faults e \<or> \<not> ready now \<Longrightarrow> E x w'"
    and "\<And>v w'. same_data w w' \<Longrightarrow>
           (v = None \<longleftrightarrow> safe_to_dispatch eng node_id (pb_playbook_name pb) now (actions (tables w))) \<Longrightarrow> Q v w'"
  shows "wp (check_safety_limits repo eng node_id pb now) Q E w"
  unfolding check_safety_limits_def wp_seq
proof (rule check_cooldown_rule)
  fix v :: "string option" and w'
  assume same: "same_data w w'"
    and v: "v = None \<Longrightarrow> cooldown_clear eng node_id (pb_playbook_name pb) now (actions (tables w))"
      "v \<noteq> None \<Longrightarrow> \<not> cooldown_clear eng node_id (pb_playbook_name pb) now (actions (tables w))"
  have tab: "tables w' = tables w"
    using same by (simp add: same_data_def)
  show "wp (case v of None \<Rightarrow> check_rate_limit repo eng node_id now | Some reason \<Rightarrow> ret (Some reason)) Q E w'"
  proof (cases v)
    case None
    have "wp (check_rate_limit repo eng node_id now) Q E w'"
      by (rule check_rate_limit_rule)
        (use None v tab same_data_trans [OF same] in \<open>auto simp: safe_to_dispatch_def intro!: assms\<close>)
    then show ?thesis
      using None by simp
  next
    case (Some reason)
    then show ?thesis
      using v by (auto simp: wp_simps safe_to_dispatch_def intro!: assms(2) [OF same])
  qed
qed (use assms(1) in blast)

text \<open>
  The decision: nothing at all when remediation is off or no Playbook is mapped; otherwise one
  new audit row, dispatched exactly when the limits allow it.
\<close>

lemma decide_rule:
  assumes "\<And>x w'. same_data w w' \<Longrightarrow> \<not> no_faults e \<or> \<not> ready now \<or>
        node_id \<notin> nd_node_id ` set (nodes (tables w)) \<or> alert_id \<notin> al_id ` set (alerts (tables w)) \<Longrightarrow> E x w'"
    and "\<And>w'. same_data w w' \<Longrightarrow> \<not> en_enabled eng \<or> en_by_rule_key eng rule_key = None \<Longrightarrow> Q None w'"
    and "\<And>pb i reason status row w'. en_enabled eng \<Longrightarrow> en_by_rule_key eng rule_key = Some pb \<Longrightarrow>
           i \<notin> ac_id ` set (actions (tables w)) \<Longrightarrow>
           reason = None \<longleftrightarrow> safe_to_dispatch eng node_id (pb_playbook_name pb) now (actions (tables w)) \<Longrightarrow>
           status = (if reason = None then DISPATCHED else BLOCKED_BY_SAFETY_LIMIT) \<Longrightarrow>
           row = new_action i node_id alert_id rule_key (pb_playbook_name pb)
               (pb_action_type pb) (pb_parameters pb) status reason now \<Longrightarrow>
           node_id \<in> nd_node_id ` set (nodes (tables w)) \<Longrightarrow> alert_id \<in> al_id ` set (alerts (tables w)) \<Longrightarrow>
           tables w' = (tables w)\<lparr>actions := actions (tables w) @ [row]\<rparr> \<Longrightarrow>
           outbox w' = outbox w \<Longrightarrow> Q (Some (action_to_record row)) w'"
  shows "wp (decide repo eng node_id alert_id rule_key now) Q E w"
proof (cases "en_enabled eng")
  case True
  show ?thesis
  proof (cases "en_by_rule_key eng rule_key")
    case None
    then show ?thesis
      using True assms(2) by (simp add: decide_def wp_simps)
  next
    case (Some pb)
    have "wp (check_safety_limits repo eng node_id pb now)
       (\<lambda>v. wp (rp_create_action repo node_id alert_id rule_key (pb_playbook_name pb) (pb_action_type pb)
             (pb_parameters pb) (if v \<noteq> None then BLOCKED_BY_SAFETY_LIMIT else DISPATCHED) v now)
           (\<lambda>record. Q (Some record)) E) E w"
    proof (rule check_safety_limits_rule)
      fix v :: "string option" and w'
      assume same: "same_data w w'"
        and v: "v = None \<longleftrightarrow> safe_to_dispatch eng node_id (pb_playbook_name pb) now (actions (tables w))"
      then show "wp (rp_create_action repo node_id alert_id rule_key (pb_playbook_name pb) (pb_action_type pb)
             (pb_parameters pb) (if v \<noteq> None then BLOCKED_BY_SAFETY_LIMIT else DISPATCHED) v now)
           (\<lambda>record. Q (Some record)) E w'"
        using True Some
        by (intro create_law) (auto simp: same_data_def intro!: assms(1) assms(3) [of pb _ v])
    qed (use assms(1) in blast)
    then show ?thesis
      using True Some by (simp add: decide_def wp_simps Let_def cong: if_cong)
  qed
next
  case False
  then show ?thesis
    using assms(2) by (simp add: decide_def wp_simps)
qed

end

text \<open>The SQL repository satisfies the laws, whatever the server does.\<close>

interpretation sql_log: action_log e "sql_action_repository e" for e
proof unfold_locales
qed (auto simp: sql_action_repository_def intro!: create_action_rule count_recent_actions_rule find_last_action_rule)

end
