(* ===== verification/Metrics_Repository.thy ===== *)
theory Metrics_Repository
  imports Database
begin

text \<open>
  \<open>collector/repositories/metrics_repository.py\<close>: the metric samples. The bulk insert is one
  transaction and subject to the foreign key on the node; \<open>find_previous_sample\<close> returns the
  latest sample of a half-open window; the pruning deletes one bounded batch.
\<close>

definition sample_to_record :: "sample_row \<Rightarrow> sample_row" where
  "sample_to_record r = r\<lparr>sm_collected_at := ensure_utc (sm_collected_at r),
                          sm_received_at := ensure_utc (sm_received_at r)\<rparr>"

definition sample_rows :: "int \<Rightarrow> string \<Rightarrow> metric_sample list \<Rightarrow> datetime \<Rightarrow> datetime \<Rightarrow> sample_row list" where
  "sample_rows k node_id ss collected_at received_at =
     map (\<lambda>(i, s). \<lparr>sm_id = k + int i, sm_node_id = node_id, sm_metric_type = ms_metric_type s,
                    sm_value = ms_value s, sm_unit = ms_unit s, sm_labels = ms_labels s,
                    sm_collected_at = collected_at, sm_received_at = received_at\<rparr>)
         (enumerate 0 ss)"

definition bulk_insert ::
    "env \<Rightarrow> string \<Rightarrow> metric_sample list \<Rightarrow> datetime \<Rightarrow> datetime \<Rightarrow> (world, exn, unit) comp" where
  "bulk_insert e node_id ss collected_at received_at =
     execute e ''failed to persist metric samples'' (\<lambda>n d.
       if ss \<noteq> [] \<and> node_id \<notin> nd_node_id ` set (nodes d) then Inl ()
       else Inr ((), d\<lparr>samples := samples d @
              sample_rows (next_id e n (map sm_id (samples d))) node_id ss collected_at received_at\<rparr>))"

text \<open>The \<open>WHERE\<close> clause of \<open>find_previous_sample\<close>.\<close>

definition in_window :: "string \<Rightarrow> metric_type \<Rightarrow> datetime \<Rightarrow> datetime \<Rightarrow> sample_row \<Rightarrow> bool" where
  "in_window node_id mt since before r \<longleftrightarrow>
     sm_node_id r = node_id \<and> sm_metric_type r = mt \<and>
     us (sm_collected_at r) < us before \<and> us since \<le> us (sm_collected_at r)"

definition find_previous_sample ::
    "env \<Rightarrow> string \<Rightarrow> metric_type \<Rightarrow> datetime \<Rightarrow> pyfloat \<Rightarrow> (world, exn, sample_row option) comp" where
  "find_previous_sample e node_id mt before window_seconds =
     seq (from_result (timedelta_seconds window_seconds)) (\<lambda>td.
     seq (from_result (dt_minus before td)) (\<lambda>since.
     seq (query e ''failed to query previous metric sample'' (\<lambda>n d.
            first_row (order_desc (us \<circ> sm_collected_at)
              (scan e n (filter (in_window node_id mt since before) (samples d))))))
       (\<lambda>row. ret (map_option sample_to_record row))))"

definition prune_samples_before :: "env \<Rightarrow> datetime \<Rightarrow> int \<Rightarrow> (world, exn, int) comp" where
  "prune_samples_before e cutoff batch_size =
     execute e ''failed to prune metric samples'' (\<lambda>n d.
       case limit_rows batch_size (scan e n (map sm_id
              (filter (\<lambda>r. us (sm_received_at r) < us cutoff) (samples d)))) of
         Inl _ \<Rightarrow> Inl ()
       | Inr doomed \<Rightarrow>
           Inr (int (length (filter (\<lambda>r. sm_id r \<in> set doomed) (samples d))),
                d\<lparr>samples := delete_rows sm_id doomed (samples d)\<rparr>))"

subsection \<open>What the operations do\<close>

lemma sample_rows_simps [simp]:
  "length (sample_rows k i ss c r) = length ss"
  "sm_node_id ` set (sample_rows k i ss c r) \<subseteq> {i}"
  by (auto simp: sample_rows_def)

lemma map_sm_id_sample_rows: "map sm_id (sample_rows k i ss c r) = map (\<lambda>j. k + int j) [0..<length ss]"
proof (rule nth_equalityI)
  fix j
  assume "j < length (map sm_id (sample_rows k i ss c r))"
  then show "map sm_id (sample_rows k i ss c r) ! j = map (\<lambda>j. k + int j) [0..<length ss] ! j"
    by (simp add: sample_rows_def nth_enumerate_eq split: prod.splits)
qed simp

lemma distinct_append_sample_rows:
  assumes "distinct (map sm_id rows)"
  shows "distinct (map sm_id (rows @ sample_rows (next_id e n (map sm_id rows)) i ss c r))"
proof -
  have "x < next_id e n (map sm_id rows) + int j" if "x \<in> sm_id ` set rows" for x j
    using next_id_gt [of x "map sm_id rows" e n] that by simp
  then have "sm_id ` set rows \<inter> set (map (\<lambda>j. next_id e n (map sm_id rows) + int j) [0..<length ss]) = {}"
    by fastforce
  moreover have "distinct (map (\<lambda>j. next_id e n (map sm_id rows) + int j) [0..<length ss])"
    by (simp add: distinct_map inj_on_def)
  ultimately show ?thesis
    using assms by (simp add: map_sm_id_sample_rows)
qed

lemma bulk_insert_rule:
  assumes "\<And>w'. same_data w w' \<Longrightarrow> \<not> no_faults e \<or> (ss \<noteq> [] \<and> node_id \<notin> nd_node_id ` set (nodes (tables w))) \<Longrightarrow>
      E (PersistenceError ''failed to persist metric samples'') w'"
    and "\<And>w'. ss = [] \<or> node_id \<in> nd_node_id ` set (nodes (tables w)) \<Longrightarrow>
           tables w' = (tables w)\<lparr>samples := samples (tables w) @
              sample_rows (next_id e (stmts w) (map sm_id (samples (tables w)))) node_id ss collected_at received_at\<rparr> \<Longrightarrow>
           outbox w' = outbox w \<Longrightarrow> Q () w'"
  shows "wp (bulk_insert e node_id ss collected_at received_at) Q E w"
  unfolding bulk_insert_def
  by (rule execute_rule) (use assms in \<open>auto split: if_splits\<close>)

lemma find_previous_sample_rule:
  assumes "\<And>x w'. same_data w w' \<Longrightarrow> E x w'"
    and "\<And>td since w'. timedelta_seconds window_seconds = Inr td \<Longrightarrow> dt_minus before td = Inr since \<Longrightarrow>
           same_data w w' \<Longrightarrow> filter (in_window node_id mt since before) (samples (tables w)) = [] \<Longrightarrow> Q None w'"
    and "\<And>td since r w'. timedelta_seconds window_seconds = Inr td \<Longrightarrow> dt_minus before td = Inr since \<Longrightarrow>
           same_data w w' \<Longrightarrow> r \<in> set (samples (tables w)) \<Longrightarrow> in_window node_id mt since before r \<Longrightarrow>
           \<forall>x \<in> set (samples (tables w)). in_window node_id mt since before x \<longrightarrow>
             us (sm_collected_at x) \<le> us (sm_collected_at r) \<Longrightarrow>
           Q (Some (sample_to_record r)) w'"
  shows "wp (find_previous_sample e node_id mt before window_seconds) Q E w"
proof -
  have latest: "r \<in> set (samples (tables w)) \<and> in_window node_id mt since before r \<and>
      (\<forall>x \<in> set (samples (tables w)). in_window node_id mt since before x \<longrightarrow>
        us (sm_collected_at x) \<le> us (sm_collected_at r))"
    if "first_row (order_desc (us \<circ> sm_collected_at)
          (scan e n (filter (in_window node_id mt since before) (samples (tables w))))) = Some r"
    for n since r
    using first_row_SomeD [OF that] order_desc_first [OF that] by auto
  have "Q (map_option sample_to_record (first_row (order_desc (us \<circ> sm_collected_at)
          (scan e (stmts w) (filter (in_window node_id mt since before) (samples (tables w))))))) w'"
    if "timedelta_seconds window_seconds = Inr td" "dt_minus before td = Inr since" "same_data w w'"
    for td since w'
  proof (cases "first_row (order_desc (us \<circ> sm_collected_at)
          (scan e (stmts w) (filter (in_window node_id mt since before) (samples (tables w)))))")
    case None
    then have "set (filter (in_window node_id mt since before) (samples (tables w))) = {}"
      by (metis first_row_None order_desc_eq_Nil set_empty set_scan)
    then show ?thesis
      using None assms(2) [OF that] by simp
  next
    case (Some r)
    then show ?thesis
      using latest [OF Some] assms(3) [OF that] by simp
  qed
  then show ?thesis
    unfolding find_previous_sample_def wp_seq wp_from_result
    using assms(1) by (auto split: sum.splits intro!: query_rule simp: wp_simps)
qed

end
