(* ===== verification/Rules.thy ===== *)
theory Rules
  imports Metrics_Repository
begin

text \<open>
  \<open>collector/rules\<close>: the configured Threshold and Rate-of-change rules, the validation of a
  rules file, and the engine that evaluates one payload's samples. The lemmas characterise
  which rules a payload triggers, the value each result carries, and the namespace of the rule
  keys: a key names one kind and one metric type, and none is in the reserved \<open>staleness:\<close>
  namespace.
\<close>

subsection \<open>Rule definitions\<close>

datatype comparison_operator = GREATER_THAN | GREATER_THAN_OR_EQUAL | LESS_THAN | LESS_THAN_OR_EQUAL

primrec evaluate_comparison :: "comparison_operator \<Rightarrow> pyfloat \<Rightarrow> pyfloat \<Rightarrow> bool" where
  "evaluate_comparison GREATER_THAN value bound = flt bound value"
| "evaluate_comparison GREATER_THAN_OR_EQUAL value bound = fle bound value"
| "evaluate_comparison LESS_THAN value bound = flt value bound"
| "evaluate_comparison LESS_THAN_OR_EQUAL value bound = fle value bound"

record threshold_rule =
  tr_metric_type :: metric_type
  tr_comparison :: comparison_operator
  tr_threshold :: pyfloat
  tr_severity :: severity
  tr_description :: string

record rate_rule =
  rt_metric_type :: metric_type
  rt_comparison :: comparison_operator
  rt_max_delta :: pyfloat
  rt_window_seconds :: pyfloat
  rt_severity :: severity
  rt_description :: string

record rules_config =
  rc_threshold_rules :: "threshold_rule list"
  rc_rate_of_change_rules :: "rate_rule list"

text \<open>\<open>_assert_unique_metric_types\<close>: a loop over the rules with the set of types seen so far.\<close>

fun assert_unique_from :: "metric_type list \<Rightarrow> metric_type list \<Rightarrow> exn + unit" where
  "assert_unique_from seen [] = Inr ()"
| "assert_unique_from seen (mt # mts) =
     (if mt \<in> set seen then Inl ValueErr else assert_unique_from (mt # seen) mts)"

definition assert_unique_metric_types :: "metric_type list \<Rightarrow> exn + unit" where
  "assert_unique_metric_types mts = assert_unique_from [] mts"

definition no_duplicate_metric_types_per_kind :: "rules_config \<Rightarrow> exn + rules_config" where
  "no_duplicate_metric_types_per_kind cfg =
     (case assert_unique_metric_types (map tr_metric_type (rc_threshold_rules cfg)) of
        Inl x \<Rightarrow> Inl x
      | Inr _ \<Rightarrow>
          (case assert_unique_metric_types (map rt_metric_type (rc_rate_of_change_rules cfg)) of
             Inl x \<Rightarrow> Inl x
           | Inr _ \<Rightarrow> Inr cfg))"

text \<open>
  \<open>load_rules_config\<close>. Reading the file, the JSON parser and the field validation of the schema
  are parameters; a validator's \<open>ValueError\<close> becomes a validation error.
\<close>

definition load_rules_config ::
    "(string \<Rightarrow> exn + string) \<Rightarrow> (string \<Rightarrow> 'json option) \<Rightarrow> ('json \<Rightarrow> rules_config option) \<Rightarrow>
     string \<Rightarrow> exn + rules_config" where
  "load_rules_config read_text json_loads validate_fields path =
     (case read_text path of
        Inl (OSErr m) \<Rightarrow> Inl (ConfigurationError (''failed to read rules config file: '' @ path))
      | Inl x \<Rightarrow> Inl x
      | Inr raw \<Rightarrow>
          (case json_loads raw of
             None \<Rightarrow> Inl (ConfigurationError (''rules config file is not valid JSON: '' @ path))
           | Some data \<Rightarrow>
               (case validate_fields data of
                  None \<Rightarrow> Inl (ConfigurationError (''rules config file failed validation: '' @ path))
                | Some cfg \<Rightarrow>
                    (case no_duplicate_metric_types_per_kind cfg of
                       Inl _ \<Rightarrow> Inl (ConfigurationError (''rules config file failed validation: '' @ path))
                     | Inr cfg' \<Rightarrow> Inr cfg'))))"

subsection \<open>The engine\<close>

record rule_result =
  rr_rule_key :: string
  rr_rule_kind :: rule_kind
  rr_severity :: severity
  rr_description :: string
  rr_breached :: bool
  rr_value :: pyfloat
  rr_bound :: pyfloat

record rule_engine =
  re_threshold_rules :: "metric_type \<rightharpoonup> threshold_rule"
  re_rate_of_change_rules :: "metric_type \<rightharpoonup> rate_rule"

text \<open>The constructor's dict comprehensions: a later rule of the same type would win.\<close>

definition RuleEngine :: "rules_config \<Rightarrow> rule_engine" where
  "RuleEngine cfg =
     \<lparr>re_threshold_rules = map_of (rev (map (\<lambda>r. (tr_metric_type r, r)) (rc_threshold_rules cfg))),
      re_rate_of_change_rules = map_of (rev (map (\<lambda>r. (rt_metric_type r, r)) (rc_rate_of_change_rules cfg)))\<rparr>"

definition rule_key_of :: "rule_kind \<Rightarrow> metric_type \<Rightarrow> string" where
  "rule_key_of kind mt = rule_kind_value kind @ '':'' @ metric_type_value mt"

definition evaluate_threshold :: "threshold_rule \<Rightarrow> metric_sample \<Rightarrow> rule_result" where
  "evaluate_threshold rule sample =
     \<lparr>rr_rule_key = rule_key_of THRESHOLD (tr_metric_type rule), rr_rule_kind = THRESHOLD,
      rr_severity = tr_severity rule, rr_description = tr_description rule,
      rr_breached = evaluate_comparison (tr_comparison rule) (ms_value sample) (tr_threshold rule),
      rr_value = ms_value sample, rr_bound = tr_threshold rule\<rparr>"

definition rate_result :: "rate_rule \<Rightarrow> pyfloat \<Rightarrow> rule_result" where
  "rate_result rule delta =
     \<lparr>rr_rule_key = rule_key_of RATE_OF_CHANGE (rt_metric_type rule), rr_rule_kind = RATE_OF_CHANGE,
      rr_severity = rt_severity rule, rr_description = rt_description rule,
      rr_breached = evaluate_comparison (rt_comparison rule) delta (rt_max_delta rule),
      rr_value = delta, rr_bound = rt_max_delta rule\<rparr>"

definition evaluate_rate_of_change ::
    "env \<Rightarrow> string \<Rightarrow> rate_rule \<Rightarrow> metric_sample \<Rightarrow> datetime \<Rightarrow> (world, exn, rule_result option) comp" where
  "evaluate_rate_of_change e node_id rule sample collected_at =
     seq (find_previous_sample e node_id (ms_metric_type sample) collected_at (rt_window_seconds rule))
       (\<lambda>previous. ret (case previous of
                          None \<Rightarrow> None
                        | Some p \<Rightarrow> Some (rate_result rule (fsub (ms_value sample) (sm_value p)))))"

definition evaluate_sample ::
    "env \<Rightarrow> rule_engine \<Rightarrow> string \<Rightarrow> datetime \<Rightarrow> metric_sample \<Rightarrow> (world, exn, rule_result list) comp" where
  "evaluate_sample e eng node_id collected_at sample =
     (let threshold = (case re_threshold_rules eng (ms_metric_type sample) of
                         None \<Rightarrow> [] | Some rule \<Rightarrow> [evaluate_threshold rule sample])
      in case re_rate_of_change_rules eng (ms_metric_type sample) of
           None \<Rightarrow> ret threshold
         | Some rule \<Rightarrow>
             seq (evaluate_rate_of_change e node_id rule sample collected_at)
               (\<lambda>r. ret (threshold @ (case r of None \<Rightarrow> [] | Some x \<Rightarrow> [x]))))"

definition evaluate ::
    "env \<Rightarrow> rule_engine \<Rightarrow> string \<Rightarrow> metric_sample list \<Rightarrow> datetime \<Rightarrow> (world, exn, rule_result list) comp" where
  "evaluate e eng node_id ss collected_at =
     seq (for_each (evaluate_sample e eng node_id collected_at) ss) (\<lambda>rss. ret (concat rss))"

subsection \<open>Validation\<close>

lemma assert_unique_from_ok:
  "assert_unique_from seen mts = Inr () \<longleftrightarrow> distinct mts \<and> set mts \<inter> set seen = {}"
  by (induction mts arbitrary: seen) auto

lemma no_duplicate_ok:
  "no_duplicate_metric_types_per_kind cfg = Inr cfg' \<longleftrightarrow>
     cfg' = cfg \<and> distinct (map tr_metric_type (rc_threshold_rules cfg)) \<and>
     distinct (map rt_metric_type (rc_rate_of_change_rules cfg))"
proof -
  have "assert_unique_metric_types mts = Inr u \<longleftrightarrow> distinct mts" for mts and u :: unit
    by (simp add: assert_unique_metric_types_def assert_unique_from_ok)
  then show ?thesis
    by (auto simp: no_duplicate_metric_types_per_kind_def split: sum.splits)
      (metis sum.distinct(1))+
qed

text \<open>Under the validated configuration the engine's dictionaries are the rules themselves.\<close>

lemma map_of_rev_key:
  "distinct (map f xs) \<Longrightarrow> map_of (rev (map (\<lambda>r. (f r, r)) xs)) k = Some r \<longleftrightarrow> r \<in> set xs \<and> f r = k"
proof -
  assume d: "distinct (map f xs)"
  have "distinct (map fst (rev (map (\<lambda>r. (f r, r)) xs)))"
    using d by (simp add: rev_map [symmetric] comp_def)
  then have "map_of (rev (map (\<lambda>r. (f r, r)) xs)) k = Some r \<longleftrightarrow> (k, r) \<in> set (rev (map (\<lambda>r. (f r, r)) xs))"
    by (rule map_of_eq_Some_iff)
  then show ?thesis
    by auto
qed

subsection \<open>Rule keys\<close>

lemma rule_key_prefix: "takeWhile (\<lambda>c. c \<noteq> CHR '':'') (rule_key_of kind mt) = rule_kind_value kind"
  by (cases kind) (auto simp: rule_key_of_def)

lemma rule_key_of_inj: "rule_key_of k mt = rule_key_of k' mt' \<longleftrightarrow> k = k' \<and> mt = mt'"
proof
  assume eq: "rule_key_of k mt = rule_key_of k' mt'"
  then have "k = k'"
    using rule_key_prefix [of k mt] rule_key_prefix [of k' mt'] by (simp add: rule_kind_value_inj)
  then show "k = k' \<and> mt = mt'"
    using eq by (simp add: rule_key_of_def metric_type_value_inj)
qed simp

text \<open>What a result of the engine is.\<close>

definition engine_result :: "rule_result \<Rightarrow> bool" where
  "engine_result r \<longleftrightarrow> (\<exists>kind mt. kind \<noteq> STALENESS \<and> rr_rule_key r = rule_key_of kind mt \<and> rr_rule_kind r = kind)"

lemma evaluate_sample_rule:
  "wp (evaluate_sample e eng node_id collected_at sample)
      (\<lambda>rs w'. same_data w w' \<and> (\<forall>r \<in> set rs. engine_result r)) (\<lambda>x w'. same_data w w') w"
  unfolding evaluate_sample_def evaluate_rate_of_change_def Let_def wp_seq
  by (auto simp: wp_simps evaluate_threshold_def rate_result_def engine_result_def
      intro!: wp_case_option find_previous_sample_rule split: option.splits)

lemma evaluate_rule:
  "wp (evaluate e eng node_id ss collected_at)
      (\<lambda>rs w'. same_data w w' \<and> (\<forall>r \<in> set rs. engine_result r)) (\<lambda>x w'. same_data w w') w"
  unfolding evaluate_def wp_seq wp_ret
proof (rule wp_mono)
  show "wp (for_each (evaluate_sample e eng node_id collected_at) ss)
      (\<lambda>rss w'. same_data w w' \<and> (\<forall>rs \<in> set rss. \<forall>r \<in> set rs. engine_result r)) (\<lambda>x w'. same_data w w') w"
    by (rule wp_for_each_inv)
      (auto intro: wp_mono [OF evaluate_sample_rule] same_data_trans)
qed auto

end
