(* ===== verification/Alerting.thy ===== *)
theory Alerting
  imports Alert_Repository Notifications Remediation_Engine Rules
begin

text \<open>
  \<open>collector/services/alerting.py\<close>: the service that applies rule results to the alert
  lifecycle. One function per method, in the source's order of calls.
\<close>

record alert_service =
  sv_rule_engine :: rule_engine
  sv_notifier :: "telegram_notifier option"
  sv_escalation_after_seconds :: pyfloat
  sv_remediation_engine :: "remediation_engine option"
  sv_remediation_after_seconds :: pyfloat

record evaluation_outcome =
  eo_transitions :: "alert_row list"
  eo_dispatched_actions :: "action_row list"

text \<open>\<open>_to_view\<close> copies every field of the record; an \<open>AlertView\<close> has the record's type here.\<close>

definition to_view :: "alert_row \<Rightarrow> alert_row" where
  "to_view r =
     \<lparr>al_id = al_id r, al_node_id = al_node_id r, al_rule_key = al_rule_key r,
      al_rule_kind = al_rule_kind r, al_severity = al_severity r, al_status = al_status r,
      al_description = al_description r, al_triggering_value = al_triggering_value r,
      al_bound = al_bound r, al_first_fired_at = al_first_fired_at r,
      al_last_fired_at = al_last_fired_at r, al_resolved_at = al_resolved_at r,
      al_acknowledged_at = al_acknowledged_at r, al_acknowledged_by = al_acknowledged_by r,
      al_escalated_at = al_escalated_at r, al_remediated_at = al_remediated_at r\<rparr>"

lemma to_view_id [simp]: "to_view r = r"
  by (simp add: to_view_def)

definition get_alert :: "env \<Rightarrow> int \<Rightarrow> (world, exn, alert_row) comp" where
  "get_alert e alert_id =
     seq (alert_get e alert_id) (\<lambda>record.
     case record of
       None \<Rightarrow> raise (AlertNotFoundError (''alert '' @ show_int alert_id @ '' does not exist''))
     | Some r \<Rightarrow> ret (to_view r))"

definition list_alerts :: "env \<Rightarrow> alert_status option \<Rightarrow> (world, exn, alert_row list) comp" where
  "list_alerts e status = seq (alert_list e status) (\<lambda>rs. ret (map to_view rs))"

definition acknowledge :: "env \<Rightarrow> int \<Rightarrow> string \<Rightarrow> datetime \<Rightarrow> (world, exn, alert_row) comp" where
  "acknowledge e alert_id acknowledged_by now =
     seq (get_alert e alert_id) (\<lambda>current.
     if al_status current = RESOLVED
     then raise (AlertAlreadyResolvedError (''alert '' @ show_int alert_id @ '' is already resolved''))
     else seq (acknowledge_alert e alert_id acknowledged_by now) (\<lambda>updated. ret (to_view updated)))"

definition should_escalate :: "alert_service \<Rightarrow> alert_row \<Rightarrow> datetime \<Rightarrow> exn + bool" where
  "should_escalate sv record now =
     (if al_acknowledged_at record \<noteq> None \<or> al_escalated_at record \<noteq> None then Inr False
      else case dt_sub now (al_first_fired_at record) of
             Inl x \<Rightarrow> Inl x
           | Inr td \<Rightarrow> Inr (fle (sv_escalation_after_seconds sv) (total_seconds td)))"

definition maybe_escalate :: "env \<Rightarrow> alert_service \<Rightarrow> datetime \<Rightarrow> alert_row \<Rightarrow> (world, exn, alert_row) comp" where
  "maybe_escalate e sv fired_at record =
     seq (from_result (should_escalate sv record fired_at)) (\<lambda>b.
     if \<not> b then ret record
     else seq (escalate_alert e (al_id record) fired_at) (\<lambda>escalated.
          seq (notify e (sv_notifier sv) (format_escalated escalated)) (\<lambda>_.
          ret escalated)))"

definition should_remediate :: "alert_service \<Rightarrow> alert_row \<Rightarrow> datetime \<Rightarrow> exn + bool" where
  "should_remediate sv record now =
     (if sv_remediation_engine sv = None then Inr False
      else if al_acknowledged_at record \<noteq> None \<or> al_remediated_at record \<noteq> None then Inr False
      else case dt_sub now (al_first_fired_at record) of
             Inl x \<Rightarrow> Inl x
           | Inr td \<Rightarrow> Inr (fle (sv_remediation_after_seconds sv) (total_seconds td)))"

definition maybe_remediate ::
    "env \<Rightarrow> alert_service \<Rightarrow> string \<Rightarrow> rule_result \<Rightarrow> datetime \<Rightarrow> alert_row \<Rightarrow>
     (world, exn, alert_row \<times> action_row option) comp" where
  "maybe_remediate e sv node_id result fired_at record =
     seq (from_result (should_remediate sv record fired_at)) (\<lambda>b.
     case (if b then sv_remediation_engine sv else None) of
       None \<Rightarrow> ret (record, None)
     | Some eng \<Rightarrow>
         seq (decide (sql_action_repository e) eng node_id (al_id record) (rr_rule_key result) fired_at)
           (\<lambda>decision.
         case decision of
           None \<Rightarrow> ret (record, None)
         | Some dec \<Rightarrow>
             seq (mark_remediated e (al_id record) fired_at) (\<lambda>updated.
             ret (updated, if ac_status dec = DISPATCHED then Some dec else None))))"

definition open_alert ::
    "env \<Rightarrow> alert_service \<Rightarrow> string \<Rightarrow> rule_result \<Rightarrow> datetime \<Rightarrow> (world, exn, alert_row) comp" where
  "open_alert e sv node_id result fired_at =
     seq (create_alert e node_id (rr_rule_key result) (rr_rule_kind result) (rr_severity result)
            (rr_description result) (rr_value result) (rr_bound result) fired_at) (\<lambda>record.
     seq (notify e (sv_notifier sv) (format_opened e record)) (\<lambda>_.
     ret record))"

definition open_or_advance ::
    "env \<Rightarrow> alert_service \<Rightarrow> string \<Rightarrow> rule_result \<Rightarrow> datetime \<Rightarrow> alert_row option \<Rightarrow>
     (world, exn, alert_row \<times> action_row option) comp" where
  "open_or_advance e sv node_id result fired_at found =
     (case found of
        None \<Rightarrow> seq (open_alert e sv node_id result fired_at) (\<lambda>record. ret (record, None))
      | Some a \<Rightarrow>
          seq (update_last_fired e (al_id a) (rr_value result) fired_at) (\<lambda>advanced.
          seq (maybe_escalate e sv fired_at advanced) (\<lambda>escalated.
          maybe_remediate e sv node_id result fired_at escalated)))"

definition resolve ::
    "env \<Rightarrow> alert_service \<Rightarrow> datetime \<Rightarrow> alert_row \<Rightarrow> (world, exn, alert_row) comp" where
  "resolve e sv resolved_at a =
     seq (resolve_alert e (al_id a) resolved_at) (\<lambda>record.
     seq (notify e (sv_notifier sv) (format_resolved record)) (\<lambda>_.
     ret record))"

definition apply_result ::
    "env \<Rightarrow> alert_service \<Rightarrow> string \<Rightarrow> datetime \<Rightarrow> rule_result \<Rightarrow>
     (world, exn, alert_row option \<times> action_row option) comp" where
  "apply_result e sv node_id fired_at result =
     seq (find_open_alert e node_id (rr_rule_key result)) (\<lambda>found.
     if rr_breached result
     then seq (open_or_advance e sv node_id result fired_at found) (\<lambda>(record, dispatched).
          ret (Some (to_view record), dispatched))
     else case found of
            None \<Rightarrow> ret (None, None)
          | Some a \<Rightarrow> seq (resolve e sv fired_at a) (\<lambda>resolved. ret (Some (to_view resolved), None)))"

definition evaluate_and_apply ::
    "env \<Rightarrow> alert_service \<Rightarrow> string \<Rightarrow> metric_sample list \<Rightarrow> datetime \<Rightarrow> (world, exn, evaluation_outcome) comp" where
  "evaluate_and_apply e sv node_id ss collected_at =
     seq (evaluate e (sv_rule_engine sv) node_id ss collected_at) (\<lambda>results.
     seq (for_each (apply_result e sv node_id collected_at) results) (\<lambda>outs.
     ret \<lparr>eo_transitions = List.map_filter fst outs,
          eo_dispatched_actions = List.map_filter snd outs\<rparr>))"

end
