(* ===== verification/Node_Repository.thy ===== *)
theory Node_Repository
  imports Database
begin

text \<open>
  \<open>collector/repositories/node_repository.py\<close>: the node registry's storage. A get-then-write
  upsert, the lookup and the listing, each with the \<open>PersistenceError\<close> it raises.
\<close>

definition node_to_record :: "node_row \<Rightarrow> node_row" where
  "node_to_record r = r\<lparr>nd_first_seen_at := ensure_utc (nd_first_seen_at r),
                        nd_last_seen_at := ensure_utc (nd_last_seen_at r)\<rparr>"

definition upsert_seen :: "env \<Rightarrow> string \<Rightarrow> datetime \<Rightarrow> (world, exn, node_row) comp" where
  "upsert_seen e node_id seen_at =
     (let msg = ''failed to record node heartbeat'' in
      seq (query e msg (\<lambda>n d. row_at nd_node_id node_id (nodes d))) (\<lambda>found.
      let node = (case found of
                    None \<Rightarrow> \<lparr>nd_node_id = node_id, nd_first_seen_at = seen_at, nd_last_seen_at = seen_at\<rparr>
                  | Some r \<Rightarrow> r\<lparr>nd_last_seen_at := seen_at\<rparr>)
      in seq (execute e msg (\<lambda>n d. Inr ((),
                case found of
                  None \<Rightarrow> d\<lparr>nodes := nodes d @ [node]\<rparr>
                | Some _ \<Rightarrow> d\<lparr>nodes := put_row nd_node_id node (nodes d)\<rparr>)))
         (\<lambda>_. ret (node_to_record node))))"

definition node_get :: "env \<Rightarrow> string \<Rightarrow> (world, exn, node_row option) comp" where
  "node_get e node_id =
     seq (query e ''failed to fetch node'' (\<lambda>n d. row_at nd_node_id node_id (nodes d)))
       (\<lambda>found. ret (map_option node_to_record found))"

definition node_list_all :: "env \<Rightarrow> (world, exn, node_row list) comp" where
  "node_list_all e =
     seq (query e ''failed to list nodes'' (\<lambda>n d. scan e n (nodes d)))
       (\<lambda>rows. ret (map node_to_record rows))"

subsection \<open>What the operations do\<close>

text \<open>The tables after a node has been seen.\<close>

definition seen_db :: "string \<Rightarrow> datetime \<Rightarrow> db \<Rightarrow> db" where
  "seen_db node_id seen_at d =
     (case row_at nd_node_id node_id (nodes d) of
        None \<Rightarrow> d\<lparr>nodes := nodes d @ [\<lparr>nd_node_id = node_id, nd_first_seen_at = seen_at,
                                        nd_last_seen_at = seen_at\<rparr>]\<rparr>
      | Some r \<Rightarrow> d\<lparr>nodes := put_row nd_node_id (r\<lparr>nd_last_seen_at := seen_at\<rparr>) (nodes d)\<rparr>)"

lemma upsert_seen_rule:
  assumes "\<And>w'. same_data w w' \<Longrightarrow> \<not> no_faults e \<Longrightarrow> E (PersistenceError ''failed to record node heartbeat'') w'"
    and "\<And>r w'. tables w' = seen_db node_id seen_at (tables w) \<Longrightarrow> outbox w' = outbox w \<Longrightarrow>
           nd_node_id r = node_id \<Longrightarrow> nd_last_seen_at r = ensure_utc seen_at \<Longrightarrow> Q r w'"
  shows "wp (upsert_seen e node_id seen_at) Q E w"
  unfolding upsert_seen_def Let_def wp_seq
  by (intro query_rule execute_rule)
    (use assms in \<open>auto simp: same_data_def wp_simps seen_db_def node_to_record_def
      dest: row_at_SomeD split: option.splits\<close>)

lemma node_get_rule:
  assumes "\<And>w'. same_data w w' \<Longrightarrow> \<not> no_faults e \<Longrightarrow> E (PersistenceError ''failed to fetch node'') w'"
    and "\<And>w'. same_data w w' \<Longrightarrow>
           Q (map_option node_to_record (row_at nd_node_id node_id (nodes (tables w)))) w'"
  shows "wp (node_get e node_id) Q E w"
  unfolding node_get_def wp_seq by (rule query_rule) (use assms in \<open>auto simp: wp_simps\<close>)

lemma node_list_all_rule:
  assumes "\<And>w'. same_data w w' \<Longrightarrow> \<not> no_faults e \<Longrightarrow> E (PersistenceError ''failed to list nodes'') w'"
    and "\<And>rows w'. same_data w w' \<Longrightarrow> mset rows = mset (nodes (tables w)) \<Longrightarrow> Q (map node_to_record rows) w'"
  shows "wp (node_list_all e) Q E w"
  unfolding node_list_all_def wp_seq by (rule query_rule) (use assms in \<open>auto simp: wp_simps\<close>)

lemma seen_db_simps [simp]:
  "samples (seen_db i t d) = samples d" "alerts (seen_db i t d) = alerts d"
  "actions (seen_db i t d) = actions d"
  by (simp_all add: seen_db_def split: option.splits)

lemma seen_db_keys:
  "nd_node_id ` set (nodes (seen_db i t d)) = insert i (nd_node_id ` set (nodes d))"
proof (cases "row_at nd_node_id i (nodes d)")
  case None
  then show ?thesis by (auto simp: seen_db_def)
next
  case (Some r)
  then have "i \<in> nd_node_id ` set (nodes d)"
    by (auto dest!: row_at_SomeD)
  moreover have "map nd_node_id (nodes (seen_db i t d)) = map nd_node_id (nodes d)"
    by (simp add: seen_db_def Some)
  ultimately show ?thesis
    by (metis insert_absorb list.set_map)
qed

lemma seen_db_distinct:
  "distinct (map nd_node_id (nodes d)) \<Longrightarrow> distinct (map nd_node_id (nodes (seen_db i t d)))"
  by (auto simp: seen_db_def row_at_None split: option.splits)

end
