(* ===== verification/Lifecycle.thy ===== *)
theory Lifecycle
  imports Alerting Node_Repository
begin

text \<open>
  The abstract specification of the Collector's data: the lifecycle of alerts and of the Playbook
  audit log as a labelled step relation on the four tables. A step is one committed change, with
  the guard under which the services may make it; its label says which notification it owes.
  \<open>Lifecycle_Safety\<close> proves the invariants of every path of steps, and the refinement theories
  show that every request and every background job, faults of the database included, only takes
  such steps.
\<close>

subsection \<open>Guards\<close>

text \<open>The age test of escalation and remediation, on the stored row.\<close>

definition old_enough :: "pyfloat \<Rightarrow> datetime \<Rightarrow> alert_row \<Rightarrow> bool" where
  "old_enough limit t r \<longleftrightarrow> aware t \<and> fle limit (total_seconds (us t - us (al_first_fired_at r)))"

text \<open>The rule keys the configured rules can have.\<close>

definition engine_key :: "string \<Rightarrow> bool" where
  "engine_key k \<longleftrightarrow> (\<exists>kind mt. kind \<noteq> STALENESS \<and> k = rule_key_of kind mt)"

text \<open>A firing alert nobody has acknowledged.\<close>

definition unattended :: "alert_row \<Rightarrow> bool" where
  "unattended r \<longleftrightarrow> al_status r = FIRING \<and> al_acknowledged_at r = None"

text \<open>
  What remediation of an alert needs: configured rule, nobody acknowledged it, no attempt so far,
  old enough, and escalated first whenever the two delays are ordered as validated.
\<close>

definition may_remediate :: "alert_service \<Rightarrow> datetime \<Rightarrow> alert_row \<Rightarrow> bool" where
  "may_remediate sv t r \<longleftrightarrow>
     engine_key (al_rule_key r) \<and> unattended r \<and> al_remediated_at r = None \<and>
     old_enough (sv_remediation_after_seconds sv) t r \<and>
     (fle (sv_escalation_after_seconds sv) (sv_remediation_after_seconds sv) \<longrightarrow> al_escalated_at r \<noteq> None)"

subsection \<open>Changes of one alert\<close>

inductive alert_change :: "alert_service \<Rightarrow> alert_row \<Rightarrow> alert_row \<Rightarrow> bool" for sv where
  advance: "al_status r = FIRING \<Longrightarrow>
    alert_change sv r (r\<lparr>al_triggering_value := v, al_last_fired_at := t\<rparr>)"
| escalate: "unattended r \<Longrightarrow> al_escalated_at r = None \<Longrightarrow> engine_key (al_rule_key r) \<Longrightarrow>
    old_enough (sv_escalation_after_seconds sv) t r \<Longrightarrow>
    alert_change sv r (r\<lparr>al_escalated_at := Some t\<rparr>)"
| remediate: "may_remediate sv t r \<Longrightarrow> alert_change sv r (r\<lparr>al_remediated_at := Some t\<rparr>)"
| acknowledge: "al_status r = FIRING \<Longrightarrow>
    alert_change sv r (r\<lparr>al_acknowledged_by := Some b, al_acknowledged_at := Some t\<rparr>)"
| resolve: "al_status r = FIRING \<Longrightarrow>
    alert_change sv r (r\<lparr>al_status := RESOLVED, al_resolved_at := Some t\<rparr>)"

subsection \<open>Steps\<close>

datatype event = Opened alert_row | Escalated alert_row | Resolved alert_row | Quiet | Dropped

text \<open>The event of a change: only escalation and resolution are transitions worth a message.\<close>

definition event_of :: "alert_row \<Rightarrow> alert_row \<Rightarrow> event" where
  "event_of r r' =
     (if al_status r' \<noteq> al_status r then Resolved r'
      else if al_escalated_at r' \<noteq> al_escalated_at r then Escalated r' else Quiet)"

inductive lstep :: "alert_service \<Rightarrow> event \<Rightarrow> db \<Rightarrow> db \<Rightarrow> bool" for sv where
  node_seen: "lstep sv Quiet d (seen_db i t d)"
| samples_inserted:
    "rows = [] \<or> i \<in> nd_node_id ` set (nodes d) \<Longrightarrow> sm_node_id ` set rows \<subseteq> {i} \<Longrightarrow>
     (distinct (map sm_id (samples d)) \<longrightarrow> distinct (map sm_id (samples d @ rows))) \<Longrightarrow>
     lstep sv Quiet d (d\<lparr>samples := samples d @ rows\<rparr>)"
| alert_opened:
    "i \<notin> al_id ` set (alerts d) \<Longrightarrow> n \<in> nd_node_id ` set (nodes d) \<Longrightarrow>
     filter (is_open n k) (alerts d) = [] \<Longrightarrow> (kind = STALENESS \<longrightarrow> \<not> engine_key k) \<Longrightarrow>
     row = new_alert i n k kind sev descr v b t \<Longrightarrow>
     lstep sv (Opened row) d (d\<lparr>alerts := alerts d @ [row]\<rparr>)"
| alert_changed:
    "r \<in> set (alerts d) \<Longrightarrow> alert_change sv r r' \<Longrightarrow>
     (al_remediated_at r' \<noteq> al_remediated_at r \<Longrightarrow>
        \<exists>x \<in> set (actions d). ac_alert_id x = al_id r \<and> al_remediated_at r' = Some (ac_created_at x)) \<Longrightarrow>
     lstep sv (event_of r r') d (d\<lparr>alerts := put_row al_id r' (alerts d)\<rparr>)"
| action_decided:
    "sv_remediation_engine sv = Some eng \<Longrightarrow> en_enabled eng \<Longrightarrow>
     a \<in> set (alerts d) \<Longrightarrow> may_remediate sv t a \<Longrightarrow>
     en_by_rule_key eng (al_rule_key a) = Some pb \<Longrightarrow>
     al_node_id a \<in> nd_node_id ` set (nodes d) \<Longrightarrow> i \<notin> ac_id ` set (actions d) \<Longrightarrow>
     reason = None \<longleftrightarrow> safe_to_dispatch eng (al_node_id a) (pb_playbook_name pb) t (actions d) \<Longrightarrow>
     row = new_action i (al_node_id a) (al_id a) (al_rule_key a) (pb_playbook_name pb)
             (pb_action_type pb) (pb_parameters pb)
             (if reason = None then DISPATCHED else BLOCKED_BY_SAFETY_LIMIT) reason t \<Longrightarrow>
     lstep sv Quiet d (d\<lparr>actions := actions d @ [row]\<rparr>)"
| action_finished:
    "x \<in> set (actions d) \<Longrightarrow> ac_status x = DISPATCHED \<Longrightarrow> st \<in> {EXECUTED, FAILED} \<Longrightarrow>
     lstep sv Quiet d (d\<lparr>actions := put_row ac_id
       (x\<lparr>ac_status := st, ac_reason := reason, ac_completed_at := Some t\<rparr>) (actions d)\<rparr>)"
| actions_pruned:
    "(\<And>x. x \<in> set (actions d) \<Longrightarrow> ac_id x \<in> set ks \<Longrightarrow> action_prunable c x) \<Longrightarrow>
     lstep sv Quiet d (d\<lparr>actions := delete_rows ac_id ks (actions d)\<rparr>)"
| alerts_pruned:
    "(\<And>r. r \<in> set (alerts d) \<Longrightarrow> al_id r \<in> set ks \<Longrightarrow> alert_prunable c d r) \<Longrightarrow>
     lstep sv Dropped d (d\<lparr>alerts := delete_rows al_id ks (alerts d)\<rparr>)"
| samples_pruned:
    "(\<And>s. s \<in> set (samples d) \<Longrightarrow> sm_id s \<in> set ks \<Longrightarrow> us (sm_received_at s) < us c) \<Longrightarrow>
     lstep sv Quiet d (d\<lparr>samples := delete_rows sm_id ks (samples d)\<rparr>)"

inductive_cases alert_changeE: "alert_change sv r r'"
inductive_cases lstepE: "lstep sv ev d d'"

subsection \<open>Paths and the messages they owe\<close>

inductive lsteps :: "alert_service \<Rightarrow> event list \<Rightarrow> db \<Rightarrow> db \<Rightarrow> bool" for sv where
  none: "lsteps sv [] d d"
| more: "lstep sv ev d d' \<Longrightarrow> lsteps sv evs d' d'' \<Longrightarrow> lsteps sv (ev # evs) d d''"

primrec event_message :: "env \<Rightarrow> event \<Rightarrow> string list" where
  "event_message e (Opened r) = [format_opened e r]"
| "event_message e (Escalated r) = [format_escalated r]"
| "event_message e (Resolved r) = [format_resolved r]"
| "event_message e Quiet = []"
| "event_message e Dropped = []"

definition messages :: "env \<Rightarrow> telegram_notifier option \<Rightarrow> event list \<Rightarrow> (string \<times> string) list" where
  "messages e notifier evs = concat (map (posted notifier) (concat (map (event_message e) evs)))"

text \<open>
  A run refines the specification: the tables moved along a path, with events of the set \<open>P\<close>
  only, and the outbox grew by exactly the messages of that path, in order. Requests and most
  jobs never drop an alert; the retention job does nothing that is worth a message.
\<close>

definition refines :: "env \<Rightarrow> alert_service \<Rightarrow> event set \<Rightarrow> world \<Rightarrow> world \<Rightarrow> bool" where
  "refines e sv P w w' \<longleftrightarrow>
     (\<exists>evs. lsteps sv evs (tables w) (tables w') \<and> set evs \<subseteq> P \<and>
            outbox w' = outbox w @ messages e (sv_notifier sv) evs)"

abbreviation no_drop :: "event set" where
  "no_drop \<equiv> - {Dropped}"

lemma lsteps_single: "lstep sv ev d d' \<Longrightarrow> lsteps sv [ev] d d'"
  by (blast intro: lsteps.intros)

lemma lsteps_append: "lsteps sv evs d d' \<Longrightarrow> lsteps sv evs' d' d'' \<Longrightarrow> lsteps sv (evs @ evs') d d''"
  by (induction rule: lsteps.induct) (auto intro: lsteps.intros)

lemma messages_simps [simp]:
  "messages e notifier [] = []"
  "messages e notifier (ev # ev' # evs) = messages e notifier [ev] @ messages e notifier (ev' # evs)"
  "messages e notifier (evs @ evs') = messages e notifier evs @ messages e notifier evs'"
  by (simp_all add: messages_def)

lemma messages_event [simp]:
  "messages e notifier [Opened r] = posted notifier (format_opened e r)"
  "messages e notifier [Escalated r] = posted notifier (format_escalated r)"
  "messages e notifier [Resolved r] = posted notifier (format_resolved r)"
  "messages e notifier [Quiet] = []"
  "messages e notifier [Dropped] = []"
  by (simp_all add: messages_def)

lemma refines_refl: "same_data w w' \<Longrightarrow> refines e sv P w w'"
  by (auto simp: refines_def same_data_def intro!: exI [of _ "[]"] lsteps.none)

lemma refines_trans: "refines e sv P u v \<Longrightarrow> refines e sv P v w \<Longrightarrow> refines e sv P u w"
proof -
  assume "refines e sv P u v" and "refines e sv P v w"
  then obtain evs evs' where "lsteps sv evs (tables u) (tables v)" "lsteps sv evs' (tables v) (tables w)"
      and "set evs \<subseteq> P" "set evs' \<subseteq> P" "outbox v = outbox u @ messages e (sv_notifier sv) evs"
        "outbox w = outbox v @ messages e (sv_notifier sv) evs'"
    by (auto simp: refines_def)
  then show ?thesis
    unfolding refines_def by (intro exI [of _ "evs @ evs'"]) (simp add: lsteps_append)
qed

lemma refines_step:
  "lstep sv ev (tables w) (tables w') \<Longrightarrow> ev \<in> P \<Longrightarrow>
   outbox w' = outbox w @ messages e (sv_notifier sv) [ev] \<Longrightarrow> refines e sv P w w'"
  unfolding refines_def by (intro exI [of _ "[ev]"]) (simp add: lsteps_single)

lemma format_to_record [simp]:
  "format_opened e (alert_to_record r) = format_opened e r"
  "format_escalated (alert_to_record r) = format_escalated r"
  "format_resolved (alert_to_record r) = format_resolved r"
  by (simp_all add: format_opened_def format_escalated_def format_resolved_def)

end
