(* ===== verification/Lifecycle_Safety.thy ===== *)
theory Lifecycle_Safety
  imports Lifecycle
begin

text \<open>
  What every path of the specification keeps: primary and foreign keys, at most one firing alert
  per node and rule, well-formed alerts and audit rows, the cooldown between dispatches of a
  Playbook on a node and the hourly cap per node. The second part describes how a single alert
  and a single audit row may evolve while they stay in their table.
\<close>

subsection \<open>The invariant\<close>

definition keys_ok :: "db \<Rightarrow> bool" where
  "keys_ok d \<longleftrightarrow> distinct (map nd_node_id (nodes d)) \<and> distinct (map sm_id (samples d)) \<and>
     distinct (map al_id (alerts d)) \<and> distinct (map ac_id (actions d))"

text \<open>An audit row refers to the alert it was decided for.\<close>

definition refers :: "action_row \<Rightarrow> alert_row \<Rightarrow> bool" where
  "refers x a \<longleftrightarrow> ac_alert_id x = al_id a \<and> ac_node_id x = al_node_id a \<and> ac_rule_key x = al_rule_key a"

definition refs_ok :: "db \<Rightarrow> bool" where
  "refs_ok d \<longleftrightarrow> sm_node_id ` set (samples d) \<subseteq> nd_node_id ` set (nodes d) \<and>
     al_node_id ` set (alerts d) \<subseteq> nd_node_id ` set (nodes d) \<and>
     ac_node_id ` set (actions d) \<subseteq> nd_node_id ` set (nodes d) \<and>
     (\<forall>x \<in> set (actions d). \<exists>a \<in> set (alerts d). refers x a)"

definition one_firing :: "db \<Rightarrow> bool" where
  "one_firing d \<longleftrightarrow> (\<forall>n k. \<forall>r \<in> set (alerts d). \<forall>r' \<in> set (alerts d).
     is_open n k r \<and> is_open n k r' \<longrightarrow> al_id r = al_id r')"

definition alert_ok :: "alert_service \<Rightarrow> alert_row \<Rightarrow> bool" where
  "alert_ok sv r \<longleftrightarrow>
     (al_status r = FIRING \<longleftrightarrow> al_resolved_at r = None) \<and>
     (al_acknowledged_by r = None \<longleftrightarrow> al_acknowledged_at r = None) \<and>
     (al_rule_kind r = STALENESS \<longrightarrow> \<not> engine_key (al_rule_key r)) \<and>
     (\<forall>t. al_escalated_at r = Some t \<longrightarrow>
        engine_key (al_rule_key r) \<and> old_enough (sv_escalation_after_seconds sv) t r) \<and>
     (\<forall>t. al_remediated_at r = Some t \<longrightarrow>
        engine_key (al_rule_key r) \<and> old_enough (sv_remediation_after_seconds sv) t r \<and>
        (fle (sv_escalation_after_seconds sv) (sv_remediation_after_seconds sv) \<longrightarrow> al_escalated_at r \<noteq> None))"

text \<open>An audit row was made from the Playbook configured for its rule.\<close>

definition from_playbook :: "alert_service \<Rightarrow> action_row \<Rightarrow> bool" where
  "from_playbook sv x \<longleftrightarrow> (\<exists>eng pb. sv_remediation_engine sv = Some eng \<and>
     en_by_rule_key eng (ac_rule_key x) = Some pb \<and> ac_playbook_name x = pb_playbook_name pb \<and>
     ac_action_type x = pb_action_type pb \<and> ac_parameters x = pb_parameters pb)"

definition action_ok :: "alert_service \<Rightarrow> action_row \<Rightarrow> bool" where
  "action_ok sv x \<longleftrightarrow> from_playbook sv x \<and>
     (ac_completed_at x = None \<longleftrightarrow> ac_status x \<in> {BLOCKED_BY_SAFETY_LIMIT, DISPATCHED}) \<and>
     (ac_status x = BLOCKED_BY_SAFETY_LIMIT \<longrightarrow> ac_reason x \<noteq> None) \<and>
     (ac_status x = DISPATCHED \<longrightarrow> ac_reason x = None)"

text \<open>A row that was dispatched, whatever became of it.\<close>

abbreviation sent :: "action_row \<Rightarrow> bool" where
  "sent x \<equiv> ac_status x \<noteq> BLOCKED_BY_SAFETY_LIMIT"

definition spaced :: "remediation_engine \<Rightarrow> action_row \<Rightarrow> action_row \<Rightarrow> bool" where
  "spaced eng x y \<longleftrightarrow>
     (sent y \<and> ac_node_id x = ac_node_id y \<and> ac_playbook_name x = ac_playbook_name y \<longrightarrow>
      \<not> flt (total_seconds (us (ac_created_at y) - us (ac_created_at x))) (en_cooldown_seconds eng))"

definition sent_within :: "string \<Rightarrow> int \<Rightarrow> action_row list \<Rightarrow> nat" where
  "sent_within n t rows = length (filter (\<lambda>x. ac_node_id x = n \<and> sent x \<and>
     t \<le> us (ac_created_at x) \<and> us (ac_created_at x) \<le> t + one_hour) rows)"

definition limits_ok :: "remediation_engine \<Rightarrow> action_row list \<Rightarrow> bool" where
  "limits_ok eng rows \<longleftrightarrow> sorted_wrt (spaced eng) rows \<and>
     (\<forall>n t. int (sent_within n t rows) \<le> max 0 (en_max_actions_per_node_per_hour eng))"

definition db_inv :: "alert_service \<Rightarrow> db \<Rightarrow> bool" where
  "db_inv sv d \<longleftrightarrow> keys_ok d \<and> refs_ok d \<and> one_firing d \<and>
     (\<forall>r \<in> set (alerts d). alert_ok sv r) \<and> (\<forall>x \<in> set (actions d). action_ok sv x) \<and>
     (\<forall>eng. sv_remediation_engine sv = Some eng \<longrightarrow> limits_ok eng (actions d))"

subsection \<open>Changes of one alert\<close>

lemma alert_change_fixed:
  assumes "alert_change sv r r'"
  shows "al_id r' = al_id r" "al_node_id r' = al_node_id r" "al_rule_key r' = al_rule_key r"
    "al_rule_kind r' = al_rule_kind r" "al_severity r' = al_severity r"
    "al_description r' = al_description r" "al_bound r' = al_bound r"
    "al_first_fired_at r' = al_first_fired_at r" "al_status r = FIRING"
  using assms by (auto elim!: alert_changeE simp: unattended_def may_remediate_def)

lemma alert_change_ok: "alert_change sv r r' \<Longrightarrow> alert_ok sv r \<Longrightarrow> alert_ok sv r'"
  by (erule alert_changeE)
    (auto simp: alert_ok_def old_enough_def unattended_def may_remediate_def)

lemma new_alert_ok:
  "(kind = STALENESS \<longrightarrow> \<not> engine_key k) \<Longrightarrow> alert_ok sv (new_alert i n k kind sev descr v b t)"
  by (simp add: alert_ok_def new_alert_def)

lemma alert_change_is_open: "alert_change sv r r' \<Longrightarrow> is_open n k r' \<Longrightarrow> is_open n k r"
  using alert_change_fixed [of sv r r'] by (simp add: is_open_def)

subsection \<open>The rows of the audit log under a result\<close>

text \<open>Under its primary key a written row replaces just the row it was read from.\<close>

lemma put_row_unique:
  "distinct (map key rows) \<Longrightarrow> r \<in> set rows \<Longrightarrow> key r' = key r \<Longrightarrow>
   put_row key r' rows = map (\<lambda>x. if x = r then r' else x) rows"
  by (auto simp: put_row_def distinct_map inj_on_def)

lemma keys_put_row: "key ` set (put_row key r' rows) = key ` set rows"
  by (metis key_put_row list.set_map)

lemma image_put_row: "f r' \<in> A \<Longrightarrow> f ` set rows \<subseteq> A \<Longrightarrow> f ` set (put_row key r' rows) \<subseteq> A"
  using set_put_row [of key r' rows] by blast

lemma sent_within_mono: "sent_within n t (filter P rows) \<le> sent_within n t rows"
  unfolding sent_within_def by (rule length_filter_filter_le)

lemma limits_ok_filter: "limits_ok eng rows \<Longrightarrow> limits_ok eng (filter P rows)"
  unfolding limits_ok_def using sent_within_mono [of _ _ P rows]
  by (meson of_nat_mono order_trans sorted_wrt_filter)

lemma limits_ok_map:
  assumes "\<And>x. x \<in> set rows \<Longrightarrow> ac_node_id (f x) = ac_node_id x \<and> ac_playbook_name (f x) = ac_playbook_name x \<and>
      ac_created_at (f x) = ac_created_at x \<and> (sent (f x) \<longleftrightarrow> sent x)"
    and "limits_ok eng rows"
  shows "limits_ok eng (map f rows)"
proof -
  have "sorted_wrt (spaced eng) rows"
    using assms(2) by (simp add: limits_ok_def)
  then have "sorted_wrt (\<lambda>x y. spaced eng (f x) (f y)) rows"
    by (rule sorted_wrt_mono_rel [rotated]) (use assms(1) in \<open>auto simp: spaced_def\<close>)
  moreover have "sent_within n t (map f rows) = sent_within n t rows" for n t
    unfolding sent_within_def filter_map length_map comp_def
    using assms(1) by (intro arg_cong [where f = length] filter_cong) auto
  ultimately show ?thesis
    using assms(2) by (simp add: limits_ok_def sorted_wrt_map)
qed

text \<open>A new row: blocked, or dispatched under the Safety Limits.\<close>

lemma limits_ok_append:
  assumes ok: "limits_ok eng rows"
    and safe: "sent x \<Longrightarrow> safe_to_dispatch eng (ac_node_id x) (ac_playbook_name x) (ac_created_at x) rows"
  shows "limits_ok eng (rows @ [x])"
proof -
  have "spaced eng y x" if "y \<in> set rows" for y
    using safe that by (auto simp: spaced_def safe_to_dispatch_def cooldown_clear_def)
  then have "sorted_wrt (spaced eng) (rows @ [x])"
    using ok by (simp add: limits_ok_def sorted_wrt_append)
  moreover have "int (sent_within n t (rows @ [x])) \<le> max 0 (en_max_actions_per_node_per_hour eng)" for n t
  proof (cases "ac_node_id x = n \<and> sent x \<and> t \<le> us (ac_created_at x) \<and> us (ac_created_at x) \<le> t + one_hour")
    case True
    then have "sent_within n t rows \<le> length (filter
        (\<lambda>r. ac_node_id r = n \<and> us (ac_created_at x) - one_hour \<le> us (ac_created_at r)) rows)"
      unfolding sent_within_def by (intro length_filter_mono) auto
    moreover have "hour_clear eng n (ac_created_at x) rows"
      using safe True by (auto simp: safe_to_dispatch_def)
    ultimately have "int (sent_within n t rows) < en_max_actions_per_node_per_hour eng"
      unfolding hour_clear_def by linarith
    then show ?thesis
      using True by (simp add: sent_within_def)
  next
    case False
    then have "sent_within n t (rows @ [x]) = sent_within n t rows"
      by (auto simp: sent_within_def)
    then show ?thesis
      using ok by (simp add: limits_ok_def)
  qed
  ultimately show ?thesis
    by (simp add: limits_ok_def)
qed

subsection \<open>Every step keeps the invariant\<close>

lemma keys_ok_step:
  assumes "lstep sv ev d d'" and "keys_ok d"
  shows "keys_ok d'"
  using assms by (cases rule: lstep.cases)
    (auto simp: keys_ok_def new_alert_def new_action_def intro: seen_db_distinct distinct_delete_rows)

lemma refers_change: "alert_change sv r r' \<Longrightarrow> refers x r \<Longrightarrow> refers x r'"
  by (simp add: refers_def alert_change_fixed)

lemma refs_ok_step:
  assumes "lstep sv ev d d'" and "refs_ok d" and "keys_ok d"
  shows "refs_ok d'"
  using assms
proof (cases rule: lstep.cases)
  case (alert_changed r r')
  have "al_node_id ` set (put_row al_id r' (alerts d)) \<subseteq> nd_node_id ` set (nodes d)"
    by (rule image_put_row) (use assms(2) alert_changed alert_change_fixed(2) in \<open>auto simp: refs_ok_def\<close>)
  moreover have "\<exists>a \<in> set (put_row al_id r' (alerts d)). refers x a" if x: "x \<in> set (actions d)" for x
  proof -
    obtain a where a: "a \<in> set (alerts d)" "refers x a"
      using assms(2) x unfolding refs_ok_def by blast
    have "put_row al_id r' (alerts d) = map (\<lambda>x. if x = r then r' else x) (alerts d)"
      using assms(3) alert_changed(3) alert_change_fixed(1) [OF alert_changed(4)]
      by (intro put_row_unique) (simp_all add: keys_ok_def)
    with a show ?thesis
      using refers_change [OF alert_changed(4)] by (auto simp: image_iff)
  qed
  ultimately show ?thesis
    using assms(2) alert_changed(2) by (simp add: refs_ok_def)
next
  case (action_finished x st t reason)
  let ?x = "x\<lparr>ac_status := st, ac_reason := reason, ac_completed_at := Some t\<rparr>"
  have "ac_node_id ` set (put_row ac_id ?x (actions d)) \<subseteq> nd_node_id ` set (nodes d)"
    by (rule image_put_row) (use assms(2) action_finished(3) in \<open>auto simp: refs_ok_def\<close>)
  moreover have "\<exists>a \<in> set (alerts d). refers y a" if "y \<in> set (put_row ac_id ?x (actions d))" for y
  proof -
    have "\<exists>a \<in> set (alerts d). refers ?x a"
      using assms(2) action_finished(3) unfolding refs_ok_def refers_def by simp
    then show ?thesis
      using mem_put_row [OF that] assms(2) by (auto simp: refs_ok_def)
  qed
  ultimately show ?thesis
    using assms(2) action_finished(2) by (simp add: refs_ok_def)
next
  case (alerts_pruned ks c)
  have "\<exists>a \<in> set (delete_rows al_id ks (alerts d)). refers x a" if x: "x \<in> set (actions d)" for x
  proof -
    obtain r where r: "r \<in> set (alerts d)" "refers x r"
      using assms(2) x unfolding refs_ok_def by blast
    then have "al_id r \<notin> set ks"
      using alerts_pruned(3) [of r] x by (force simp: alert_prunable_def refers_def)
    with r show ?thesis
      by (auto simp: set_delete_rows)
  qed
  then show ?thesis
    using assms(2) alerts_pruned(2) by (auto simp: refs_ok_def set_delete_rows)
next
  case (action_decided eng a t pb i reason row)
  then have "refers row a"
    by (simp add: refers_def new_action_def)
  then show ?thesis
    using assms(2) action_decided by (auto simp: refs_ok_def new_action_def)
qed (auto simp: refs_ok_def seen_db_keys set_delete_rows new_alert_def)

lemma one_firing_step:
  assumes "lstep sv ev d d'" and "one_firing d"
  shows "one_firing d'"
  using assms
proof (cases rule: lstep.cases)
  case (alert_opened i n k kind row)
  then have "\<not> is_open n k r" if "r \<in> set (alerts d)" for r
    using that by (auto simp: filter_empty_conv)
  moreover have "is_open n' k' row \<longleftrightarrow> n' = n \<and> k' = k" for n' k'
    using alert_opened by (auto simp: is_open_def new_alert_def)
  ultimately show ?thesis
    using assms(2) alert_opened(2) by (auto simp: one_firing_def)
next
  case (alert_changed r r')
  have "al_id x = al_id y" if "x \<in> set (put_row al_id r' (alerts d))" "y \<in> set (put_row al_id r' (alerts d))"
    "is_open n k x" "is_open n k y" for x y n k
    using mem_put_row [OF that(1)] mem_put_row [OF that(2)] that(3,4) assms(2)
      alert_changed(3) alert_change_is_open [OF alert_changed(4)] alert_change_fixed(1) [OF alert_changed(4)]
    unfolding one_firing_def by metis
  then show ?thesis
    using alert_changed(2) unfolding one_firing_def by auto
qed (auto simp: one_firing_def set_delete_rows)

lemma alert_ok_step:
  assumes "lstep sv ev d d'" and "\<forall>r \<in> set (alerts d). alert_ok sv r" and "r \<in> set (alerts d')"
  shows "alert_ok sv r"
  using assms
  by (cases rule: lstep.cases)
    (auto simp: set_delete_rows dest!: mem_put_row intro: alert_change_ok new_alert_ok)

lemma action_ok_step:
  assumes "lstep sv ev d d'" and "\<forall>x \<in> set (actions d). action_ok sv x" and "x \<in> set (actions d')"
  shows "action_ok sv x"
  using assms
  by (cases rule: lstep.cases)
    (auto simp: set_delete_rows action_ok_def from_playbook_def new_action_def dest!: mem_put_row split: if_splits)

lemma limits_ok_step:
  assumes "lstep sv ev d d'" and "limits_ok eng (actions d)" and "keys_ok d"
    and "sv_remediation_engine sv = Some eng"
  shows "limits_ok eng (actions d')"
  using assms
proof (cases rule: lstep.cases)
  case (action_decided eng' a t pb i reason row)
  then show ?thesis
    using assms(2,4) by (auto simp: new_action_def intro!: limits_ok_append split: if_splits)
next
  case (action_finished x st t reason)
  let ?x = "x\<lparr>ac_status := st, ac_reason := reason, ac_completed_at := Some t\<rparr>"
  have "put_row ac_id ?x (actions d) = map (\<lambda>y. if y = x then ?x else y) (actions d)"
    by (rule put_row_unique) (use action_finished assms(3) in \<open>auto simp: keys_ok_def\<close>)
  moreover have "limits_ok eng (map (\<lambda>y. if y = x then ?x else y) (actions d))"
    by (rule limits_ok_map) (use action_finished assms(2) in auto)
  ultimately show ?thesis
    using action_finished by simp
qed (auto simp: delete_rows_def limits_ok_filter)

lemma db_inv_step: "lstep sv ev d d' \<Longrightarrow> db_inv sv d \<Longrightarrow> db_inv sv d'"
  using keys_ok_step refs_ok_step one_firing_step alert_ok_step action_ok_step limits_ok_step
  unfolding db_inv_def by meson

lemma db_inv_steps: "lsteps sv evs d d' \<Longrightarrow> db_inv sv d \<Longrightarrow> db_inv sv d'"
  by (induction rule: lsteps.induct) (auto intro: db_inv_step)

lemma db_inv_init: "db_inv sv init_db"
  by (simp add: db_inv_def init_db_def keys_ok_def refs_ok_def one_firing_def limits_ok_def sent_within_def)

lemma db_inv_refines: "refines e sv P w w' \<Longrightarrow> db_inv sv (tables w) \<Longrightarrow> db_inv sv (tables w')"
  by (auto simp: refines_def intro: db_inv_steps)

subsection \<open>How one alert and one audit row evolve\<close>

text \<open>
  What an alert may become while it stays in the table: identity and first firing never change, a
  resolved alert is frozen, escalation and remediation happen at most once, and an acknowledgement
  is never lost and freezes both.
\<close>

definition alert_evolves :: "alert_row \<Rightarrow> alert_row \<Rightarrow> bool" where
  "alert_evolves r r' \<longleftrightarrow>
     al_node_id r' = al_node_id r \<and> al_rule_key r' = al_rule_key r \<and>
     al_first_fired_at r' = al_first_fired_at r \<and>
     (al_status r = RESOLVED \<longrightarrow> r' = r) \<and>
     (al_escalated_at r \<noteq> None \<longrightarrow> al_escalated_at r' = al_escalated_at r) \<and>
     (al_remediated_at r \<noteq> None \<longrightarrow> al_remediated_at r' = al_remediated_at r) \<and>
     (al_acknowledged_at r \<noteq> None \<longrightarrow> al_acknowledged_at r' \<noteq> None \<and>
        al_escalated_at r' = al_escalated_at r \<and> al_remediated_at r' = al_remediated_at r)"

lemma alert_evolves_refl: "alert_evolves r r"
  by (simp add: alert_evolves_def)

lemma alert_evolves_trans: "alert_evolves r s \<Longrightarrow> alert_evolves s t \<Longrightarrow> alert_evolves r t"
  by (auto simp: alert_evolves_def)

lemma alert_change_evolves: "alert_change sv r r' \<Longrightarrow> alert_evolves r r'"
  by (erule alert_changeE) (auto simp: alert_evolves_def unattended_def may_remediate_def)

lemma step_alert:
  assumes "lstep sv ev d d'" and "keys_ok d" and "r \<in> set (alerts d)" and "r' \<in> set (alerts d')"
    and "al_id r' = al_id r"
  shows "r' = r \<or> alert_change sv r r'"
proof -
  have unique: "x = r" if "x \<in> set (alerts d)" "al_id x = al_id r" for x
    using assms(2,3) that by (auto simp: keys_ok_def distinct_map inj_on_def)
  from assms(1) show ?thesis
  proof (cases rule: lstep.cases)
    case (alert_opened i n k kind row)
    then show ?thesis
      using assms(3,4,5) unique by (auto simp: new_alert_def)
  next
    case (alert_changed x x')
    then have "r' = x' \<or> r' \<in> set (alerts d)"
      using assms(4) by (auto dest!: mem_put_row)
    then show ?thesis
      using assms(5) unique alert_changed(3,4) alert_change_fixed(1) [OF alert_changed(4)] by metis
  qed (use assms(4,5) unique in \<open>auto simp: set_delete_rows\<close>)
qed

lemma step_keeps_alerts:
  assumes "lstep sv ev d d'" and "ev \<noteq> Dropped"
  shows "al_id ` set (alerts d) \<subseteq> al_id ` set (alerts d')"
  using assms
proof (cases rule: lstep.cases)
  case (alert_changed r r')
  moreover have "al_id ` set (put_row al_id r' (alerts d)) = al_id ` set (alerts d)"
    by (rule keys_put_row)
  ultimately show ?thesis
    by simp
qed auto

lemma steps_alert:
  assumes "lsteps sv evs d d'" and "Dropped \<notin> set evs" and "keys_ok d"
    and "r \<in> set (alerts d)" and "r' \<in> set (alerts d')" and "al_id r' = al_id r"
  shows "alert_evolves r r'"
  using assms
proof (induction arbitrary: r rule: lsteps.induct)
  case (none d)
  then show ?case
    by (auto simp: keys_ok_def distinct_map inj_on_def alert_evolves_refl)
next
  case (more ev d d' evs d'')
  then obtain s where s: "s \<in> set (alerts d')" "al_id s = al_id r"
    using step_keeps_alerts [OF more.hyps(1)] by force
  then have "alert_evolves r s"
    using step_alert [OF more.hyps(1) more.prems(2,3)] alert_change_evolves alert_evolves_refl by blast
  moreover have "alert_evolves s r'"
    using more.IH [OF _ keys_ok_step [OF more.hyps(1) more.prems(2)] s(1)] more.prems s(2) by simp
  ultimately show ?case
    by (rule alert_evolves_trans)
qed

text \<open>The same for paths that only drop alerts: an identifier is not given to another alert.\<close>

lemma step_adds_no_alert:
  assumes "lstep sv ev d d'" and "ev \<in> {Quiet, Dropped}"
  shows "al_id ` set (alerts d') \<subseteq> al_id ` set (alerts d)"
  using assms
proof (cases rule: lstep.cases)
  case (alert_changed r r')
  then show ?thesis
    using keys_put_row [of al_id r' "alerts d"] by simp
qed (use assms(2) in \<open>auto simp: set_delete_rows\<close>)

lemma steps_add_no_alert:
  "lsteps sv evs d d' \<Longrightarrow> set evs \<subseteq> {Quiet, Dropped} \<Longrightarrow> al_id ` set (alerts d') \<subseteq> al_id ` set (alerts d)"
proof (induction rule: lsteps.induct)
  case (more ev d d' evs d'')
  have "ev \<in> {Quiet, Dropped}" and "set evs \<subseteq> {Quiet, Dropped}"
    using more.prems by simp_all
  from more.IH [OF this(2)] step_adds_no_alert [OF more.hyps(1) this(1)]
  show ?case
    by (rule subset_trans)
qed simp

lemma steps_alert_shrink:
  assumes "lsteps sv evs d d'" and "set evs \<subseteq> {Quiet, Dropped}" and "keys_ok d"
    and "r \<in> set (alerts d)" and "r' \<in> set (alerts d')" and "al_id r' = al_id r"
  shows "alert_evolves r r'"
  using assms
proof (induction arbitrary: r rule: lsteps.induct)
  case (none d)
  then show ?case
    by (auto simp: keys_ok_def distinct_map inj_on_def alert_evolves_refl)
next
  case (more ev d d' evs d'')
  have "al_id r' \<in> al_id ` set (alerts d')"
    using steps_add_no_alert [OF more.hyps(2)] more.prems(1,4) by force
  then obtain s where s: "s \<in> set (alerts d')" "al_id s = al_id r"
    using more.prems(5) by auto
  then have "alert_evolves r s"
    using step_alert [OF more.hyps(1) more.prems(2,3)] alert_change_evolves alert_evolves_refl by blast
  moreover have "alert_evolves s r'"
    using more.IH [OF _ keys_ok_step [OF more.hyps(1) more.prems(2)] s(1)] more.prems s(2) by simp
  ultimately show ?case
    by (rule alert_evolves_trans)
qed

text \<open>
  An audit row keeps what it records; its status moves once, from dispatched to executed or
  failed, and a terminal row is frozen.
\<close>

definition action_evolves :: "action_row \<Rightarrow> action_row \<Rightarrow> bool" where
  "action_evolves x x' \<longleftrightarrow>
     x' = x \<or> (ac_status x = DISPATCHED \<and> ac_status x' \<in> {EXECUTED, FAILED} \<and>
       (\<exists>st reason t. x' = x\<lparr>ac_status := st, ac_reason := reason, ac_completed_at := Some t\<rparr>))"

lemma step_action:
  assumes "lstep sv ev d d'" and "keys_ok d" and "x \<in> set (actions d)" and "x' \<in> set (actions d')"
    and "ac_id x' = ac_id x"
  shows "action_evolves x x'"
proof -
  have unique: "y = x" if "y \<in> set (actions d)" "ac_id y = ac_id x" for y
    using assms(2,3) that by (auto simp: keys_ok_def distinct_map inj_on_def)
  from assms(1) show ?thesis
  proof (cases rule: lstep.cases)
    case (action_decided eng a t pb i reason row)
    then show ?thesis
      using assms(3,4,5) unique by (auto simp: new_action_def action_evolves_def)
  next
    case (action_finished y st t reason)
    let ?y = "y\<lparr>ac_status := st, ac_reason := reason, ac_completed_at := Some t\<rparr>"
    have "x' = ?y \<or> x' \<in> set (actions d)"
      using assms(4) action_finished(2) by (auto dest!: mem_put_row)
    then show ?thesis
    proof
      assume x': "x' = ?y"
      then have "y = x"
        using unique [OF action_finished(3)] assms(5) by simp
      then show ?thesis
        using action_finished(4,5) x' unfolding action_evolves_def by auto
    qed (use unique assms(5) in \<open>auto simp: action_evolves_def\<close>)
  qed (use assms(4,5) unique in \<open>auto simp: set_delete_rows action_evolves_def\<close>)
qed

end
