(* ===== verification/Alert_Refinement.thy ===== *)
theory Alert_Refinement
  imports Lifecycle_Safety
begin

text \<open>
  The alerting service implements the lifecycle specification: whatever the database does, a run
  of \<open>evaluate_and_apply\<close> or \<open>acknowledge\<close> moves the tables along a path of specified steps and
  sends that path's messages. The rules follow the calls of \<open>collector/services/alerting.py\<close>.
\<close>

lemma row_at_own: "db_inv sv d \<Longrightarrow> r \<in> set (alerts d) \<Longrightarrow> row_at al_id (al_id r) (alerts d) = Some r"
  by (intro row_at_mem) (auto simp: db_inv_def keys_ok_def)

lemma mem_put_own: "r \<in> set rows \<Longrightarrow> key r' = key r \<Longrightarrow> r' \<in> set (put_row key r' rows)"
  by (force simp: put_row_def)

lemma old_enough_record [simp]: "old_enough x t (alert_to_record r) = old_enough x t r"
  by (simp add: old_enough_def)

text \<open>What a step needs to be a refinement from a world that satisfies the invariant.\<close>

lemma refines_inv: "refines e sv P w w' \<Longrightarrow> db_inv sv (tables w) \<Longrightarrow> db_inv sv (tables w')"
  by (rule db_inv_refines)

lemma changed_refines:
  assumes "r \<in> set (alerts (tables w))" and "alert_change sv r r'"
    and "al_remediated_at r' \<noteq> al_remediated_at r \<Longrightarrow>
        \<exists>x \<in> set (actions (tables w)). ac_alert_id x = al_id r \<and> al_remediated_at r' = Some (ac_created_at x)"
    and "tables w' = (tables w)\<lparr>alerts := put_row al_id r' (alerts (tables w))\<rparr>"
    and "outbox w' = outbox w @ messages e (sv_notifier sv) [event_of r r']"
  shows "refines e sv no_drop w w'"
  using lstep.alert_changed [OF assms(1,2,3)] assms(4,5)
  by (intro refines_step [of sv "event_of r r'"]) (auto simp: event_of_def split: if_splits)

text \<open>The four updates a service makes on a row it has just read.\<close>

lemma own_change_rule:
  assumes "\<And>r. al_id (f r) = al_id r" and "db_inv sv (tables w)" and "r \<in> set (alerts (tables w))"
    and "\<And>x w'. same_data w w' \<Longrightarrow> E (PersistenceError x) w'"
    and "\<And>w'. tables w' = (tables w)\<lparr>alerts := put_row al_id (f r) (alerts (tables w))\<rparr> \<Longrightarrow>
           outbox w' = outbox w \<Longrightarrow> f r \<in> set (alerts (tables w')) \<Longrightarrow> Q (alert_to_record (f r)) w'"
  shows "wp (seq (alert_get_or_raise e (al_id r) msg) (\<lambda>row. alert_commit_and_return e (f row) msg)) Q E w"
proof -
  have "f r \<in> set (put_row al_id (f r) (alerts (tables w)))"
    using assms(1,3) by (rule mem_put_own [rotated])
  then show ?thesis
    by (intro alert_change_rule) (use assms row_at_own [OF assms(2,3)] in auto)
qed

lemmas own_advance_rule = own_change_rule
  [where f = "\<lambda>r. r\<lparr>al_triggering_value := v, al_last_fired_at := t\<rparr>"
      and msg = "''failed to advance alert''" for v t, folded update_last_fired_def, simplified]

lemmas own_resolve_rule = own_change_rule
  [where f = "\<lambda>r. r\<lparr>al_status := RESOLVED, al_resolved_at := Some t\<rparr>"
      and msg = "''failed to resolve alert''" for t, folded resolve_alert_def, simplified]

lemmas own_escalate_rule = own_change_rule
  [where f = "\<lambda>r. r\<lparr>al_escalated_at := Some t\<rparr>"
      and msg = "''failed to escalate alert''" for t, folded escalate_alert_def, simplified]

lemmas own_remediate_rule = own_change_rule
  [where f = "\<lambda>r. r\<lparr>al_remediated_at := Some t\<rparr>"
      and msg = "''failed to mark alert remediated''" for t, folded mark_remediated_def, simplified]

text \<open>The record a service method works on: the stored row, firing, of a configured rule.\<close>

definition current :: "alert_service \<Rightarrow> world \<Rightarrow> alert_row \<Rightarrow> bool" where
  "current sv w r \<longleftrightarrow> db_inv sv (tables w) \<and> r \<in> set (alerts (tables w)) \<and>
     al_status r = FIRING \<and> engine_key (al_rule_key r)"

lemma should_escalate_ok:
  "should_escalate sv (alert_to_record r) t = Inr b \<Longrightarrow> al_status r = FIRING \<Longrightarrow>
   b \<longleftrightarrow> unattended r \<and> al_escalated_at r = None \<and> old_enough (sv_escalation_after_seconds sv) t r"
  by (auto simp: should_escalate_def dt_sub_def unattended_def old_enough_def split: if_splits)

lemma should_remediate_ok:
  "should_remediate sv (alert_to_record r) t = Inr b \<Longrightarrow> al_status r = FIRING \<Longrightarrow>
   b \<longleftrightarrow> sv_remediation_engine sv \<noteq> None \<and> unattended r \<and> al_remediated_at r = None \<and>
     old_enough (sv_remediation_after_seconds sv) t r"
  by (auto simp: should_remediate_def dt_sub_def unattended_def old_enough_def split: if_splits)

lemma maybe_escalate_rule:
  assumes cur: "current sv w r"
    and E: "\<And>x w'. refines e sv no_drop w w' \<Longrightarrow> E x w'"
    and Q: "\<And>r' w'. refines e sv no_drop w w' \<Longrightarrow> current sv w' r' \<Longrightarrow>
        al_id r' = al_id r \<Longrightarrow> al_node_id r' = al_node_id r \<Longrightarrow> al_rule_key r' = al_rule_key r \<Longrightarrow>
        (unattended r' \<and> old_enough (sv_escalation_after_seconds sv) t r' \<longrightarrow> al_escalated_at r' \<noteq> None) \<Longrightarrow>
        Q (alert_to_record r') w'"
  shows "wp (maybe_escalate e sv t (alert_to_record r)) Q E w"
proof (cases "should_escalate sv (alert_to_record r) t")
  case (Inl x)
  then show ?thesis
    by (simp add: maybe_escalate_def wp_simps E refines_refl)
next
  case (Inr b)
  note b = should_escalate_ok [OF Inr]
  have fire: "al_status r = FIRING" and mem: "r \<in> set (alerts (tables w))" and inv: "db_inv sv (tables w)"
    using cur by (auto simp: current_def)
  show ?thesis
  proof (cases b)
    case False
    then have "Q (alert_to_record r) w"
      using b fire cur by (intro Q refines_refl) auto
    then show ?thesis
      using Inr False by (simp add: maybe_escalate_def wp_simps)
  next
    case True
    let ?r = "r\<lparr>al_escalated_at := Some t\<rparr>"
    have change: "alert_change sv r ?r"
      using b True fire cur by (intro alert_change.escalate) (auto simp: current_def)
    have "wp (escalate_alert e (al_id r) t)
        (\<lambda>v. wp (seq (notify e (sv_notifier sv) (format_escalated v)) (\<lambda>_. ret v)) Q E) E w"
    proof (rule own_escalate_rule [OF inv mem])
      fix w' :: world
      assume w': "tables w' = (tables w)\<lparr>alerts := put_row al_id ?r (alerts (tables w))\<rparr>"
          "outbox w' = outbox w" "?r \<in> set (alerts (tables w'))"
      let ?w = "w'\<lparr>outbox := outbox w' @ posted (sv_notifier sv) (format_escalated ?r)\<rparr>"
      have ref: "refines e sv no_drop w ?w"
        by (rule changed_refines [OF mem change]) (use w' b True fire in \<open>auto simp: event_of_def\<close>)
      have "current sv ?w ?r"
        using refines_inv [OF ref inv] cur w'(3) by (simp add: current_def)
      then have "Q (alert_to_record ?r) ?w"
        using ref by (intro Q) auto
      then show "wp (seq (notify e (sv_notifier sv) (format_escalated (alert_to_record ?r)))
            (\<lambda>_. ret (alert_to_record ?r))) Q E w'"
        by (simp add: wp_simps)
    qed (auto intro: E refines_refl)
    then show ?thesis
      using Inr True by (simp add: maybe_escalate_def wp_simps)
  qed
qed

text \<open>
  Remediation. The escalation that precedes it in the same call is what makes the alert escalated
  whenever it is remediated, under ordered delays.
\<close>

lemma may_remediateI:
  assumes "current sv w r" and "should_remediate sv (alert_to_record r) t = Inr True"
    and "unattended r \<and> old_enough (sv_escalation_after_seconds sv) t r \<longrightarrow> al_escalated_at r \<noteq> None"
  shows "may_remediate sv t r"
  using should_remediate_ok [OF assms(2)] assms(1,3)
  by (auto simp: may_remediate_def current_def old_enough_def intro: fle_trans)

lemma decided_refines:
  assumes "current sv w r" and "may_remediate sv t r" and "sv_remediation_engine sv = Some eng"
    and "en_enabled eng" and "en_by_rule_key eng (al_rule_key r) = Some pb"
    and "al_node_id r \<in> nd_node_id ` set (nodes (tables w))" and "i \<notin> ac_id ` set (actions (tables w))"
    and "reason = None \<longleftrightarrow> safe_to_dispatch eng (al_node_id r) (pb_playbook_name pb) t (actions (tables w))"
    and "row = new_action i (al_node_id r) (al_id r) (al_rule_key r) (pb_playbook_name pb)
             (pb_action_type pb) (pb_parameters pb)
             (if reason = None then DISPATCHED else BLOCKED_BY_SAFETY_LIMIT) reason t"
    and "tables w' = (tables w)\<lparr>actions := actions (tables w) @ [row]\<rparr>" and "outbox w' = outbox w"
  shows "refines e sv no_drop w w'"
proof (rule refines_step [of sv Quiet])
  have "r \<in> set (alerts (tables w))"
    using assms(1) by (simp add: current_def)
  from lstep.action_decided [OF assms(3,4) this assms(2,5-9)]
  show "lstep sv Quiet (tables w) (tables w')"
    by (simp add: assms(10))
qed (simp_all add: assms(11))

lemma mark_remediated_refines:
  assumes cur: "current sv w r" and may: "may_remediate sv t r"
    and x: "x \<in> set (actions (tables w))" "ac_alert_id x = al_id r" "ac_created_at x = t"
    and E: "\<And>y w'. refines e sv no_drop w w' \<Longrightarrow> E y w'"
    and Q: "\<And>w' v. refines e sv no_drop w w' \<Longrightarrow> Q v w'"
  shows "wp (mark_remediated e (al_id r) t) Q E w"
proof (rule own_remediate_rule)
  show "db_inv sv (tables w)" and mem: "r \<in> set (alerts (tables w))"
    using cur by (auto simp: current_def)
  fix w' :: world
  assume "tables w' = (tables w)\<lparr>alerts := put_row al_id (r\<lparr>al_remediated_at := Some t\<rparr>) (alerts (tables w))\<rparr>"
    and "outbox w' = outbox w"
  then have "refines e sv no_drop w w'"
    by (intro changed_refines [OF mem alert_change.remediate [OF may]]) (use x in \<open>auto simp: event_of_def\<close>)
  then show "Q (alert_to_record (r\<lparr>al_remediated_at := Some t\<rparr>)) w'"
    by (rule Q)
qed (auto intro: E refines_refl)

lemma maybe_remediate_rule:
  assumes cur: "current sv w r" and key: "rr_rule_key result = al_rule_key r"
    and esc: "unattended r \<and> old_enough (sv_escalation_after_seconds sv) t r \<longrightarrow> al_escalated_at r \<noteq> None"
    and E: "\<And>x w'. refines e sv no_drop w w' \<Longrightarrow> E x w'"
    and Q: "\<And>w' v. refines e sv no_drop w w' \<Longrightarrow> Q v w'"
  shows "wp (maybe_remediate e sv (al_node_id r) result t (alert_to_record r)) Q E w"
proof (cases "should_remediate sv (alert_to_record r) t = Inr True")
  case False
  then show ?thesis
    by (cases "should_remediate sv (alert_to_record r) t")
      (auto simp: maybe_remediate_def wp_simps intro!: E Q refines_refl)
next
  case True
  note may = may_remediateI [OF cur True esc]
  obtain eng where eng: "sv_remediation_engine sv = Some eng"
    using True by (auto simp: should_remediate_def split: if_splits)
  have "wp (decide (sql_action_repository e) eng (al_node_id r) (al_id r) (al_rule_key r) t)
     (\<lambda>v. wp (case v of None \<Rightarrow> ret (alert_to_record r, None)
           | Some dec \<Rightarrow> seq (mark_remediated e (al_id r) t) (\<lambda>updated.
               ret (updated, if ac_status dec = DISPATCHED then Some dec else None))) Q E) E w"
  proof (rule sql_log.decide_rule)
    fix pb i reason status row and w' :: world
    assume dec: "en_enabled eng" "en_by_rule_key eng (al_rule_key r) = Some pb"
      "i \<notin> ac_id ` set (actions (tables w))"
      "reason = None \<longleftrightarrow> safe_to_dispatch eng (al_node_id r) (pb_playbook_name pb) t (actions (tables w))"
      "status = (if reason = None then DISPATCHED else BLOCKED_BY_SAFETY_LIMIT)"
      "row = new_action i (al_node_id r) (al_id r) (al_rule_key r) (pb_playbook_name pb)
               (pb_action_type pb) (pb_parameters pb) status reason t"
      "al_node_id r \<in> nd_node_id ` set (nodes (tables w))" "al_id r \<in> al_id ` set (alerts (tables w))"
      "tables w' = (tables w)\<lparr>actions := actions (tables w) @ [row]\<rparr>" "outbox w' = outbox w"
    have ref: "refines e sv no_drop w w'"
      by (rule decided_refines [OF cur may eng dec(1,2,7,3,4)]) (use dec in auto)
    have cur': "current sv w' r"
      using cur refines_inv [OF ref] dec(9) by (simp add: current_def)
    have "wp (mark_remediated e (al_id r) t) (\<lambda>v. Q (v, if status = DISPATCHED then Some (action_to_record row) else None)) E w'"
      by (rule mark_remediated_refines [OF cur' may, of row])
        (use dec in \<open>auto simp: new_action_def intro: E Q refines_trans [OF ref]\<close>)
    then show "wp (case Some (action_to_record row) of None \<Rightarrow> ret (alert_to_record r, None)
           | Some dec \<Rightarrow> seq (mark_remediated e (al_id r) t) (\<lambda>updated.
               ret (updated, if ac_status dec = DISPATCHED then Some dec else None))) Q E w'"
      using dec(6) by (cases "status = DISPATCHED") (simp_all add: wp_simps new_action_def)
  qed (auto intro: E Q refines_refl simp: wp_simps)
  then show ?thesis
    using True eng key by (simp add: maybe_remediate_def wp_simps)
qed

text \<open>Opening and resolving.\<close>

lemma create_notify_refines:
  assumes "filter (is_open n k) (alerts (tables w)) = []" and "kind = STALENESS \<longrightarrow> \<not> engine_key k"
    and E: "\<And>x w'. refines e sv no_drop w w' \<Longrightarrow> E x w'"
    and Q: "\<And>w' v. refines e sv no_drop w w' \<Longrightarrow> Q v w'"
  shows "wp (seq (create_alert e n k kind sev descr v b t) (\<lambda>record.
           seq (notify e (sv_notifier sv) (format_opened e record)) (\<lambda>_. ret record))) Q E w"
  unfolding wp_seq
proof (rule create_alert_rule)
  fix row and w' :: world
  assume row: "row = new_alert (next_id e (stmts w) (map al_id (alerts (tables w)))) n k kind sev descr v b t"
    and node: "n \<in> nd_node_id ` set (nodes (tables w))"
    and w': "tables w' = (tables w)\<lparr>alerts := alerts (tables w) @ [row]\<rparr>" "outbox w' = outbox w"
  have "lstep sv (Opened row) (tables w) (tables w')"
    unfolding w'(1) by (rule lstep.alert_opened [OF _ node assms(1,2) row]) simp
  then have "refines e sv no_drop w (w'\<lparr>outbox := outbox w' @ posted (sv_notifier sv) (format_opened e row)\<rparr>)"
    by (intro refines_step [of sv "Opened row"]) (use w' in auto)
  then show "wp (notify e (sv_notifier sv) (format_opened e (alert_to_record row)))
      (\<lambda>_. wp (ret (alert_to_record row)) Q E) E w'"
    by (simp add: wp_simps Q)
qed (auto intro: E refines_refl)

lemma resolve_refines:
  assumes "db_inv sv (tables w)" and mem: "r \<in> set (alerts (tables w))" and fire: "al_status r = FIRING"
    and E: "\<And>x w'. refines e sv no_drop w w' \<Longrightarrow> E x w'"
    and Q: "\<And>w' v. refines e sv no_drop w w' \<Longrightarrow> Q v w'"
  shows "wp (seq (resolve_alert e (al_id r) t) (\<lambda>record.
           seq (notify e (sv_notifier sv) (format_resolved record)) (\<lambda>_. ret record))) Q E w"
  unfolding wp_seq
proof (rule own_resolve_rule [OF assms(1) mem])
  let ?r = "r\<lparr>al_status := RESOLVED, al_resolved_at := Some t\<rparr>"
  fix w' :: world
  assume "tables w' = (tables w)\<lparr>alerts := put_row al_id ?r (alerts (tables w))\<rparr>" "outbox w' = outbox w"
  then have "refines e sv no_drop w (w'\<lparr>outbox := outbox w' @ posted (sv_notifier sv) (format_resolved ?r)\<rparr>)"
    by (intro changed_refines [OF mem alert_change.resolve [OF fire]]) (use fire in \<open>auto simp: event_of_def\<close>)
  then show "wp (notify e (sv_notifier sv) (format_resolved (alert_to_record ?r)))
      (\<lambda>_. wp (ret (alert_to_record ?r)) Q E) E w'"
    by (simp add: wp_simps Q)
qed (auto intro: E refines_refl)

text \<open>A breach, and the application of one result.\<close>

lemma advance_refines:
  assumes cur: "current sv w r" and key: "rr_rule_key result = al_rule_key r"
    and E: "\<And>x w'. refines e sv no_drop w w' \<Longrightarrow> E x w'"
    and Q: "\<And>w' v. refines e sv no_drop w w' \<Longrightarrow> Q v w'"
  shows "wp (open_or_advance e sv (al_node_id r) result t (Some (alert_to_record r))) Q E w"
  unfolding open_or_advance_def option.case wp_seq alert_to_record_simps(1)
proof (rule own_advance_rule)
  show inv: "db_inv sv (tables w)" and mem: "r \<in> set (alerts (tables w))"
    using cur by (auto simp: current_def)
  let ?r = "r\<lparr>al_triggering_value := rr_value result, al_last_fired_at := t\<rparr>"
  fix w' :: world
  assume w': "tables w' = (tables w)\<lparr>alerts := put_row al_id ?r (alerts (tables w))\<rparr>" "outbox w' = outbox w"
    and mem': "?r \<in> set (alerts (tables w'))"
  have "alert_change sv r ?r"
    using cur by (intro alert_change.advance) (simp add: current_def)
  then have ref: "refines e sv no_drop w w'"
    by (intro changed_refines [OF mem]) (use w' in \<open>auto simp: event_of_def\<close>)
  have cur': "current sv w' ?r"
    using refines_inv [OF ref inv] cur mem' by (simp add: current_def)
  show "wp (maybe_escalate e sv t (alert_to_record ?r))
      (\<lambda>v. wp (maybe_remediate e sv (al_node_id r) result t v) Q E) E w'"
  proof (rule maybe_escalate_rule [OF cur'])
    fix r' and w'' :: world
    assume ref': "refines e sv no_drop w' w''" and cur'': "current sv w'' r'"
      and same: "al_node_id r' = al_node_id ?r" "al_rule_key r' = al_rule_key ?r"
      and esc: "unattended r' \<and> old_enough (sv_escalation_after_seconds sv) t r' \<longrightarrow> al_escalated_at r' \<noteq> None"
    have "wp (maybe_remediate e sv (al_node_id r') result t (alert_to_record r')) Q E w''"
      by (rule maybe_remediate_rule [OF cur'' _ esc])
        (use key same in \<open>auto intro: E Q refines_trans [OF ref] refines_trans [OF ref']\<close>)
    then show "wp (maybe_remediate e sv (al_node_id r) result t (alert_to_record r')) Q E w''"
      using same by simp
  qed (auto intro: E refines_trans [OF ref])
qed (auto intro: E refines_refl)

lemma apply_result_refines:
  assumes inv: "db_inv sv (tables w)" and key: "engine_result result"
  shows "wp (apply_result e sv n t result) (\<lambda>_. refines e sv no_drop w) (\<lambda>_. refines e sv no_drop w) w"
  unfolding apply_result_def wp_seq
proof (rule find_open_alert_rule)
  fix w'
  assume same: "same_data w w'" and none: "filter (is_open n (rr_rule_key result)) (alerts (tables w)) = []"
  have ref: "refines e sv no_drop w w'"
    using same by (rule refines_refl)
  have "wp (open_alert e sv n result t) (\<lambda>_. refines e sv no_drop w) (\<lambda>_. refines e sv no_drop w) w'"
    unfolding open_alert_def
    by (rule create_notify_refines)
      (use none same key in \<open>auto simp: same_data_def engine_result_def engine_key_def intro: refines_trans [OF ref]\<close>)
  then show "wp (if rr_breached result then seq (open_or_advance e sv n result t None) (\<lambda>(record, dispatched).
        ret (Some (to_view record), dispatched)) else case None of None \<Rightarrow> ret (None, None) | Some a \<Rightarrow>
        seq (resolve e sv t a) (\<lambda>resolved. ret (Some (to_view resolved), None)))
      (\<lambda>_. refines e sv no_drop w) (\<lambda>_. refines e sv no_drop w) w'"
    using ref by (simp add: open_or_advance_def wp_simps)
next
  fix r w'
  assume same: "same_data w w'" and r: "r \<in> set (alerts (tables w))" "is_open n (rr_rule_key result) r"
  have ref: "refines e sv no_drop w w'"
    using same by (rule refines_refl)
  have cur: "current sv w' r"
    using same r inv key by (auto simp: current_def same_data_def is_open_def engine_result_def engine_key_def)
  have "n = al_node_id r"
    using r(2) by (simp add: is_open_def)
  then have "wp (open_or_advance e sv n result t (Some (alert_to_record r)))
      (\<lambda>_. refines e sv no_drop w) (\<lambda>_. refines e sv no_drop w) w'"
    unfolding \<open>n = al_node_id r\<close>
    by (intro advance_refines [OF cur]) (use r(2) in \<open>auto simp: is_open_def intro: refines_trans [OF ref]\<close>)
  moreover have "wp (resolve e sv t (alert_to_record r))
      (\<lambda>_. refines e sv no_drop w) (\<lambda>_. refines e sv no_drop w) w'"
    unfolding resolve_def alert_to_record_simps(1)
    by (rule resolve_refines) (use cur in \<open>auto simp: current_def intro: refines_trans [OF ref]\<close>)
  ultimately show "wp (if rr_breached result then seq (open_or_advance e sv n result t (Some (alert_to_record r)))
        (\<lambda>(record, dispatched). ret (Some (to_view record), dispatched))
      else case Some (alert_to_record r) of None \<Rightarrow> ret (None, None) | Some a \<Rightarrow>
        seq (resolve e sv t a) (\<lambda>resolved. ret (Some (to_view resolved), None)))
      (\<lambda>_. refines e sv no_drop w) (\<lambda>_. refines e sv no_drop w) w'"
    by (simp add: wp_simps split_beta)
qed (rule refines_refl)

text \<open>The whole evaluation of a payload, and the acknowledgement.\<close>

definition keeps_inv :: "env \<Rightarrow> alert_service \<Rightarrow> event set \<Rightarrow> world \<Rightarrow> world \<Rightarrow> bool" where
  "keeps_inv e sv P w w' \<longleftrightarrow> (db_inv sv (tables w) \<longrightarrow> refines e sv P w w' \<and> db_inv sv (tables w'))"

lemma keeps_inv_refl: "keeps_inv e sv P w w"
  by (simp add: keeps_inv_def refines_refl)

lemma keeps_inv_same: "same_data w w' \<Longrightarrow> keeps_inv e sv P w w'"
  by (auto simp: keeps_inv_def refines_refl same_data_def)

lemma keeps_inv_trans: "keeps_inv e sv P u v \<Longrightarrow> keeps_inv e sv P v w \<Longrightarrow> keeps_inv e sv P u w"
  by (auto simp: keeps_inv_def intro: refines_trans)

lemma keeps_invI: "(db_inv sv (tables w) \<Longrightarrow> refines e sv P w w') \<Longrightarrow> keeps_inv e sv P w w'"
  by (auto simp: keeps_inv_def intro: refines_inv)

lemma wp_keeps_invI:
  "(db_inv sv (tables w) \<Longrightarrow> wp m (\<lambda>_. refines e sv P w) (\<lambda>_. refines e sv P w) w) \<Longrightarrow>
   wp m (\<lambda>_. keeps_inv e sv P w) (\<lambda>_. keeps_inv e sv P w) w"
  unfolding wp_state by (rule keeps_invI)

text \<open>A sequence of two runs that keep to the specification keeps to it.\<close>

lemma wp_seq_keeps:
  assumes "wp m (\<lambda>v w'. keeps_inv e sv P w w' \<and> R v w') (\<lambda>_. keeps_inv e sv P w) w"
    and "\<And>v w'. R v w' \<Longrightarrow> wp (f v) (\<lambda>_. keeps_inv e sv P w') (\<lambda>_. keeps_inv e sv P w') w'"
  shows "wp (seq m f) (\<lambda>_. keeps_inv e sv P w) (\<lambda>_. keeps_inv e sv P w) w"
  unfolding wp_seq
proof (rule wp_mono [OF assms(1)])
  fix v w'
  assume "keeps_inv e sv P w w' \<and> R v w'"
  then show "wp (f v) (\<lambda>_. keeps_inv e sv P w) (\<lambda>_. keeps_inv e sv P w) w'"
    by (auto intro: wp_mono [OF assms(2)] keeps_inv_trans)
qed

lemma wp_for_each_keeps:
  assumes "\<And>x w. x \<in> set xs \<Longrightarrow> wp (f x) (\<lambda>_. keeps_inv e sv P w) (\<lambda>_. keeps_inv e sv P w) w"
  shows "wp (for_each f xs) (\<lambda>_. keeps_inv e sv P w) (\<lambda>_. keeps_inv e sv P w) w"
  by (rule wp_for_each_rel) (rule keeps_inv_refl, erule (1) keeps_inv_trans, erule assms)

lemma evaluate_and_apply_keeps:
  "wp (evaluate_and_apply e sv n ss t) (\<lambda>_. keeps_inv e sv no_drop w) (\<lambda>_. keeps_inv e sv no_drop w) w"
  unfolding evaluate_and_apply_def
proof (rule wp_seq_keeps [where R = "\<lambda>rs _. \<forall>r \<in> set rs. engine_result r"])
  show "wp (evaluate e (sv_rule_engine sv) n ss t)
      (\<lambda>rs w'. keeps_inv e sv no_drop w w' \<and> (\<forall>r \<in> set rs. engine_result r))
      (\<lambda>_. keeps_inv e sv no_drop w) w"
    by (rule wp_mono [OF evaluate_rule]) (auto intro: keeps_inv_same)
next
  fix results and w' :: world
  assume "\<forall>r \<in> set results. engine_result r"
  then have "wp (for_each (apply_result e sv n t) results)
      (\<lambda>_. keeps_inv e sv no_drop w') (\<lambda>_. keeps_inv e sv no_drop w') w'"
    by (intro wp_for_each_keeps wp_keeps_invI apply_result_refines) auto
  then show "wp (seq (for_each (apply_result e sv n t) results) (\<lambda>outs.
        ret \<lparr>eo_transitions = List.map_filter fst outs, eo_dispatched_actions = List.map_filter snd outs\<rparr>))
      (\<lambda>_. keeps_inv e sv no_drop w') (\<lambda>_. keeps_inv e sv no_drop w') w'"
    by (simp add: wp_simps)
qed

lemma acknowledge_keeps:
  "wp (acknowledge e i b t) (\<lambda>_. keeps_inv e sv no_drop w) (\<lambda>_. keeps_inv e sv no_drop w) w"
proof (rule wp_keeps_invI)
  assume inv: "db_inv sv (tables w)"
  show "wp (acknowledge e i b t) (\<lambda>_. refines e sv no_drop w) (\<lambda>_. refines e sv no_drop w) w"
    unfolding acknowledge_def get_alert_def wp_seq
  proof (rule alert_get_rule)
    fix w'
    assume same: "same_data w w'"
    have "wp (acknowledge_alert e i b t) (\<lambda>_. refines e sv no_drop w) (\<lambda>_. refines e sv no_drop w) w'"
      if fire: "al_status r \<noteq> RESOLVED" and row: "row_at al_id i (alerts (tables w)) = Some r" for r
    proof (rule acknowledge_alert_rule)
      fix r0 and w'' :: world
      assume r0: "row_at al_id i (alerts (tables w')) = Some r0" and w'': "tables w'' = (tables w')\<lparr>alerts :=
          put_row al_id (r0\<lparr>al_acknowledged_by := Some b, al_acknowledged_at := Some t\<rparr>) (alerts (tables w'))\<rparr>"
          "outbox w'' = outbox w'"
      have "r0 = r" "r \<in> set (alerts (tables w))" "al_status r = FIRING"
        using r0 row same fire row_at_SomeD [OF row] by (auto simp: same_data_def intro: alert_status.exhaust)
      then show "refines e sv no_drop w w''"
        by (intro changed_refines [of r, OF _ alert_change.acknowledge [of r sv t b]])
          (use w'' same in \<open>auto simp: same_data_def event_of_def\<close>)
    qed (auto intro: refines_refl same_data_trans [OF same])
    then show "wp (case map_option alert_to_record (row_at al_id i (alerts (tables w))) of
          None \<Rightarrow> raise (AlertNotFoundError (''alert '' @ show_int i @ '' does not exist''))
        | Some r \<Rightarrow> ret (to_view r))
      (\<lambda>v. wp (if al_status v = RESOLVED
            then raise (AlertAlreadyResolvedError (''alert '' @ show_int i @ '' is already resolved''))
            else seq (acknowledge_alert e i b t) (\<lambda>updated. ret (to_view updated)))
          (\<lambda>_. refines e sv no_drop w) (\<lambda>_. refines e sv no_drop w))
      (\<lambda>_. refines e sv no_drop w) w'"
      using refines_refl [OF same, of e sv no_drop] by (auto simp: wp_simps split: option.splits)
  qed (rule refines_refl)
qed

text \<open>What acknowledging does, on every branch.\<close>

lemma acknowledge_rule:
  "wp (acknowledge e i b t)
     (\<lambda>v w'. \<exists>r. row_at al_id i (alerts (tables w)) = Some r \<and> al_status r = FIRING \<and>
        v = alert_to_record (r\<lparr>al_acknowledged_by := Some b, al_acknowledged_at := Some t\<rparr>) \<and>
        tables w' = (tables w)\<lparr>alerts := put_row al_id
          (r\<lparr>al_acknowledged_by := Some b, al_acknowledged_at := Some t\<rparr>) (alerts (tables w))\<rparr> \<and>
        outbox w' = outbox w)
     (\<lambda>x w'. same_data w w' \<and> ((\<not> no_faults e \<and> (\<exists>m. x = PersistenceError m)) \<or>
         (row_at al_id i (alerts (tables w)) = None \<and> (\<exists>m. x = AlertNotFoundError m)) \<or>
         (\<exists>r. row_at al_id i (alerts (tables w)) = Some r \<and> al_status r = RESOLVED \<and>
            (\<exists>m. x = AlertAlreadyResolvedError m)))) w"
  unfolding acknowledge_def get_alert_def wp_seq
proof (rule alert_get_rule)
  fix w'
  assume same: "same_data w w'"
  have fire: "al_status r = FIRING" if "al_status r \<noteq> RESOLVED" for r :: alert_row
    using that by (cases "al_status r") auto
  show "wp (case map_option alert_to_record (row_at al_id i (alerts (tables w))) of
          None \<Rightarrow> raise (AlertNotFoundError (''alert '' @ show_int i @ '' does not exist''))
        | Some r \<Rightarrow> ret (to_view r))
      (\<lambda>v. wp (if al_status v = RESOLVED
            then raise (AlertAlreadyResolvedError (''alert '' @ show_int i @ '' is already resolved''))
            else seq (acknowledge_alert e i b t) (\<lambda>updated. ret (to_view updated)))
     (\<lambda>v w'. \<exists>r. row_at al_id i (alerts (tables w)) = Some r \<and> al_status r = FIRING \<and>
        v = alert_to_record (r\<lparr>al_acknowledged_by := Some b, al_acknowledged_at := Some t\<rparr>) \<and>
        tables w' = (tables w)\<lparr>alerts := put_row al_id
          (r\<lparr>al_acknowledged_by := Some b, al_acknowledged_at := Some t\<rparr>) (alerts (tables w))\<rparr> \<and>
        outbox w' = outbox w)
     (\<lambda>x w'. same_data w w' \<and> ((\<not> no_faults e \<and> (\<exists>m. x = PersistenceError m)) \<or>
         (row_at al_id i (alerts (tables w)) = None \<and> (\<exists>m. x = AlertNotFoundError m)) \<or>
         (\<exists>r. row_at al_id i (alerts (tables w)) = Some r \<and> al_status r = RESOLVED \<and>
            (\<exists>m. x = AlertAlreadyResolvedError m)))))
     (\<lambda>x w'. same_data w w' \<and> ((\<not> no_faults e \<and> (\<exists>m. x = PersistenceError m)) \<or>
         (row_at al_id i (alerts (tables w)) = None \<and> (\<exists>m. x = AlertNotFoundError m)) \<or>
         (\<exists>r. row_at al_id i (alerts (tables w)) = Some r \<and> al_status r = RESOLVED \<and>
            (\<exists>m. x = AlertAlreadyResolvedError m)))) w'"
    using same fire by (auto simp: wp_simps same_data_def split: option.splits intro!: acknowledge_alert_rule)
qed simp

end
