(* ===== verification/Retention_Job.thy ===== *)
theory Retention_Job
  imports Alert_Refinement Metrics_Repository
begin

text \<open>
  \<open>collector/jobs/retention.py\<close>: bounded pruning of the audit log, of resolved alerts and of
  samples, in this order. Draining a table is a loop that may run for ever if a batch claims to
  have deleted rows and has not; it is a partial function, and the locale \<open>batch_prune\<close> says what
  of a batch makes it end and what it leaves. The three repositories provide such batches.
\<close>

subsection \<open>Computations that may not return\<close>

type_synonym ('s, 'e, 'a) pcomp = "'s \<Rightarrow> (('e + 'a) \<times> 's) option"

definition pseq :: "('s, 'e, 'a) pcomp \<Rightarrow> ('a \<Rightarrow> ('s, 'e, 'b) pcomp) \<Rightarrow> ('s, 'e, 'b) pcomp" where
  "pseq m f = (\<lambda>s. case m s of
     None \<Rightarrow> None
   | Some (Inl x, t) \<Rightarrow> Some (Inl x, t)
   | Some (Inr v, t) \<Rightarrow> f v t)"

definition total :: "('s, 'e, 'a) comp \<Rightarrow> ('s, 'e, 'a) pcomp" where
  "total m = (\<lambda>s. Some (m s))"

text \<open>\<open>preturns m R w\<close>: from \<open>w\<close> the computation returns, and its result and final state satisfy \<open>R\<close>.\<close>

definition preturns :: "('s, 'e, 'a) pcomp \<Rightarrow> ('e + 'a \<Rightarrow> 's \<Rightarrow> bool) \<Rightarrow> 's \<Rightarrow> bool" where
  "preturns m R s \<longleftrightarrow> (\<exists>r t. m s = Some (r, t) \<and> R r t)"

lemma preturns_total: "R (fst (m s)) (snd (m s)) \<Longrightarrow> preturns (total m) R s"
  by (cases "m s") (simp add: preturns_def total_def)

lemma preturns_pseq:
  assumes "preturns m R s"
    and "\<And>x t. R (Inl x) t \<Longrightarrow> Q (Inl x) t" and "\<And>v t. R (Inr v) t \<Longrightarrow> preturns (f v) Q t"
  shows "preturns (pseq m f) Q s"
proof -
  obtain r t where "m s = Some (r, t)" "R r t"
    using assms(1) by (auto simp: preturns_def)
  then show ?thesis
    using assms(2,3) by (cases r) (auto simp: preturns_def pseq_def)
qed

lemma preturns_mono: "preturns m R s \<Longrightarrow> (\<And>r t. R r t \<Longrightarrow> Q r t) \<Longrightarrow> preturns m Q s"
  by (auto simp: preturns_def)

subsection \<open>The job\<close>

partial_function (option) drain :: "(world, exn, int) comp \<Rightarrow> int \<Rightarrow> (world, exn, int) pcomp" where
  "drain prune deleted_so_far w =
     (case prune w of
        (Inl x, w') \<Rightarrow> Some (Inl x, w')
      | (Inr deleted, w') \<Rightarrow>
          if 0 < deleted then drain prune (deleted_so_far + deleted) w'
          else Some (Inr deleted_so_far, w'))"

record retention_settings =
  rs_batch_size :: int
  rs_remediation_actions_days :: int
  rs_resolved_alerts_days :: int
  rs_metrics_days :: int

record retention_stats =
  rn_actions_deleted :: int
  rn_alerts_deleted :: int
  rn_samples_deleted :: int

definition days_before :: "datetime \<Rightarrow> int \<Rightarrow> exn + datetime" where
  "days_before now days = (case timedelta_days days of Inl x \<Rightarrow> Inl x | Inr td \<Rightarrow> dt_minus now td)"

definition drain_before ::
    "(datetime \<Rightarrow> int \<Rightarrow> (world, exn, int) comp) \<Rightarrow> datetime \<Rightarrow> int \<Rightarrow> int \<Rightarrow> (world, exn, int) pcomp" where
  "drain_before prune now days batch_size =
     pseq (total (from_result (days_before now days))) (\<lambda>cutoff. drain (prune cutoff batch_size) 0)"

definition retention_run :: "env \<Rightarrow> retention_settings \<Rightarrow> datetime \<Rightarrow> (world, exn, retention_stats) pcomp" where
  "retention_run e st now =
     pseq (drain_before (prune_terminal_before e) now (rs_remediation_actions_days st) (rs_batch_size st)) (\<lambda>a.
     pseq (drain_before (prune_resolved_before e) now (rs_resolved_alerts_days st) (rs_batch_size st)) (\<lambda>b.
     pseq (drain_before (prune_samples_before e) now (rs_metrics_days st) (rs_batch_size st)) (\<lambda>c.
     total (ret \<lparr>rn_actions_deleted = a, rn_alerts_deleted = b, rn_samples_deleted = c\<rparr>))))"

subsection \<open>Batches that can be drained\<close>

text \<open>
  A batch removes some rows, all of them victims, and reports how many; it reports none only when
  no victim is left.
\<close>

locale batch_prune =
  fixes prune :: "(world, exn, int) comp"
    and ok :: "db \<Rightarrow> bool"
    and rows :: "db \<Rightarrow> 'r list"
    and put :: "'r list \<Rightarrow> db \<Rightarrow> db"
    and victim :: "'r \<Rightarrow> bool"
    and e :: env
  assumes prune_law: "ok (tables w) \<Longrightarrow>
      wp prune (\<lambda>n w'. \<exists>S. S \<subseteq> Collect victim \<and> outbox w' = outbox w \<and>
          tables w' = put (filter (\<lambda>r. r \<notin> S) (rows (tables w))) (tables w) \<and>
          n = int (length (filter (\<lambda>r. r \<in> S) (rows (tables w)))) \<and>
          (n = 0 \<longrightarrow> filter victim (rows (tables w)) = []))
        (\<lambda>_ w'. same_data w w' \<and> \<not> no_faults e) w"
    and ok_put: "ok d \<Longrightarrow> ok (put (filter P (rows d)) d)"
    and rows_put [simp]: "rows (put xs d) = xs"
    and put_put [simp]: "put xs (put ys d) = put xs d"
    and put_rows [simp]: "put (rows d) d = d"
begin

text \<open>
  What a drain may have done: it removed victims only; when it returns, all of them. It raises
  only when a statement failed.
\<close>

definition drained :: "world \<Rightarrow> int \<Rightarrow> exn + int \<Rightarrow> world \<Rightarrow> bool" where
  "drained w n r w' \<longleftrightarrow> (\<exists>S. S \<subseteq> Collect victim \<and>
      tables w' = put (filter (\<lambda>x. x \<notin> S) (rows (tables w))) (tables w)) \<and> outbox w' = outbox w \<and>
    (\<forall>m. r = Inr m \<longrightarrow> tables w' = put (filter (\<lambda>x. \<not> victim x) (rows (tables w))) (tables w) \<and>
       m = n + int (length (filter victim (rows (tables w))))) \<and>
    (no_faults e \<longrightarrow> (\<exists>m. r = Inr m))"

lemma batch_cases:
  assumes "ok (tables w)"
  obtains (failed) x w' where "prune w = (Inl x, w')" "same_data w w'" "\<not> no_faults e"
  | (batch) S n w' where "prune w = (Inr n, w')" "S \<subseteq> Collect victim" "outbox w' = outbox w"
      "tables w' = put (filter (\<lambda>r. r \<notin> S) (rows (tables w))) (tables w)"
      "n = int (length (filter (\<lambda>r. r \<in> S) (rows (tables w))))"
      "n = 0 \<Longrightarrow> filter victim (rows (tables w)) = []"
proof (cases "prune w")
  case (Pair r w')
  show thesis
  proof (cases r)
    case (Inl x)
    then show thesis
      using prune_law [OF assms] Pair failed by (simp add: wp_def)
  next
    case (Inr n)
    then obtain S where "S \<subseteq> Collect victim" "outbox w' = outbox w"
      "tables w' = put (filter (\<lambda>r. r \<notin> S) (rows (tables w))) (tables w)"
      "n = int (length (filter (\<lambda>r. r \<in> S) (rows (tables w))))"
      "n = 0 \<longrightarrow> filter victim (rows (tables w)) = []"
      using prune_law [OF assms] Pair unfolding wp_def by (simp only: prod.case sum.case) blast
    then show thesis
      using Pair Inr by (intro batch) auto
  qed
qed

lemma drained_batch:
  assumes S: "S \<subseteq> Collect victim" and w': "outbox w' = outbox w"
      "tables w' = put (filter (\<lambda>r. r \<notin> S) (rows (tables w))) (tables w)"
    and rest: "drained w' (n + int (length (filter (\<lambda>r. r \<in> S) (rows (tables w))))) r w''"
  shows "drained w n r w''"
proof -
  obtain S' where S': "S' \<subseteq> Collect victim"
      "tables w'' = put (filter (\<lambda>x. x \<notin> S') (rows (tables w'))) (tables w')"
    using rest by (auto simp: drained_def)
  have "tables w'' = put (filter (\<lambda>x. x \<notin> S \<union> S') (rows (tables w))) (tables w)"
    unfolding S'(2) w'(2) by simp
  moreover have "filter (\<lambda>x. \<not> victim x \<and> x \<notin> S) (rows (tables w)) = filter (\<lambda>x. \<not> victim x) (rows (tables w))"
    using S by (intro filter_cong) auto
  moreover have "length (filter (\<lambda>r. r \<in> S) (rows (tables w))) +
      length (filter victim (filter (\<lambda>r. r \<notin> S) (rows (tables w)))) = length (filter victim (rows (tables w)))"
    by (rule length_filter_split [OF S])
  ultimately show ?thesis
    using rest S S'(1) w' unfolding drained_def
    by (intro conjI exI [of _ "S \<union> S'"]) (auto simp: conj_commute)
qed

theorem drain_returns:
  "ok (tables w) \<Longrightarrow> preturns (drain prune n) (drained w n) w"
  unfolding preturns_def
proof (induction "length (filter victim (rows (tables w)))" arbitrary: w n rule: less_induct)
  case less
  show ?case
    using less.prems
  proof (cases rule: batch_cases)
    case (failed x w')
    then have "drained w n (Inl x) w'"
      by (auto simp: drained_def same_data_def intro!: exI [of _ "{}"])
    then show ?thesis
      using failed by (subst drain.simps) simp
  next
    case (batch S m w')
    show ?thesis
    proof (cases "0 < m")
      case True
      have "length (filter victim (rows (tables w'))) < length (filter victim (rows (tables w)))"
        using True length_filter_split [OF batch(2), of "rows (tables w)"]
        unfolding batch(4,5) rows_put by linarith
      then obtain r w'' where "drain prune (n + m) w' = Some (r, w'')" "drained w' (n + m) r w''"
        using less.hyps ok_put [OF less.prems] batch(4) by metis
      then show ?thesis
        using drained_batch [OF batch(2,3,4), of n r w''] True batch(1,5)
        by (subst drain.simps) auto
    next
      case False
      then have "filter (\<lambda>r. r \<in> S) (rows (tables w)) = []" "filter victim (rows (tables w)) = []"
        using batch(5,6) by auto
      then have "drained w n (Inr n) w'"
        using batch(2,3,4) by (auto simp: drained_def filter_empty_conv intro!: exI [of _ S] arg_cong2 [of _ _ _ _ put] filter_cong)
      then show ?thesis
        using batch False by (subst drain.simps) simp
    qed
  qed
qed

end

subsection \<open>The three tables\<close>

text \<open>The rows behind a batch of keys taken from a scan of the victims.\<close>

lemma doomed_rows:
  assumes d: "distinct (map key rows)" and ks: "ks = take k (scan e n (map key (filter P rows)))"
  shows "{r \<in> set rows. key r \<in> set ks} \<subseteq> Collect P"
    and "delete_rows key ks rows = filter (\<lambda>r. r \<notin> {r \<in> set rows. key r \<in> set ks}) rows"
    and "filter (\<lambda>r. key r \<in> set ks) rows = filter (\<lambda>r. r \<in> {r \<in> set rows. key r \<in> set ks}) rows"
    and "0 < k \<Longrightarrow> filter (\<lambda>r. key r \<in> set ks) rows = [] \<Longrightarrow> filter P rows = []"
proof -
  have sub: "set ks \<subseteq> key ` set (filter P rows)"
    using set_take_subset [of k "scan e n (map key (filter P rows))"] by (simp add: ks)
  then show "{r \<in> set rows. key r \<in> set ks} \<subseteq> Collect P"
    using d by (fastforce simp: distinct_map inj_on_def)
  show "0 < k \<Longrightarrow> filter (\<lambda>r. key r \<in> set ks) rows = [] \<Longrightarrow> filter P rows = []"
  proof (rule ccontr)
    assume "0 < k" and none: "filter (\<lambda>r. key r \<in> set ks) rows = []" and "filter P rows \<noteq> []"
    then have "ks \<noteq> []"
      by (metis ks length_0_conv length_map length_scan less_numeral_extra(3) take_eq_Nil)
    then show False
      using sub none by (auto simp: filter_empty_conv neq_Nil_conv)
  qed
qed (auto simp: delete_rows_def intro: filter_cong)

lemma batch_law:
  assumes "distinct (map key rows)" and "ks = take (Suc b) (scan e n (map key (filter P rows)))"
  shows "\<exists>S. S \<subseteq> Collect P \<and> delete_rows key ks rows = filter (\<lambda>r. r \<notin> S) rows \<and>
     length (filter (\<lambda>r. key r \<in> set ks) rows) = length (filter (\<lambda>r. r \<in> S) rows) \<and>
     (length (filter (\<lambda>r. key r \<in> set ks) rows) = 0 \<longrightarrow> filter P rows = [])"
  using doomed_rows [OF assms] by (intro exI [of _ "{r \<in> set rows. key r \<in> set ks}"]) auto

lemma prune_execute:
  assumes d: "distinct (map key rows)" and ks: "ks = take (Suc b) (scan e n (map key (filter P rows)))"
    and q: "q (stmts w) (tables w) =
      Inr (int (length (filter (\<lambda>r. key r \<in> set ks) rows)), put (delete_rows key ks rows) (tables w))"
  shows "wp (execute e msg q) (\<lambda>n w'. \<exists>S. S \<subseteq> Collect P \<and> outbox w' = outbox w \<and>
       tables w' = put (filter (\<lambda>r. r \<notin> S) rows) (tables w) \<and>
       n = int (length (filter (\<lambda>r. r \<in> S) rows)) \<and> (n = 0 \<longrightarrow> filter P rows = []))
     (\<lambda>_ w'. same_data w w' \<and> \<not> no_faults e) w"
proof (rule execute_rule)
  obtain S where S: "S \<subseteq> Collect P" "delete_rows key ks rows = filter (\<lambda>r. r \<notin> S) rows"
      "length (filter (\<lambda>r. key r \<in> set ks) rows) = length (filter (\<lambda>r. r \<in> S) rows)"
      "length (filter (\<lambda>r. key r \<in> set ks) rows) = 0 \<longrightarrow> filter P rows = []"
    using batch_law [OF d ks] by blast
  fix v d and w' :: world
  assume w': "q (stmts w) (tables w) = Inr (v, d)" "tables w' = d" "outbox w' = outbox w"
  have v: "v = int (length (filter (\<lambda>r. key r \<in> set ks) rows))" "d = put (delete_rows key ks rows) (tables w)"
    using w'(1) q by simp_all
  show "\<exists>S. S \<subseteq> Collect P \<and> outbox w' = outbox w \<and>
       tables w' = put (filter (\<lambda>r. r \<notin> S) rows) (tables w) \<and>
       v = int (length (filter (\<lambda>r. r \<in> S) rows)) \<and> (v = 0 \<longrightarrow> filter P rows = [])"
    by (rule exI [of _ S]) (use S v w' in simp)
qed (use q in auto)

lemma limit_rows_Suc: "limit_rows (int (Suc b)) xs = Inr (take (Suc b) xs)"
  by (simp add: limit_rows_def del: of_nat_Suc)

interpretation audit_prune: batch_prune "prune_terminal_before e cutoff (int (Suc b))"
    "\<lambda>d. distinct (map ac_id (actions d))" actions "\<lambda>xs d. d\<lparr>actions := xs\<rparr>" "action_prunable cutoff" e
  for e cutoff b
proof unfold_locales
  fix w :: world
  assume d: "distinct (map ac_id (actions (tables w)))"
  show "wp (prune_terminal_before e cutoff (int (Suc b)))
     (\<lambda>n w'. \<exists>S. S \<subseteq> Collect (action_prunable cutoff) \<and> outbox w' = outbox w \<and>
          tables w' = (tables w)\<lparr>actions := filter (\<lambda>r. r \<notin> S) (actions (tables w))\<rparr> \<and>
          n = int (length (filter (\<lambda>r. r \<in> S) (actions (tables w)))) \<and>
          (n = 0 \<longrightarrow> filter (action_prunable cutoff) (actions (tables w)) = []))
        (\<lambda>_ w'. same_data w w' \<and> \<not> no_faults e) w"
    unfolding prune_terminal_before_def limit_rows_Suc sum.case
    by (rule prune_execute [OF d refl]) simp
qed (auto simp: distinct_map_filter)

text \<open>For alerts, which rows are victims also depends on the audit rows that refer to them.\<close>

definition alert_victim :: "datetime \<Rightarrow> int set \<Rightarrow> alert_row \<Rightarrow> bool" where
  "alert_victim cutoff refs r \<longleftrightarrow> al_status r = RESOLVED \<and>
     (case al_resolved_at r of None \<Rightarrow> False | Some t \<Rightarrow> us t < us cutoff) \<and> al_id r \<notin> refs"

lemma alert_prunable_victim:
  "alert_prunable cutoff d = alert_victim cutoff (ac_alert_id ` set (actions d))"
  by (simp add: alert_prunable_def alert_victim_def fun_eq_iff)

interpretation alert_prune: batch_prune "prune_resolved_before e cutoff (int (Suc b))"
    "\<lambda>d. distinct (map al_id (alerts d)) \<and> ac_alert_id ` set (actions d) = refs"
    alerts "\<lambda>xs d. d\<lparr>alerts := xs\<rparr>" "alert_victim cutoff refs" e
  for e cutoff b refs
proof unfold_locales
  fix w :: world
  assume ok: "distinct (map al_id (alerts (tables w))) \<and> ac_alert_id ` set (actions (tables w)) = refs"
  let ?ks = "take (Suc b) (scan e (stmts w) (map al_id (filter (alert_victim cutoff refs) (alerts (tables w)))))"
  have "set ?ks \<inter> refs = {}"
    using set_take_subset by (fastforce simp: alert_victim_def)
  then show "wp (prune_resolved_before e cutoff (int (Suc b)))
     (\<lambda>n w'. \<exists>S. S \<subseteq> Collect (alert_victim cutoff refs) \<and> outbox w' = outbox w \<and>
          tables w' = (tables w)\<lparr>alerts := filter (\<lambda>r. r \<notin> S) (alerts (tables w))\<rparr> \<and>
          n = int (length (filter (\<lambda>r. r \<in> S) (alerts (tables w)))) \<and>
          (n = 0 \<longrightarrow> filter (alert_victim cutoff refs) (alerts (tables w)) = []))
        (\<lambda>_ w'. same_data w w' \<and> \<not> no_faults e) w"
    unfolding prune_resolved_before_def limit_rows_Suc sum.case alert_prunable_victim
    using ok by (intro prune_execute [where ks = ?ks]) auto
qed (auto simp: distinct_map_filter)

interpretation sample_prune: batch_prune "prune_samples_before e cutoff (int (Suc b))"
    "\<lambda>d. distinct (map sm_id (samples d))" samples "\<lambda>xs d. d\<lparr>samples := xs\<rparr>"
    "\<lambda>r. us (sm_received_at r) < us cutoff" e
  for e cutoff b
proof unfold_locales
  fix w :: world
  assume d: "distinct (map sm_id (samples (tables w)))"
  show "wp (prune_samples_before e cutoff (int (Suc b)))
     (\<lambda>n w'. \<exists>S. S \<subseteq> {r. us (sm_received_at r) < us cutoff} \<and> outbox w' = outbox w \<and>
          tables w' = (tables w)\<lparr>samples := filter (\<lambda>r. r \<notin> S) (samples (tables w))\<rparr> \<and>
          n = int (length (filter (\<lambda>r. r \<in> S) (samples (tables w)))) \<and>
          (n = 0 \<longrightarrow> filter (\<lambda>r. us (sm_received_at r) < us cutoff) (samples (tables w)) = []))
        (\<lambda>_ w'. same_data w w' \<and> \<not> no_faults e) w"
    unfolding prune_samples_before_def limit_rows_Suc sum.case
    by (rule prune_execute [OF d refl]) simp
qed (auto simp: distinct_map_filter)

subsection \<open>A whole run\<close>

text \<open>Removing a set of victims is a step of the specification.\<close>

lemma filter_as_delete:
  assumes "distinct (map key rows)"
  shows "delete_rows key (map key (filter (\<lambda>r. r \<in> S) rows)) rows = filter (\<lambda>r. r \<notin> S) rows"
    and "x \<in> set rows \<Longrightarrow> key x \<in> set (map key (filter (\<lambda>r. r \<in> S) rows)) \<Longrightarrow> x \<in> S"
  using assms by (auto simp: delete_rows_def distinct_map inj_on_def intro!: filter_cong)

lemma audit_pruned_refines:
  assumes "db_inv sv (tables w)" and "S \<subseteq> Collect (action_prunable c)"
    and "tables w' = (tables w)\<lparr>actions := filter (\<lambda>x. x \<notin> S) (actions (tables w))\<rparr>" and "outbox w' = outbox w"
  shows "refines e sv {Quiet, Dropped} w w'"
proof (rule refines_step [of sv Quiet])
  have d: "distinct (map ac_id (actions (tables w)))"
    using assms(1) by (simp add: db_inv_def keys_ok_def)
  show "lstep sv Quiet (tables w) (tables w')"
    unfolding assms(3) filter_as_delete(1) [OF d, symmetric]
    by (rule lstep.actions_pruned [of _ _ c]) (use assms(2) filter_as_delete(2) [OF d] in blast)
qed (simp_all add: assms(4))

lemma alerts_pruned_refines:
  assumes "db_inv sv (tables w)" and "S \<subseteq> Collect (alert_victim c (ac_alert_id ` set (actions (tables w))))"
    and "tables w' = (tables w)\<lparr>alerts := filter (\<lambda>x. x \<notin> S) (alerts (tables w))\<rparr>" and "outbox w' = outbox w"
  shows "refines e sv {Quiet, Dropped} w w'"
proof (rule refines_step [of sv Dropped])
  have d: "distinct (map al_id (alerts (tables w)))"
    using assms(1) by (simp add: db_inv_def keys_ok_def)
  show "lstep sv Dropped (tables w) (tables w')"
    unfolding assms(3) filter_as_delete(1) [OF d, symmetric]
  proof (rule lstep.alerts_pruned [of _ _ c])
    fix r
    assume "r \<in> set (alerts (tables w))" "al_id r \<in> set (map al_id (filter (\<lambda>r. r \<in> S) (alerts (tables w))))"
    then have "r \<in> S"
      by (rule filter_as_delete(2) [OF d])
    then show "alert_prunable c (tables w) r"
      unfolding alert_prunable_victim using assms(2) by blast
  qed
qed (simp_all add: assms(4))

lemma samples_pruned_refines:
  assumes "db_inv sv (tables w)" and "S \<subseteq> {r. us (sm_received_at r) < us c}"
    and "tables w' = (tables w)\<lparr>samples := filter (\<lambda>x. x \<notin> S) (samples (tables w))\<rparr>" and "outbox w' = outbox w"
  shows "refines e sv {Quiet, Dropped} w w'"
proof (rule refines_step [of sv Quiet])
  have d: "distinct (map sm_id (samples (tables w)))"
    using assms(1) by (simp add: db_inv_def keys_ok_def)
  show "lstep sv Quiet (tables w) (tables w')"
    unfolding assms(3) filter_as_delete(1) [OF d, symmetric]
    by (rule lstep.samples_pruned [of _ _ c]) (use assms(2) filter_as_delete(2) [OF d] in blast)
qed (simp_all add: assms(4))

text \<open>The tables a completed run leaves: every aged row gone, every other row kept.\<close>

definition kept_actions :: "datetime \<Rightarrow> db \<Rightarrow> action_row list" where
  "kept_actions c d = filter (\<lambda>x. \<not> action_prunable c x) (actions d)"

definition kept_alerts :: "datetime \<Rightarrow> db \<Rightarrow> alert_row list" where
  "kept_alerts c d = filter (\<lambda>r. \<not> alert_prunable c d r) (alerts d)"

definition kept_samples :: "datetime \<Rightarrow> db \<Rightarrow> sample_row list" where
  "kept_samples c d = filter (\<lambda>s. \<not> us (sm_received_at s) < us c) (samples d)"

text \<open>What each of the three drains does, in the words of the specification.\<close>

definition drain_post ::
    "env \<Rightarrow> alert_service \<Rightarrow> exn + datetime \<Rightarrow> (datetime \<Rightarrow> db \<Rightarrow> int \<times> db) \<Rightarrow> world \<Rightarrow> exn + int \<Rightarrow> world \<Rightarrow> bool" where
  "drain_post e sv cutoff effect w r w' \<longleftrightarrow>
     refines e sv {Quiet, Dropped} w w' \<and> outbox w' = outbox w \<and>
     (\<forall>m. r = Inr m \<longrightarrow> (\<exists>c. cutoff = Inr c \<and> (m, tables w') = effect c (tables w))) \<and>
     (\<forall>x. r = Inl x \<longrightarrow> \<not> no_faults e \<or> (\<exists>y. cutoff = Inl y))"

lemma drain_before_rule:
  assumes "\<And>c. days_before now days = Inr c \<Longrightarrow>
      preturns (drain (prune c batch) 0) (drain_post e sv (Inr c) effect w) w"
  shows "preturns (drain_before prune now days batch) (drain_post e sv (days_before now days) effect w) w"
proof (cases "days_before now days")
  case (Inl x)
  then show ?thesis
    by (simp add: preturns_def drain_before_def pseq_def total_def from_result_def drain_post_def refines_refl)
next
  case (Inr c)
  then show ?thesis
    using assms [OF Inr] by (simp add: preturns_def drain_before_def pseq_def total_def from_result_def)
qed

definition prune_actions_effect :: "datetime \<Rightarrow> db \<Rightarrow> int \<times> db" where
  "prune_actions_effect c d =
     (int (length (filter (action_prunable c) (actions d))), d\<lparr>actions := kept_actions c d\<rparr>)"

definition prune_alerts_effect :: "datetime \<Rightarrow> db \<Rightarrow> int \<times> db" where
  "prune_alerts_effect c d =
     (int (length (filter (alert_prunable c d) (alerts d))), d\<lparr>alerts := kept_alerts c d\<rparr>)"

definition prune_samples_effect :: "datetime \<Rightarrow> db \<Rightarrow> int \<times> db" where
  "prune_samples_effect c d =
     (int (length (filter (\<lambda>s. us (sm_received_at s) < us c) (samples d))), d\<lparr>samples := kept_samples c d\<rparr>)"

lemma drain_actions:
  assumes "db_inv sv (tables w)"
  shows "preturns (drain (prune_terminal_before e c (int (Suc b))) 0)
           (drain_post e sv (Inr c) prune_actions_effect w) w"
  by (rule preturns_mono [OF audit_prune.drain_returns])
    (use assms audit_pruned_refines [OF assms] in \<open>auto simp: audit_prune.drained_def drain_post_def db_inv_def
      keys_ok_def prune_actions_effect_def kept_actions_def\<close>)

lemma drain_alerts:
  assumes "db_inv sv (tables w)"
  shows "preturns (drain (prune_resolved_before e c (int (Suc b))) 0)
           (drain_post e sv (Inr c) prune_alerts_effect w) w"
  by (rule preturns_mono [OF alert_prune.drain_returns [of _ "ac_alert_id ` set (actions (tables w))"]])
    (use assms alerts_pruned_refines [OF assms] in \<open>auto simp: alert_prune.drained_def drain_post_def db_inv_def
      keys_ok_def prune_alerts_effect_def kept_alerts_def alert_prunable_victim\<close>)

lemma drain_samples:
  assumes "db_inv sv (tables w)"
  shows "preturns (drain (prune_samples_before e c (int (Suc b))) 0)
           (drain_post e sv (Inr c) prune_samples_effect w) w"
  by (rule preturns_mono [OF sample_prune.drain_returns])
    (use assms samples_pruned_refines [OF assms] in \<open>auto simp: sample_prune.drained_def drain_post_def db_inv_def
      keys_ok_def prune_samples_effect_def kept_samples_def\<close>)

lemma drain_before_actions:
  assumes "db_inv sv (tables w)"
  shows "preturns (drain_before (prune_terminal_before e) now days (int (Suc b)))
           (drain_post e sv (days_before now days) prune_actions_effect w) w"
  by (rule drain_before_rule) (rule drain_actions [OF assms])

lemma drain_before_alerts:
  assumes "db_inv sv (tables w)"
  shows "preturns (drain_before (prune_resolved_before e) now days (int (Suc b)))
           (drain_post e sv (days_before now days) prune_alerts_effect w) w"
  by (rule drain_before_rule) (rule drain_alerts [OF assms])

lemma drain_before_samples:
  assumes "db_inv sv (tables w)"
  shows "preturns (drain_before (prune_samples_before e) now days (int (Suc b)))
           (drain_post e sv (days_before now days) prune_samples_effect w) w"
  by (rule drain_before_rule) (rule drain_samples [OF assms])

text \<open>The whole sweep, as a function of the three cutoffs and the tables.\<close>

definition retention_effect :: "datetime \<Rightarrow> datetime \<Rightarrow> datetime \<Rightarrow> db \<Rightarrow> retention_stats \<times> db" where
  "retention_effect ca cb cc d =
     (let (a, d1) = prune_actions_effect ca d; (b, d2) = prune_alerts_effect cb d1;
          (c, d3) = prune_samples_effect cc d2
      in (\<lparr>rn_actions_deleted = a, rn_alerts_deleted = b, rn_samples_deleted = c\<rparr>, d3))"

definition retention_post ::
    "env \<Rightarrow> alert_service \<Rightarrow> retention_settings \<Rightarrow> datetime \<Rightarrow> world \<Rightarrow> exn + retention_stats \<Rightarrow> world \<Rightarrow> bool" where
  "retention_post e sv st now w r w' \<longleftrightarrow>
     refines e sv {Quiet, Dropped} w w' \<and> outbox w' = outbox w \<and>
     (\<forall>stats. r = Inr stats \<longrightarrow> (\<exists>ca cb cc.
        days_before now (rs_remediation_actions_days st) = Inr ca \<and>
        days_before now (rs_resolved_alerts_days st) = Inr cb \<and>
        days_before now (rs_metrics_days st) = Inr cc \<and>
        (stats, tables w') = retention_effect ca cb cc (tables w))) \<and>
     (\<forall>x. r = Inl x \<longrightarrow> \<not> no_faults e \<or>
        (\<exists>y. days_before now (rs_remediation_actions_days st) = Inl y \<or>
             days_before now (rs_resolved_alerts_days st) = Inl y \<or>
             days_before now (rs_metrics_days st) = Inl y))"

lemma retention_effectI:
  "(na, d1) = prune_actions_effect ca d \<Longrightarrow> (nb, d2) = prune_alerts_effect cb d1 \<Longrightarrow>
   (nc, d3) = prune_samples_effect cc d2 \<Longrightarrow>
   (\<lparr>rn_actions_deleted = na, rn_alerts_deleted = nb, rn_samples_deleted = nc\<rparr>, d3) = retention_effect ca cb cc d"
  unfolding retention_effect_def Let_def by (metis (no_types, lifting) case_prod_conv)

lemma retention_run_returns:
  assumes inv: "db_inv sv (tables w)" and batch: "0 < rs_batch_size st"
  shows "preturns (retention_run e st now) (retention_post e sv st now w) w"
proof -
  obtain b where b: "rs_batch_size st = int (Suc b)"
    using batch by (metis zero_less_imp_eq_int gr0_implies_Suc)
  have step: "refines e sv {Quiet, Dropped} u v \<Longrightarrow> drain_post e sv c f v r t \<Longrightarrow> refines e sv {Quiet, Dropped} u t"
    for u v c f r t by (auto simp: drain_post_def intro: refines_trans)
  show ?thesis
    unfolding retention_run_def b
  proof (rule preturns_pseq [OF drain_before_actions [OF inv]])
    fix na w1
    assume 1: "drain_post e sv (days_before now (rs_remediation_actions_days st)) prune_actions_effect w (Inr na) w1"
    then have r1: "refines e sv {Quiet, Dropped} w w1"
      by (simp add: drain_post_def)
    show "preturns (pseq (drain_before (prune_resolved_before e) now (rs_resolved_alerts_days st) (int (Suc b))) (\<lambda>nb.
        pseq (drain_before (prune_samples_before e) now (rs_metrics_days st) (int (Suc b))) (\<lambda>nc.
        total (ret \<lparr>rn_actions_deleted = na, rn_alerts_deleted = nb, rn_samples_deleted = nc\<rparr>))))
      (retention_post e sv st now w) w1"
    proof (rule preturns_pseq [OF drain_before_alerts [OF refines_inv [OF r1 inv]]])
      fix nb w2
      assume 2: "drain_post e sv (days_before now (rs_resolved_alerts_days st)) prune_alerts_effect w1 (Inr nb) w2"
      have r2: "refines e sv {Quiet, Dropped} w w2"
        by (rule step [OF r1 2])
      show "preturns (pseq (drain_before (prune_samples_before e) now (rs_metrics_days st) (int (Suc b))) (\<lambda>nc.
          total (ret \<lparr>rn_actions_deleted = na, rn_alerts_deleted = nb, rn_samples_deleted = nc\<rparr>)))
        (retention_post e sv st now w) w2"
      proof (rule preturns_pseq [OF drain_before_samples [OF refines_inv [OF r2 inv]]])
        fix nc w3
        assume 3: "drain_post e sv (days_before now (rs_metrics_days st)) prune_samples_effect w2 (Inr nc) w3"
        then show "preturns (total (ret \<lparr>rn_actions_deleted = na, rn_alerts_deleted = nb, rn_samples_deleted = nc\<rparr>))
          (retention_post e sv st now w) w3"
          using 1 2 step [OF r2 3] by (intro preturns_total)
            (auto simp: ret_def retention_post_def drain_post_def intro: retention_effectI)
      qed (use 1 2 in \<open>auto simp: retention_post_def drain_post_def intro: refines_trans [OF r2]\<close>)
    qed (use 1 in \<open>auto simp: retention_post_def drain_post_def intro: refines_trans [OF r1]\<close>)
  qed (auto simp: retention_post_def drain_post_def)
qed

end
