(* ===== verification/Logging_Setup.thy ===== *)
theory Logging_Setup
  imports Py_Text
begin

text \<open>
  \<open>shared/config/base.py\<close> and \<open>shared/logging/setup.py\<close>: the settings both services share, and the
  logging configuration that follows from them. What structlog and the standard library do with
  it is theirs.
\<close>

datatype environment = Dev | Staging | Prod

record base_settings =
  bs_environment :: environment
  bs_service_name :: string
  bs_log_level :: string

definition default_base_settings :: base_settings where
  "default_base_settings = \<lparr>bs_environment = Dev, bs_service_name = ''clusterpulse'', bs_log_level = ''INFO''\<rparr>"

definition VALID_LEVELS :: "string list" where
  "VALID_LEVELS = [''DEBUG'', ''INFO'', ''WARNING'', ''ERROR'', ''CRITICAL'']"

datatype renderer = ConsoleRenderer | JSONRenderer

text \<open>The chosen level, the renderer, and the warning about a level that was not understood.\<close>

record logging_config =
  lc_level :: string
  lc_renderer :: renderer
  lc_warning :: "(string \<times> string) option"

text \<open>
  \<open>str.upper\<close> on text that may become one of the level names: besides the ASCII letters the dotless
  i (U+0131) becomes an ASCII letter of these names.
\<close>

fun upper_level :: "string \<Rightarrow> string" where
  "upper_level (c # d # s) =
     (if c = CHR 0xC4 \<and> d = CHR 0xB1 then CHR ''I'' # upper_level s else upper [c] @ upper_level (d # s))"
| "upper_level s = upper s"

definition configure_logging :: "base_settings \<Rightarrow> logging_config" where
  "configure_logging settings =
     (let configured_level = upper_level (bs_log_level settings);
          level_name = (if configured_level \<in> set VALID_LEVELS then configured_level else ''INFO'')
      in \<lparr>lc_level = level_name,
          lc_renderer = (if bs_environment settings = Dev then ConsoleRenderer else JSONRenderer),
          lc_warning = (if configured_level \<noteq> level_name then Some (bs_log_level settings, level_name) else None)\<rparr>)"

lemma configure_logging_level:
  "lc_level (configure_logging settings) \<in> set VALID_LEVELS"
  by (simp add: configure_logging_def VALID_LEVELS_def Let_def)

lemma configure_logging_warns:
  "lc_warning (configure_logging settings) =
     (if upper_level (bs_log_level settings) \<in> set VALID_LEVELS then None else Some (bs_log_level settings, ''INFO''))"
  by (auto simp: configure_logging_def VALID_LEVELS_def Let_def)

end
