(* ===== verification/Collector_Config.thy ===== *)
theory Collector_Config
  imports Retention_Job Rules Remediation_Engine Notifications Logging_Setup
begin

text \<open>
  \<open>collector/config.py\<close>: the settings of a Collector process, the constraints their fields
  declare and the four model validators, in the order in which they run. A settings object that
  exists has passed all of them.
\<close>

record collector_settings =
  cs_environment :: environment
  cs_api_tokens :: string
  cs_heartbeat_stale_after_seconds :: pyfloat
  cs_rules_config_path :: string
  cs_telegram_bot_token :: "string option"
  cs_telegram_chat_id :: "string option"
  cs_escalation_after_seconds :: pyfloat
  cs_remediation_enabled :: bool
  cs_remediation_after_seconds :: pyfloat
  cs_max_remediations_per_node_per_hour :: int
  cs_remediation_cooldown_seconds :: pyfloat
  cs_remediation_policy_config_path :: string
  cs_retention_enabled :: bool
  cs_metrics_retention_days :: int
  cs_resolved_alerts_retention_days :: int
  cs_remediation_actions_retention_days :: int
  cs_retention_interval_seconds :: pyfloat
  cs_retention_batch_size :: int
  cs_staleness_alerting_enabled :: bool
  cs_staleness_check_interval_seconds :: pyfloat
  cs_remediation_reconciliation_enabled :: bool
  cs_reconciliation_interval_seconds :: pyfloat
  cs_remediation_dispatch_timeout_seconds :: pyfloat

text \<open>The \<open>Field(ge=...)\<close> and \<open>Field(gt=...)\<close> declarations.\<close>

definition field_constraints :: "collector_settings \<Rightarrow> bool" where
  "field_constraints s \<longleftrightarrow>
     fle (Fin 0) (cs_escalation_after_seconds s) \<and>
     fle (Fin 0) (cs_remediation_after_seconds s) \<and>
     1 \<le> cs_max_remediations_per_node_per_hour s \<and>
     fle (Fin 0) (cs_remediation_cooldown_seconds s) \<and>
     1 \<le> cs_metrics_retention_days s \<and>
     1 \<le> cs_resolved_alerts_retention_days s \<and>
     1 \<le> cs_remediation_actions_retention_days s \<and>
     flt (Fin 0) (cs_retention_interval_seconds s) \<and>
     1 \<le> cs_retention_batch_size s \<and>
     flt (Fin 0) (cs_staleness_check_interval_seconds s) \<and>
     flt (Fin 0) (cs_reconciliation_interval_seconds s) \<and>
     flt (Fin 0) (cs_remediation_dispatch_timeout_seconds s)"

text \<open>\<open>token_set\<close>, as the list of its members, and \<open>bool(x)\<close> of an optional string.\<close>

definition token_set :: "collector_settings \<Rightarrow> string list" where
  "token_set s = remdups (comma_set (cs_api_tokens s))"

definition truthy :: "string option \<Rightarrow> bool" where
  "truthy x \<longleftrightarrow> x \<noteq> None \<and> x \<noteq> Some []"

definition notifications_enabled :: "collector_settings \<Rightarrow> bool" where
  "notifications_enabled s \<longleftrightarrow> truthy (cs_telegram_bot_token s) \<and> truthy (cs_telegram_chat_id s)"

definition require_tokens_outside_dev :: "collector_settings \<Rightarrow> exn + collector_settings" where
  "require_tokens_outside_dev s =
     (if cs_environment s \<noteq> Dev \<and> token_set s = []
      then Inl (ConfigurationError (''api_tokens must be set when environment is not '' @ py_repr ''dev''))
      else Inr s)"

definition require_telegram_both_or_neither :: "collector_settings \<Rightarrow> exn + collector_settings" where
  "require_telegram_both_or_neither s =
     (if truthy (cs_telegram_bot_token s) \<noteq> truthy (cs_telegram_chat_id s)
      then Inl (ConfigurationError ''telegram_bot_token and telegram_chat_id must both be set, or neither'')
      else Inr s)"

definition require_alert_retention_within_remediation_retention ::
    "collector_settings \<Rightarrow> exn + collector_settings" where
  "require_alert_retention_within_remediation_retention s =
     (if cs_retention_enabled s \<and>
         cs_resolved_alerts_retention_days s > cs_remediation_actions_retention_days s
      then Inl (ConfigurationError
        (''resolved_alerts_retention_days must be <= remediation_actions_retention_days '' @ em_dash @
         '' an alert must never be pruned while remediation audit rows still reference it '' @
         ''(remediation_actions.alert_id is a foreign key)''))
      else Inr s)"

definition require_remediation_after_escalation :: "collector_settings \<Rightarrow> exn + collector_settings" where
  "require_remediation_after_escalation s =
     (if cs_remediation_enabled s \<and> flt (cs_remediation_after_seconds s) (cs_escalation_after_seconds s)
      then Inl (ConfigurationError
        (''remediation_after_seconds must be >= escalation_after_seconds '' @ em_dash @
         '' remediation must never fire before a human has had a chance to acknowledge''))
      else Inr s)"

definition CollectorSettings :: "collector_settings \<Rightarrow> exn + collector_settings" where
  "CollectorSettings s =
     (if \<not> field_constraints s then Inl ValueErr
      else case require_tokens_outside_dev s of Inl x \<Rightarrow> Inl x | Inr s1 \<Rightarrow>
           case require_telegram_both_or_neither s1 of Inl x \<Rightarrow> Inl x | Inr s2 \<Rightarrow>
           case require_alert_retention_within_remediation_retention s2 of Inl x \<Rightarrow> Inl x | Inr s3 \<Rightarrow>
           require_remediation_after_escalation s3)"

text \<open>The defaults of the class; the two paths are below the directory of the package.\<close>

definition default_settings :: "string \<Rightarrow> collector_settings" where
  "default_settings package_dir =
     \<lparr>cs_environment = Dev, cs_api_tokens = [], cs_heartbeat_stale_after_seconds = Fin 90,
      cs_rules_config_path = package_dir @ ''/rules/default_rules.json'', cs_telegram_bot_token = None,
      cs_telegram_chat_id = None, cs_escalation_after_seconds = Fin 900,
      cs_remediation_enabled = False, cs_remediation_after_seconds = Fin 1800,
      cs_max_remediations_per_node_per_hour = 3, cs_remediation_cooldown_seconds = Fin 1800,
      cs_remediation_policy_config_path = package_dir @ ''/remediation/default_playbooks.json'', cs_retention_enabled = False,
      cs_metrics_retention_days = 7, cs_resolved_alerts_retention_days = 30,
      cs_remediation_actions_retention_days = 90, cs_retention_interval_seconds = Fin 3600,
      cs_retention_batch_size = 10000, cs_staleness_alerting_enabled = False,
      cs_staleness_check_interval_seconds = Fin 60, cs_remediation_reconciliation_enabled = False,
      cs_reconciliation_interval_seconds = Fin 300, cs_remediation_dispatch_timeout_seconds = Fin 1800\<rparr>"

subsection \<open>What accepted settings satisfy\<close>

definition settings_ok :: "collector_settings \<Rightarrow> bool" where
  "settings_ok s \<longleftrightarrow> field_constraints s \<and>
     (cs_environment s = Dev \<or> token_set s \<noteq> []) \<and>
     (truthy (cs_telegram_bot_token s) \<longleftrightarrow> truthy (cs_telegram_chat_id s)) \<and>
     (cs_retention_enabled s \<longrightarrow>
        cs_resolved_alerts_retention_days s \<le> cs_remediation_actions_retention_days s) \<and>
     (cs_remediation_enabled s \<longrightarrow>
        fle (cs_escalation_after_seconds s) (cs_remediation_after_seconds s))"

lemma CollectorSettings_ok: "CollectorSettings s = Inr s' \<longleftrightarrow> s' = s \<and> settings_ok s"
proof -
  have "field_constraints s \<Longrightarrow> \<not> flt (cs_remediation_after_seconds s) (cs_escalation_after_seconds s) \<longleftrightarrow>
      fle (cs_escalation_after_seconds s) (cs_remediation_after_seconds s)"
    by (rule not_flt) (auto simp: field_constraints_def dest: fle_not_NaN)
  then show ?thesis
    by (auto simp: CollectorSettings_def settings_ok_def require_tokens_outside_dev_def
        require_telegram_both_or_neither_def require_alert_retention_within_remediation_retention_def
        require_remediation_after_escalation_def split: if_splits)
qed

end
