(* ===== verification/Node_Registry.thy ===== *)
theory Node_Registry
  imports Alert_Refinement
begin

text \<open>
  \<open>collector/services/node_registry.py\<close>: the node registry and its staleness flag, computed when
  a node is read. The wall clock \<open>datetime.now(timezone.utc)\<close> is an argument, in microseconds;
  a listing reads the clock once per node.
\<close>

definition utc :: "int \<Rightarrow> datetime" where
  "utc now = DT now True"

lemma utc_simps [simp]: "us (utc now) = now" "aware (utc now)"
  by (simp_all add: utc_def)

record node_view =
  nv_node_id :: string
  nv_first_seen_at :: datetime
  nv_last_seen_at :: datetime
  nv_is_stale :: bool

definition node_to_view :: "pyfloat \<Rightarrow> int \<Rightarrow> node_row \<Rightarrow> exn + node_view" where
  "node_to_view stale_after_seconds now record =
     (case dt_sub (utc now) (nd_last_seen_at record) of
        Inl x \<Rightarrow> Inl x
      | Inr td \<Rightarrow>
          Inr \<lparr>nv_node_id = nd_node_id record, nv_first_seen_at = nd_first_seen_at record,
               nv_last_seen_at = nd_last_seen_at record,
               nv_is_stale = flt stale_after_seconds (total_seconds td)\<rparr>)"

definition record_seen :: "env \<Rightarrow> pyfloat \<Rightarrow> string \<Rightarrow> datetime \<Rightarrow> int \<Rightarrow> (world, exn, node_view) comp" where
  "record_seen e stale_after_seconds node_id seen_at now =
     seq (upsert_seen e node_id seen_at) (\<lambda>record.
     from_result (node_to_view stale_after_seconds now record))"

definition get_node :: "env \<Rightarrow> pyfloat \<Rightarrow> string \<Rightarrow> int \<Rightarrow> (world, exn, node_view) comp" where
  "get_node e stale_after_seconds node_id now =
     seq (node_get e node_id) (\<lambda>record.
     case record of
       None \<Rightarrow> raise (NodeNotFoundError (''node '' @ py_repr node_id @ '' is not registered''))
     | Some r \<Rightarrow> from_result (node_to_view stale_after_seconds now r))"

definition list_nodes :: "env \<Rightarrow> pyfloat \<Rightarrow> (nat \<Rightarrow> int) \<Rightarrow> (world, exn, node_view list) comp" where
  "list_nodes e stale_after_seconds clock =
     seq (node_list_all e) (\<lambda>records.
     for_each (\<lambda>(i, r). from_result (node_to_view stale_after_seconds (clock i) r)) (enumerate 0 records))"

subsection \<open>What the registry promises\<close>

text \<open>A stored record is aware, so its view always exists.\<close>

definition view_of :: "pyfloat \<Rightarrow> int \<Rightarrow> node_row \<Rightarrow> node_view" where
  "view_of stale_after_seconds now r =
     \<lparr>nv_node_id = nd_node_id r, nv_first_seen_at = ensure_utc (nd_first_seen_at r),
      nv_last_seen_at = ensure_utc (nd_last_seen_at r),
      nv_is_stale = flt stale_after_seconds (total_seconds (now - us (nd_last_seen_at r)))\<rparr>"

lemma node_to_view_record [simp]:
  "node_to_view stale now (node_to_record r) = Inr (view_of stale now r)"
  by (simp add: node_to_view_def node_to_record_def dt_sub_def view_of_def)

lemma node_to_view_aware: "aware (nd_last_seen_at r) \<Longrightarrow> \<exists>v. node_to_view stale now r = Inr v"
  by (simp add: node_to_view_def dt_sub_def)

lemma record_seen_rule:
  assumes "\<And>w'. same_data w w' \<Longrightarrow> \<not> no_faults e \<Longrightarrow> E (PersistenceError ''failed to record node heartbeat'') w'"
    and "\<And>v w'. tables w' = seen_db node_id seen_at (tables w) \<Longrightarrow> outbox w' = outbox w \<Longrightarrow>
           nv_node_id v = node_id \<Longrightarrow> nv_last_seen_at v = ensure_utc seen_at \<Longrightarrow> Q v w'"
  shows "wp (record_seen e stale node_id seen_at now) Q E w"
  unfolding record_seen_def wp_seq
  by (rule upsert_seen_rule) (use assms in \<open>auto simp: wp_simps node_to_view_def dt_sub_def\<close>)

lemma list_views:
  "for_each (\<lambda>(i, r). from_result (node_to_view stale (clock i) r)) (enumerate k (map node_to_record rows)) w =
     (Inr (map (\<lambda>(i, r). view_of stale (clock i) r) (enumerate k rows)), w)"
  by (induction rows arbitrary: k) (simp_all add: ret_def seq_def from_result_def)

lemma get_node_rule:
  assumes "\<And>w'. same_data w w' \<Longrightarrow> \<not> no_faults e \<Longrightarrow> E (PersistenceError ''failed to fetch node'') w'"
    and "\<And>w'. same_data w w' \<Longrightarrow> node_id \<notin> nd_node_id ` set (nodes (tables w)) \<Longrightarrow>
           E (NodeNotFoundError (''node '' @ py_repr node_id @ '' is not registered'')) w'"
    and "\<And>r w'. same_data w w' \<Longrightarrow> row_at nd_node_id node_id (nodes (tables w)) = Some r \<Longrightarrow>
           Q (view_of stale now r) w'"
  shows "wp (get_node e stale node_id now) Q E w"
  unfolding get_node_def wp_seq
  by (rule node_get_rule)
    (use assms in \<open>auto simp: wp_simps row_at_None split: option.splits\<close>)

lemma node_seen_refines:
  "tables w' = seen_db i t (tables w) \<Longrightarrow> outbox w' = outbox w \<Longrightarrow> refines e sv no_drop w w'"
  by (rule refines_step [of sv Quiet]) (auto intro: lstep.node_seen)

lemma record_seen_keeps:
  "wp (record_seen e stale i t now) (\<lambda>_. keeps_inv e sv no_drop w) (\<lambda>_. keeps_inv e sv no_drop w) w"
  by (rule record_seen_rule) (auto intro: keeps_inv_same keeps_invI node_seen_refines)

end
