(* ===== verification/Ingestion.thy ===== *)
theory Ingestion
  imports Node_Registry
begin

text \<open>
  \<open>collector/services/metrics_ingestion.py\<close>: a payload is stored, the rules are evaluated on a
  best-effort basis, and the actions dispatched by that evaluation ride on the acknowledgement.
\<close>

definition evaluate_rules_best_effort ::
    "env \<Rightarrow> alert_service option \<Rightarrow> payload \<Rightarrow> (world, exn, pending_action list) comp" where
  "evaluate_rules_best_effort e alert_evaluation p =
     (case alert_evaluation of
        None \<Rightarrow> ret []
      | Some sv \<Rightarrow>
          attempt
            (seq (evaluate_and_apply e sv (pl_node_id p) (pl_samples p) (pl_collected_at p)) (\<lambda>outcome.
             ret (map (\<lambda>a. \<lparr>pa_action_id = ac_id a, pa_action_type = ac_action_type a,
                            pa_parameters = ac_parameters a\<rparr>) (eo_dispatched_actions outcome))))
            (\<lambda>exc. ret []))"

definition ingest ::
    "env \<Rightarrow> pyfloat \<Rightarrow> alert_service option \<Rightarrow> payload \<Rightarrow> int \<Rightarrow> int \<Rightarrow> (world, exn, ack) comp" where
  "ingest e stale_after_seconds alert_evaluation p received_at now =
     seq (record_seen e stale_after_seconds (pl_node_id p) (pl_collected_at p) now) (\<lambda>_.
     seq (bulk_insert e (pl_node_id p) (pl_samples p) (pl_collected_at p) (utc received_at)) (\<lambda>_.
     seq (evaluate_rules_best_effort e alert_evaluation p) (\<lambda>pending_actions.
     ret \<lparr>ack_accepted = True, ack_received_at = utc received_at, ack_message = None,
          ack_pending_actions = pending_actions\<rparr>)))"

subsection \<open>Refinement\<close>

lemma bulk_insert_keeps:
  "wp (bulk_insert e i ss t r) (\<lambda>_. keeps_inv e sv no_drop w) (\<lambda>_. keeps_inv e sv no_drop w) w"
proof (rule bulk_insert_rule)
  fix w' :: world
  let ?rows = "sample_rows (next_id e (stmts w) (map sm_id (samples (tables w)))) i ss t r"
  assume "ss = [] \<or> i \<in> nd_node_id ` set (nodes (tables w))"
    and w': "tables w' = (tables w)\<lparr>samples := samples (tables w) @ ?rows\<rparr>" "outbox w' = outbox w"
  then have "?rows = [] \<or> i \<in> nd_node_id ` set (nodes (tables w))"
    by (auto simp: sample_rows_def)
  then have "lstep sv Quiet (tables w) (tables w')"
    unfolding w'(1) by (rule lstep.samples_inserted) (use distinct_append_sample_rows in \<open>auto simp del: map_append\<close>)
  then show "keeps_inv e sv no_drop w w'"
    using w'(2) by (intro keeps_invI refines_step [of sv Quiet]) auto
qed (auto intro: keeps_inv_same)

lemma evaluate_rules_keeps:
  assumes "alert_evaluation = None \<or> alert_evaluation = Some sv"
  shows "wp (evaluate_rules_best_effort e alert_evaluation p)
     (\<lambda>_. keeps_inv e sv no_drop w) (\<lambda>_. keeps_inv e sv no_drop w) w"
  using assms evaluate_and_apply_keeps [of e sv]
  by (auto simp: evaluate_rules_best_effort_def wp_simps keeps_inv_refl)

lemma ingest_keeps:
  assumes "alert_evaluation = None \<or> alert_evaluation = Some sv"
  shows "wp (ingest e stale alert_evaluation p received_at now)
     (\<lambda>_. keeps_inv e sv no_drop w) (\<lambda>_. keeps_inv e sv no_drop w) w"
  unfolding ingest_def
proof (rule wp_seq_keeps [where R = "\<lambda>_ _. True"])
  show "wp (record_seen e stale (pl_node_id p) (pl_collected_at p) now)
      (\<lambda>v w'. keeps_inv e sv no_drop w w' \<and> True) (\<lambda>_. keeps_inv e sv no_drop w) w"
    by (simp add: record_seen_keeps)
  fix w' :: world
  show "wp (seq (bulk_insert e (pl_node_id p) (pl_samples p) (pl_collected_at p) (utc received_at)) (\<lambda>_.
     seq (evaluate_rules_best_effort e alert_evaluation p) (\<lambda>pending_actions.
     ret \<lparr>ack_accepted = True, ack_received_at = utc received_at, ack_message = None,
          ack_pending_actions = pending_actions\<rparr>))) (\<lambda>_. keeps_inv e sv no_drop w') (\<lambda>_. keeps_inv e sv no_drop w') w'"
    by (rule wp_seq_keeps [where R = "\<lambda>_ _. True"])
      (use evaluate_rules_keeps [OF assms] bulk_insert_keeps in \<open>auto simp: wp_simps\<close>)
qed

subsection \<open>What evaluation leaves alone, and what it reports\<close>

text \<open>Evaluating rules touches neither nodes nor samples and only adds to the audit log.\<close>

definition audit_grows :: "world \<Rightarrow> world \<Rightarrow> action_row list \<Rightarrow> bool" where
  "audit_grows w w' new \<longleftrightarrow>
     nodes (tables w') = nodes (tables w) \<and> samples (tables w') = samples (tables w) \<and>
     actions (tables w') = actions (tables w) @ new"

definition dispatched_rows :: "action_row list \<Rightarrow> action_row list" where
  "dispatched_rows rows = map action_to_record (filter (\<lambda>x. ac_status x = DISPATCHED) rows)"

definition reports :: "world \<Rightarrow> action_row list \<Rightarrow> world \<Rightarrow> bool" where
  "reports w ds w' \<longleftrightarrow> (\<exists>new. audit_grows w w' new \<and> dispatched_rows new = ds)"

definition audits :: "world \<Rightarrow> world \<Rightarrow> bool" where
  "audits w w' \<longleftrightarrow> (\<exists>new. audit_grows w w' new)"

lemma reports_Nil: "same_data w w' \<Longrightarrow> reports w [] w'"
  by (auto simp: reports_def audit_grows_def same_data_def dispatched_rows_def)

lemma reports_audits: "reports w ds w' \<Longrightarrow> audits w w'"
  by (auto simp: reports_def audits_def)

lemma reports_trans: "reports u ds v \<Longrightarrow> reports v ds' w \<Longrightarrow> reports u (ds @ ds') w"
  unfolding reports_def by (fastforce simp: audit_grows_def dispatched_rows_def intro: exI [of _ "_ @ _"])

lemma reports_after: "reports u [] v \<Longrightarrow> reports v ds w \<Longrightarrow> reports u ds w"
  using reports_trans by fastforce

lemma audits_trans: "audits u v \<Longrightarrow> audits v w \<Longrightarrow> audits u w"
  by (fastforce simp: audits_def audit_grows_def)

lemma reports_alerts: "tables w' = (tables w)\<lparr>alerts := rows\<rparr> \<Longrightarrow> reports w [] w'"
  by (auto simp: reports_def audit_grows_def dispatched_rows_def)

lemma reports_action:
  "tables w' = (tables w)\<lparr>actions := actions (tables w) @ [row]\<rparr> \<Longrightarrow>
   reports w (if ac_status row = DISPATCHED then [action_to_record row] else []) w'"
  by (auto simp: reports_def audit_grows_def dispatched_rows_def)

lemma reports_outbox [simp]: "reports w ds (w'\<lparr>outbox := x\<rparr>) = reports w ds w'"
  by (simp add: reports_def audit_grows_def)

lemma maybe_escalate_reports:
  "wp (maybe_escalate e sv t r) (\<lambda>_. reports w []) (\<lambda>_. reports w []) w"
  unfolding maybe_escalate_def wp_simps
  by (auto simp: wp_simps split: sum.splits intro!: escalate_alert_rule intro: reports_Nil reports_alerts)

lemma maybe_remediate_reports:
  "wp (maybe_remediate e sv n result t r)
      (\<lambda>(_, d). reports w (case d of None \<Rightarrow> [] | Some x \<Rightarrow> [x])) (\<lambda>_. audits w) w"
proof -
  have mark: "wp (mark_remediated e i t)
      (\<lambda>v w'. reports w (case (if ac_status row = DISPATCHED then Some (action_to_record row) else None)
           of None \<Rightarrow> [] | Some x \<Rightarrow> [x]) w') (\<lambda>_. audits w) w'"
    if "tables w' = (tables w)\<lparr>actions := actions (tables w) @ [row]\<rparr>" for w' :: world and i row
    using reports_action [OF that]
    by (intro mark_remediated_rule)
      (auto dest: reports_alerts reports_Nil reports_trans intro: reports_audits split: if_splits)
  have "wp (decide (sql_action_repository e) eng n (al_id r) (rr_rule_key result) t)
     (\<lambda>v. wp (case v of None \<Rightarrow> ret (r, None)
           | Some dec \<Rightarrow> seq (mark_remediated e (al_id r) t) (\<lambda>updated.
               ret (updated, if ac_status dec = DISPATCHED then Some dec else None)))
        (\<lambda>(_, d). reports w (case d of None \<Rightarrow> [] | Some x \<Rightarrow> [x])) (\<lambda>_. audits w)) (\<lambda>_. audits w) w" for eng
    by (rule sql_log.decide_rule)
      (use mark in \<open>auto simp: wp_simps intro: reports_Nil reports_audits split: if_splits\<close>)
  then show ?thesis
    unfolding maybe_remediate_def wp_simps
    using reports_Nil [of w w] reports_audits [of w "[]" w]
    by (auto simp: wp_simps split: sum.splits option.splits)
qed

lemma apply_result_reports:
  "wp (apply_result e sv n t result)
      (\<lambda>y. reports w (List.map_filter snd [y])) (\<lambda>_. audits w) w"
proof -
  have adv: "wp (open_or_advance e sv n result t (Some a))
      (\<lambda>(_, d). reports w (case d of None \<Rightarrow> [] | Some x \<Rightarrow> [x])) (\<lambda>_. audits w) w'"
    if "same_data w w'" for w' a
    unfolding open_or_advance_def option.case wp_seq
  proof (rule update_last_fired_rule)
    fix r0 and w1 :: world
    assume "tables w1 = (tables w')\<lparr>alerts := put_row al_id
        (r0\<lparr>al_triggering_value := rr_value result, al_last_fired_at := t\<rparr>) (alerts (tables w'))\<rparr>"
    then have w1: "reports w [] w1"
      using reports_trans [OF reports_Nil [OF that]] reports_alerts by fastforce
    show "wp (maybe_escalate e sv t (alert_to_record
          (r0\<lparr>al_triggering_value := rr_value result, al_last_fired_at := t\<rparr>)))
        (\<lambda>v. wp (maybe_remediate e sv n result t v)
          (\<lambda>(_, d). reports w (case d of None \<Rightarrow> [] | Some x \<Rightarrow> [x])) (\<lambda>_. audits w)) (\<lambda>_. audits w) w1"
      by (rule wp_mono [OF maybe_escalate_reports])
        (auto intro!: wp_mono [OF maybe_remediate_reports] intro: reports_audits
          dest: reports_after [OF w1] reports_after audits_trans [OF reports_audits] split: prod.splits)
  qed (use that in \<open>auto intro: reports_audits reports_Nil same_data_trans\<close>)
  have opens: "wp (open_alert e sv n result t) (\<lambda>_. reports w []) (\<lambda>_. audits w) w'" if "same_data w w'" for w'
    unfolding open_alert_def wp_seq
    by (rule create_alert_rule)
      (auto simp: wp_simps intro: reports_audits reports_Nil same_data_trans [OF that]
        dest!: reports_alerts reports_after [OF reports_Nil [OF that]])
  have resolves: "wp (resolve e sv t a) (\<lambda>_. reports w []) (\<lambda>_. audits w) w'" if "same_data w w'" for w' a
    unfolding resolve_def wp_seq
    by (rule resolve_alert_rule)
      (auto simp: wp_simps intro: reports_audits reports_Nil same_data_trans [OF that]
        dest!: reports_alerts reports_after [OF reports_Nil [OF that]])
  show ?thesis
    unfolding apply_result_def wp_seq
    by (rule find_open_alert_rule)
      (auto simp: wp_simps open_or_advance_def [of _ _ _ _ _ None] map_filter_def
        intro: reports_audits reports_Nil wp_mono [OF opens] wp_mono [OF resolves] wp_mono [OF adv] split: option.splits)
qed

lemma map_filter_append: "List.map_filter f (xs @ ys) = List.map_filter f xs @ List.map_filter f ys"
  by (simp add: map_filter_def)

lemma evaluate_and_apply_reports:
  "wp (evaluate_and_apply e sv n ss t)
      (\<lambda>outcome. reports w (eo_dispatched_actions outcome)) (\<lambda>_. audits w) w"
  unfolding evaluate_and_apply_def wp_seq
proof (rule wp_mono [OF evaluate_rule])
  fix results w'
  assume "same_data w w' \<and> (\<forall>r \<in> set results. engine_result r)"
  then have w': "reports w [] w'"
    by (auto intro: reports_Nil)
  have "wp (for_each (apply_result e sv n t) results)
      (\<lambda>ys. reports w' (List.map_filter snd ys)) (\<lambda>_. audits w') w'"
    by (rule wp_for_each_acc [where R = "\<lambda>ys w w'. reports w (List.map_filter snd ys) w'"])
      (simp add: map_filter_def reports_Nil, simp add: map_filter_append reports_trans,
        rule audits_trans [OF reports_audits], assumption+, rule apply_result_reports)
  then show "wp (for_each (apply_result e sv n t) results)
      (\<lambda>outs. wp (ret \<lparr>eo_transitions = List.map_filter fst outs, eo_dispatched_actions = List.map_filter snd outs\<rparr>)
         (\<lambda>outcome. reports w (eo_dispatched_actions outcome)) (\<lambda>_. audits w)) (\<lambda>_. audits w) w'"
    by (rule wp_mono) (auto simp: wp_simps intro: reports_after [OF w'] audits_trans [OF reports_audits [OF w']])
qed (auto intro: reports_audits reports_Nil)

text \<open>The wire form of a dispatched row.\<close>

definition wire_action :: "action_row \<Rightarrow> pending_action" where
  "wire_action x = \<lparr>pa_action_id = ac_id x, pa_action_type = ac_action_type x, pa_parameters = ac_parameters x\<rparr>"

definition wire_actions :: "action_row list \<Rightarrow> pending_action list" where
  "wire_actions rows = map wire_action (filter (\<lambda>x. ac_status x = DISPATCHED) rows)"

lemma wire_dispatched:
  "map (\<lambda>a. \<lparr>pa_action_id = ac_id a, pa_action_type = ac_action_type a, pa_parameters = ac_parameters a\<rparr>)
     (dispatched_rows new) = wire_actions new"
  by (simp add: dispatched_rows_def wire_actions_def wire_action_def)

text \<open>
  Best effort: whatever happens, no exception comes out; the actions reported are the dispatched
  rows this evaluation added, or none when it was cut short.
\<close>

lemma evaluate_rules_reports:
  "wp (evaluate_rules_best_effort e alert_evaluation p)
      (\<lambda>pas w'. \<exists>new. audit_grows w w' new \<and> (pas = wire_actions new \<or> pas = [])) (\<lambda>_ _. False) w"
proof (cases alert_evaluation)
  case None
  then show ?thesis
    by (auto simp: evaluate_rules_best_effort_def wp_simps audit_grows_def)
next
  case (Some sv)
  have "wp (evaluate_and_apply e sv (pl_node_id p) (pl_samples p) (pl_collected_at p))
      (\<lambda>outcome w'. \<exists>new. audit_grows w w' new \<and>
         (map (\<lambda>a. \<lparr>pa_action_id = ac_id a, pa_action_type = ac_action_type a, pa_parameters = ac_parameters a\<rparr>)
            (eo_dispatched_actions outcome) = wire_actions new \<or> eo_dispatched_actions outcome = []))
      (\<lambda>_. audits w) w"
    by (rule wp_mono [OF evaluate_and_apply_reports]) (auto simp: reports_def wire_dispatched [symmetric])
  then show ?thesis
    unfolding evaluate_rules_best_effort_def Some option.case wp_attempt wp_seq wp_ret
    by (rule wp_mono) (auto simp: audits_def)
qed

text \<open>
  The outcome of an ingestion. It fails only with a \<open>PersistenceError\<close>, and then no sample, alert
  or action was written and no message sent. It succeeds with every sample of the payload stored
  and the node seen at the time the payload carries.
\<close>

lemma ingest_rule:
  "wp (ingest e stale alert_evaluation p received_at now)
     (\<lambda>ack w'. ack_accepted ack \<and> ack_received_at ack = utc received_at \<and>
        nodes (tables w') = nodes (seen_db (pl_node_id p) (pl_collected_at p) (tables w)) \<and>
        (\<exists>k. samples (tables w') = samples (tables w) @
           sample_rows k (pl_node_id p) (pl_samples p) (pl_collected_at p) (utc received_at)) \<and>
        (\<exists>new. actions (tables w') = actions (tables w) @ new \<and>
           (ack_pending_actions ack = wire_actions new \<or> ack_pending_actions ack = [])))
     (\<lambda>x w'. \<not> no_faults e \<and> (\<exists>m. x = PersistenceError m) \<and> samples (tables w') = samples (tables w) \<and>
        alerts (tables w') = alerts (tables w) \<and> actions (tables w') = actions (tables w) \<and>
        outbox w' = outbox w) w"
  unfolding ingest_def wp_seq
  by (intro record_seen_rule bulk_insert_rule)
    (auto simp: seen_db_keys same_data_def wp_simps audit_grows_def intro!: wp_mono [OF evaluate_rules_reports])

end
