(* ===== verification/Action_Service.thy ===== *)
theory Action_Service
  imports Alert_Refinement
begin

text \<open>
  \<open>collector/services/remediation.py\<close>: reading the Playbook audit log and accepting the result an
  Agent reports, which is recorded once and only for an action that was dispatched.
\<close>

primrec result_status_to_action_status :: "result_status \<Rightarrow> action_status" where
  "result_status_to_action_status RESULT_EXECUTED = EXECUTED"
| "result_status_to_action_status RESULT_FAILED = FAILED"

definition get_action :: "env \<Rightarrow> int \<Rightarrow> (world, exn, action_row) comp" where
  "get_action e action_id =
     seq (action_get e action_id) (\<lambda>record.
     case record of
       None \<Rightarrow> raise (RemediationActionNotFoundError
                 (''remediation action '' @ show_int action_id @ '' does not exist''))
     | Some r \<Rightarrow> ret r)"

definition list_actions :: "env \<Rightarrow> string option \<Rightarrow> (world, exn, action_row list) comp" where
  "list_actions e node_id = action_list e node_id"

definition report_result :: "env \<Rightarrow> int \<Rightarrow> action_result \<Rightarrow> datetime \<Rightarrow> (world, exn, action_row) comp" where
  "report_result e action_id result now =
     seq (get_action e action_id) (\<lambda>current.
     if ac_status current \<noteq> DISPATCHED
     then raise (RemediationActionNotDispatchedError
            (''remediation action '' @ show_int action_id @ '' is not awaiting a result (status='' @
             py_repr (action_status_value (ac_status current)) @ '')''))
     else mark_result e action_id (result_status_to_action_status (ar_status result)) (ar_message result) now)"

subsection \<open>What reporting does\<close>

text \<open>The row after a result.\<close>

definition finished :: "action_status \<Rightarrow> string option \<Rightarrow> datetime \<Rightarrow> action_row \<Rightarrow> action_row" where
  "finished st reason t x = x\<lparr>ac_status := st, ac_reason := reason, ac_completed_at := Some t\<rparr>"

lemma finished_simps [simp]:
  "ac_id (finished st reason t x) = ac_id x" "ac_status (finished st reason t x) = st"
  by (simp_all add: finished_def)

lemma finished_refines:
  assumes "x \<in> set (actions (tables w))" and "ac_status x = DISPATCHED" and "st \<in> {EXECUTED, FAILED}"
    and "tables w' = (tables w)\<lparr>actions := put_row ac_id (finished st reason t x) (actions (tables w))\<rparr>"
    and "outbox w' = outbox w"
  shows "refines e sv no_drop w w'"
  using lstep.action_finished [OF assms(1-3), of sv t reason] assms(4,5)
  by (intro refines_step [of sv Quiet]) (auto simp: finished_def)

lemma report_result_rule:
  assumes "\<And>x w'. same_data w w' \<Longrightarrow> \<not> no_faults e \<Longrightarrow> E (PersistenceError x) w'"
    and "\<And>m w'. same_data w w' \<Longrightarrow> action_id \<notin> ac_id ` set (actions (tables w)) \<Longrightarrow>
           E (RemediationActionNotFoundError m) w'"
    and "\<And>m r w'. same_data w w' \<Longrightarrow> row_at ac_id action_id (actions (tables w)) = Some r \<Longrightarrow>
           ac_status r \<noteq> DISPATCHED \<Longrightarrow> E (RemediationActionNotDispatchedError m) w'"
    and "\<And>r w'. row_at ac_id action_id (actions (tables w)) = Some r \<Longrightarrow> ac_status r = DISPATCHED \<Longrightarrow>
           tables w' = (tables w)\<lparr>actions := put_row ac_id
             (finished (result_status_to_action_status (ar_status result)) (ar_message result) now r)
             (actions (tables w))\<rparr> \<Longrightarrow> outbox w' = outbox w \<Longrightarrow>
           Q (action_to_record (finished (result_status_to_action_status (ar_status result))
                (ar_message result) now r)) w'"
  shows "wp (report_result e action_id result now) Q E w"
  unfolding report_result_def get_action_def wp_seq
proof (rule action_get_rule)
  let ?st = "result_status_to_action_status (ar_status result)"
  fix w'
  assume same: "same_data w w'"
  have "wp (mark_result e action_id ?st (ar_message result) now) Q E w'"
    if "row_at ac_id action_id (actions (tables w)) = Some r" "ac_status r = DISPATCHED" for r
    by (rule mark_result_rule)
      (use that same same_data_trans [OF same] in \<open>auto simp: same_data_def
        intro!: assms(1) assms(4) [unfolded finished_def]\<close>)
  then show "wp (case map_option action_to_record (row_at ac_id action_id (actions (tables w))) of
        None \<Rightarrow> raise (RemediationActionNotFoundError
          (''remediation action '' @ show_int action_id @ '' does not exist''))
      | Some r \<Rightarrow> ret r)
    (\<lambda>v. wp (if ac_status v \<noteq> DISPATCHED then raise (RemediationActionNotDispatchedError
          (''remediation action '' @ show_int action_id @ '' is not awaiting a result (status='' @
           py_repr (action_status_value (ac_status v)) @ '')''))
        else mark_result e action_id ?st (ar_message result) now) Q E) E w'"
    using assms(2,3) same by (auto simp: wp_simps row_at_None split: option.splits)
qed (rule assms(1))

lemma report_result_keeps:
  "wp (report_result e i result t) (\<lambda>_. keeps_inv e sv no_drop w) (\<lambda>_. keeps_inv e sv no_drop w) w"
proof (rule report_result_rule)
  fix r and w' :: world
  assume r: "row_at ac_id i (actions (tables w)) = Some r" "ac_status r = DISPATCHED"
    and w': "tables w' = (tables w)\<lparr>actions := put_row ac_id
       (finished (result_status_to_action_status (ar_status result)) (ar_message result) t r)
       (actions (tables w))\<rparr>" "outbox w' = outbox w"
  have "result_status_to_action_status (ar_status result) \<in> {EXECUTED, FAILED}"
    by (cases "ar_status result") auto
  then show "keeps_inv e sv no_drop w w'"
    using row_at_SomeD [OF r(1)] r(2) w' by (intro keeps_invI finished_refines) auto
qed (auto intro: keeps_inv_same)

end
