(* ===== verification/Staleness_Job.thy ===== *)
theory Staleness_Job
  imports Node_Registry
begin

text \<open>
  \<open>collector/jobs/staleness.py\<close>: the dead-man switch. One sweep opens an alert for every silent
  node and resolves the alert of every node that is back; the first completed sweep of a process
  only observes. Its rule key is in a namespace of its own.
\<close>

definition STALENESS_RULE_KEY :: string where
  "STALENESS_RULE_KEY = ''staleness:node_heartbeat''"

text \<open>\<open>int(x)\<close> of a float.\<close>

fun py_int :: "pyfloat \<Rightarrow> exn + int" where
  "py_int (Fin x) = Inr (trunc_rat x)"
| "py_int NaN = Inl ValueErr"
| "py_int PInf = Inl OverflowErr"
| "py_int NInf = Inl OverflowErr"

text \<open>The counters of a run; one node adds what its iteration returns.\<close>

record staleness_stats =
  ss_stale :: int
  ss_opened :: int
  ss_resolved :: int

definition staleness_react ::
    "env \<Rightarrow> telegram_notifier option \<Rightarrow> pyfloat \<Rightarrow> bool \<Rightarrow> datetime \<Rightarrow> string \<Rightarrow> pyfloat \<Rightarrow>
     alert_row option \<Rightarrow> (world, exn, staleness_stats) comp" where
  "staleness_react e notifier stale_after_seconds first_run_done now node_id silent_seconds found =
     (if fle stale_after_seconds silent_seconds
      then if found = None \<and> first_run_done
           then seq (from_result (py_int silent_seconds)) (\<lambda>secs.
                seq (seq (create_alert e node_id STALENESS_RULE_KEY STALENESS CRITICAL
                       (''Node has stopped reporting (no metrics or heartbeat for '' @ show_int secs @ ''s)'')
                       silent_seconds stale_after_seconds now) (\<lambda>record.
                     seq (notify e notifier (format_opened e record)) (\<lambda>_. ret record)))
                  (\<lambda>_. ret \<lparr>ss_stale = 1, ss_opened = 1, ss_resolved = 0\<rparr>))
           else ret \<lparr>ss_stale = 1, ss_opened = 0, ss_resolved = 0\<rparr>
      else case found of
             None \<Rightarrow> ret \<lparr>ss_stale = 0, ss_opened = 0, ss_resolved = 0\<rparr>
           | Some a \<Rightarrow>
               seq (seq (resolve_alert e (al_id a) now) (\<lambda>record.
                    seq (notify e notifier (format_resolved record)) (\<lambda>_. ret record)))
                 (\<lambda>_. ret \<lparr>ss_stale = 0, ss_opened = 0, ss_resolved = 1\<rparr>))"

definition staleness_node ::
    "env \<Rightarrow> telegram_notifier option \<Rightarrow> pyfloat \<Rightarrow> bool \<Rightarrow> datetime \<Rightarrow> node_row \<Rightarrow>
     (world, exn, staleness_stats) comp" where
  "staleness_node e notifier stale_after_seconds first_run_done now node =
     seq (from_result (dt_sub now (nd_last_seen_at node))) (\<lambda>td.
     seq (find_open_alert e (nd_node_id node) STALENESS_RULE_KEY) (\<lambda>found.
     staleness_react e notifier stale_after_seconds first_run_done now (nd_node_id node)
       (total_seconds td) found))"

definition staleness_sweep ::
    "env \<Rightarrow> telegram_notifier option \<Rightarrow> pyfloat \<Rightarrow> bool \<Rightarrow> datetime \<Rightarrow> (world, exn, staleness_stats) comp" where
  "staleness_sweep e notifier stale_after_seconds first_run_done now =
     seq (node_list_all e) (\<lambda>ns.
     seq (for_each (staleness_node e notifier stale_after_seconds first_run_done now) ns) (\<lambda>counts.
     ret \<lparr>ss_stale = sum_list (map ss_stale counts), ss_opened = sum_list (map ss_opened counts),
          ss_resolved = sum_list (map ss_resolved counts)\<rparr>))"

text \<open>\<open>run\<close>: the flag is part of the job's state and set when a sweep has gone through.\<close>

definition staleness_run ::
    "env \<Rightarrow> telegram_notifier option \<Rightarrow> pyfloat \<Rightarrow> datetime \<Rightarrow> (world \<times> bool, exn, staleness_stats) comp" where
  "staleness_run e notifier stale_after_seconds now = (\<lambda>(w, first_run_done).
     case staleness_sweep e notifier stale_after_seconds first_run_done now w of
       (Inl x, w') \<Rightarrow> (Inl x, (w', first_run_done))
     | (Inr stats, w') \<Rightarrow> (Inr stats, (w', True)))"

subsection \<open>Refinement\<close>

lemma staleness_key: "\<not> engine_key STALENESS_RULE_KEY"
proof
  assume "engine_key STALENESS_RULE_KEY"
  then obtain kind mt where "kind \<noteq> STALENESS" "STALENESS_RULE_KEY = rule_key_of kind mt"
    by (auto simp: engine_key_def)
  then have "rule_kind_value kind = takeWhile (\<lambda>c. c \<noteq> CHR '':'') STALENESS_RULE_KEY"
    using rule_key_prefix by metis
  then show False
    using \<open>kind \<noteq> STALENESS\<close> by (cases kind) (simp_all add: STALENESS_RULE_KEY_def)
qed

text \<open>Whether a node has a firing staleness alert.\<close>

definition staleness_open :: "world \<Rightarrow> string \<Rightarrow> bool" where
  "staleness_open w i \<longleftrightarrow> (\<exists>r \<in> set (alerts (tables w)). is_open i STALENESS_RULE_KEY r)"

definition silent :: "pyfloat \<Rightarrow> datetime \<Rightarrow> node_row \<Rightarrow> bool" where
  "silent stale_after_seconds now node \<longleftrightarrow>
     fle stale_after_seconds (total_seconds (us now - us (nd_last_seen_at node)))"

lemma staleness_open_same: "same_data w w' \<Longrightarrow> staleness_open w' = staleness_open w"
  by (simp add: staleness_open_def same_data_def fun_eq_iff)

text \<open>One node: the specification is followed, and only this node's alert changes.\<close>

lemma staleness_create_rule:
  assumes none: "filter (is_open i STALENESS_RULE_KEY) (alerts (tables w)) = []"
  shows "wp (seq (create_alert e i STALENESS_RULE_KEY STALENESS sev descr v b t) (\<lambda>record.
           seq (notify e notifier (format_opened e record)) (\<lambda>_. ret record)))
     (\<lambda>_ w'. staleness_open w' = (staleness_open w)(i := True))
     (\<lambda>_ _. True) w"
  unfolding wp_seq
  by (rule create_alert_rule)
    (auto simp: wp_simps staleness_open_def fun_eq_iff is_open_def new_alert_def)

lemma staleness_resolve_rule:
  assumes inv: "db_inv sv (tables w)" and mem: "r \<in> set (alerts (tables w))"
    and op: "is_open i STALENESS_RULE_KEY r"
  shows "wp (seq (resolve_alert e (al_id r) t) (\<lambda>record.
           seq (notify e notifier (format_resolved record)) (\<lambda>_. ret record)))
     (\<lambda>_ w'. staleness_open w' = (staleness_open w)(i := False))
     (\<lambda>_ _. True) w"
  unfolding wp_seq
proof (rule own_resolve_rule [OF inv mem])
  let ?r = "r\<lparr>al_status := RESOLVED, al_resolved_at := Some t\<rparr>"
  fix w' :: world
  assume w': "tables w' = (tables w)\<lparr>alerts := put_row al_id ?r (alerts (tables w))\<rparr>" "outbox w' = outbox w"
  have only: "x = r" if "x \<in> set (alerts (tables w))" "is_open i STALENESS_RULE_KEY x \<or> al_id x = al_id r" for x
    using that mem op inv unfolding db_inv_def one_firing_def keys_ok_def distinct_map inj_on_def by metis
  have rows: "x \<in> set (put_row al_id ?r (alerts (tables w))) \<longleftrightarrow>
      x = ?r \<or> (x \<in> set (alerts (tables w)) \<and> x \<noteq> r)" for x
    using only mem by (auto simp: put_row_def image_iff)
  have "staleness_open w' j = ((staleness_open w)(i := False)) j" for j
    using only op by (auto simp: staleness_open_def w' rows is_open_def)
  then show "wp (notify e notifier (format_resolved (alert_to_record ?r)))
      (\<lambda>_. wp (ret (alert_to_record ?r)) (\<lambda>_ w'. staleness_open w' = (staleness_open w)(i := False)) (\<lambda>_ _. True)) (\<lambda>_ _. True) w'"
    using w' by (simp add: wp_simps fun_eq_iff staleness_open_def)
qed simp

text \<open>The two effects of an iteration together: it follows the specification and sets the flag.\<close>

definition swept :: "env \<Rightarrow> alert_service \<Rightarrow> world \<Rightarrow> (string \<Rightarrow> bool) \<Rightarrow> world \<Rightarrow> bool" where
  "swept e sv w f w' \<longleftrightarrow> refines e sv no_drop w w' \<and> staleness_open w' = f"

lemma swept_trans: "refines e sv no_drop u v \<Longrightarrow> swept e sv v f w \<Longrightarrow> swept e sv u f w"
  by (auto simp: swept_def intro: refines_trans)

lemma create_swept:
  assumes "filter (is_open i STALENESS_RULE_KEY) (alerts (tables w)) = []"
  shows "wp (seq (create_alert e i STALENESS_RULE_KEY STALENESS sev descr v b t) (\<lambda>record.
           seq (notify e (sv_notifier sv) (format_opened e record)) (\<lambda>_. ret record)))
     (\<lambda>_. swept e sv w ((staleness_open w)(i := True))) (\<lambda>_. refines e sv no_drop w) w"
  using wp_conj [OF create_notify_refines [OF assms, of STALENESS e sv "\<lambda>_. refines e sv no_drop w"
        "\<lambda>_. refines e sv no_drop w"] staleness_create_rule [OF assms]] staleness_key
  by (simp add: swept_def [abs_def])

lemma resolve_swept:
  assumes inv: "db_inv sv (tables w)" and mem: "r \<in> set (alerts (tables w))"
    and op: "is_open i STALENESS_RULE_KEY r"
  shows "wp (seq (resolve_alert e (al_id r) t) (\<lambda>record.
           seq (notify e (sv_notifier sv) (format_resolved record)) (\<lambda>_. ret record)))
     (\<lambda>_. swept e sv w ((staleness_open w)(i := False))) (\<lambda>_. refines e sv no_drop w) w"
proof -
  have "al_status r = FIRING"
    using op by (simp add: is_open_def)
  from wp_conj [OF resolve_refines [OF inv mem this, of e "\<lambda>_. refines e sv no_drop w"
        "\<lambda>_. refines e sv no_drop w"] staleness_resolve_rule [OF inv mem op]]
  show ?thesis
    by (simp add: swept_def [abs_def])
qed

lemma swept_same: "same_data w w' \<Longrightarrow> swept e sv w (staleness_open w) w'"
  by (simp add: swept_def refines_refl staleness_open_same)

lemma start_same:
  assumes "same_data w w'"
  shows "refines e sv P w' = refines e sv P w" "swept e sv w' = swept e sv w"
  using assms by (auto simp: refines_def swept_def same_data_def fun_eq_iff)

lemma react_none_rule:
  assumes none: "filter (is_open i STALENESS_RULE_KEY) (alerts (tables w)) = []"
  shows "wp (staleness_react e (sv_notifier sv) stale fd now i v None)
     (\<lambda>_. swept e sv w ((staleness_open w)(i := fle stale v \<and> fd))) (\<lambda>_. refines e sv no_drop w) w"
proof -
  have "staleness_open w i = False"
    using none by (auto simp: staleness_open_def filter_empty_conv)
  then show ?thesis
    using create_swept [OF none] swept_same [of w w e sv] refines_refl [of w w e sv no_drop]
    by (auto simp: staleness_react_def wp_simps fun_upd_idem split: sum.splits)
qed

lemma react_some_rule:
  assumes "db_inv sv (tables w)" and "r \<in> set (alerts (tables w))" and op: "is_open i STALENESS_RULE_KEY r"
  shows "wp (staleness_react e (sv_notifier sv) stale fd now i v (Some (alert_to_record r)))
     (\<lambda>_. swept e sv w ((staleness_open w)(i := fle stale v))) (\<lambda>_. refines e sv no_drop w) w"
proof -
  have "staleness_open w i = True"
    using assms(2,3) by (auto simp: staleness_open_def)
  then show ?thesis
    using resolve_swept [OF assms] swept_same [of w w e sv]
    by (auto simp: staleness_react_def wp_simps fun_upd_idem)
qed

lemma staleness_node_rule:
  assumes inv: "db_inv sv (tables w)"
  shows "wp (staleness_node e (sv_notifier sv) stale fd now (node_to_record node))
     (\<lambda>_. swept e sv w ((staleness_open w)(nd_node_id node :=
        silent stale now node \<and> (staleness_open w (nd_node_id node) \<or> fd)))) (\<lambda>_. refines e sv no_drop w) w"
proof (cases "dt_sub now (nd_last_seen_at (node_to_record node))")
  case (Inl x)
  then show ?thesis
    by (simp add: staleness_node_def wp_simps refines_refl)
next
  case (Inr td)
  have td: "fle stale (total_seconds td) \<longleftrightarrow> silent stale now node"
    using Inr by (auto simp: silent_def dt_sub_def node_to_record_def split: if_splits)
  have id: "nd_node_id (node_to_record node) = nd_node_id node"
    by (simp add: node_to_record_def)
  show ?thesis
    unfolding staleness_node_def Inr wp_seq wp_from_result sum.case id
  proof (rule find_open_alert_rule)
    fix w'
    assume same: "same_data w w'"
      and none: "filter (is_open (nd_node_id node) STALENESS_RULE_KEY) (alerts (tables w)) = []"
    then have "\<not> staleness_open w (nd_node_id node)"
      by (auto simp: staleness_open_def filter_empty_conv)
    with same none show "wp (staleness_react e (sv_notifier sv) stale fd now (nd_node_id node) (total_seconds td) None)
      (\<lambda>_. swept e sv w ((staleness_open w)(nd_node_id node :=
        silent stale now node \<and> (staleness_open w (nd_node_id node) \<or> fd)))) (\<lambda>_. refines e sv no_drop w) w'"
      using react_none_rule [of "nd_node_id node" w' e sv stale fd now "total_seconds td"]
      by (simp add: start_same [OF same] staleness_open_same [OF same] same_dataD [OF same] td)
  next
    fix r w'
    assume same: "same_data w w'"
      and r: "r \<in> set (alerts (tables w))" "is_open (nd_node_id node) STALENESS_RULE_KEY r"
    then have "staleness_open w (nd_node_id node)"
      by (auto simp: staleness_open_def)
    with same r inv show "wp (staleness_react e (sv_notifier sv) stale fd now (nd_node_id node) (total_seconds td)
        (Some (alert_to_record r)))
      (\<lambda>_. swept e sv w ((staleness_open w)(nd_node_id node :=
        silent stale now node \<and> (staleness_open w (nd_node_id node) \<or> fd)))) (\<lambda>_. refines e sv no_drop w) w'"
      using react_some_rule [of sv w' r "nd_node_id node" e stale fd now "total_seconds td"]
      by (simp add: start_same [OF same] staleness_open_same [OF same] same_dataD [OF same] td)
  qed (rule refines_refl)
qed

subsection \<open>The sweep\<close>

text \<open>The firing staleness alerts after a sweep over the given nodes.\<close>

definition flags_after ::
    "pyfloat \<Rightarrow> datetime \<Rightarrow> bool \<Rightarrow> node_row list \<Rightarrow> (string \<Rightarrow> bool) \<Rightarrow> string \<Rightarrow> bool" where
  "flags_after stale now fd ns f i =
     (case row_at nd_node_id i ns of
        None \<Rightarrow> f i
      | Some node \<Rightarrow> silent stale now node \<and> (f i \<or> fd))"

lemma flags_after_Cons:
  "nd_node_id n \<notin> nd_node_id ` set ns \<Longrightarrow>
   flags_after stale now fd ns (f(nd_node_id n := silent stale now n \<and> (f (nd_node_id n) \<or> fd))) =
   flags_after stale now fd (n # ns) f"
proof (rule ext)
  fix i
  assume "nd_node_id n \<notin> nd_node_id ` set ns"
  then have "row_at nd_node_id (nd_node_id n) ns = None"
    by (simp add: row_at_None)
  moreover have "row_at nd_node_id i (n # ns) = (if nd_node_id n = i then Some n else row_at nd_node_id i ns)"
    by (simp add: row_at_def)
  ultimately show "flags_after stale now fd ns (f(nd_node_id n := silent stale now n \<and> (f (nd_node_id n) \<or> fd))) i =
      flags_after stale now fd (n # ns) f i"
    by (auto simp: flags_after_def split: option.splits)
qed

lemma staleness_loop:
  "db_inv sv (tables w) \<Longrightarrow> distinct (map nd_node_id ns) \<Longrightarrow>
   wp (for_each (staleness_node e (sv_notifier sv) stale fd now) (map node_to_record ns))
     (\<lambda>_. swept e sv w (flags_after stale now fd ns (staleness_open w))) (\<lambda>_. refines e sv no_drop w) w"
proof (induction ns arbitrary: w)
  case Nil
  have "flags_after stale now fd [] (staleness_open w) = staleness_open w"
    by (simp add: flags_after_def fun_eq_iff row_at_def)
  then show ?case
    by (simp add: wp_simps swept_same)
next
  case (Cons n ns)
  show ?case
    unfolding list.map for_each.simps wp_seq wp_ret
  proof (rule wp_mono [OF staleness_node_rule [OF Cons.prems(1)]])
    fix w'
    assume w': "swept e sv w ((staleness_open w)(nd_node_id n :=
        silent stale now n \<and> (staleness_open w (nd_node_id n) \<or> fd))) w'"
    then have ref: "refines e sv no_drop w w'"
      by (simp add: swept_def)
    have "flags_after stale now fd ns (staleness_open w') = flags_after stale now fd (n # ns) (staleness_open w)"
      using w' Cons.prems(2) flags_after_Cons [of n ns] by (simp add: swept_def)
    then show "wp (for_each (staleness_node e (sv_notifier sv) stale fd now) (map node_to_record ns))
        (\<lambda>_. swept e sv w (flags_after stale now fd (n # ns) (staleness_open w)))
        (\<lambda>_. refines e sv no_drop w) w'"
      using Cons.IH [OF refines_inv [OF ref Cons.prems(1)]] Cons.prems(2)
      by (auto elim!: wp_mono intro: swept_trans [OF ref] refines_trans [OF ref])
  qed
qed

lemma row_at_mset:
  assumes "mset rows = mset rows'" and "distinct (map key rows')"
  shows "row_at key k rows = row_at key k rows'"
proof -
  have "set rows = set rows'"
    using assms(1) by (rule mset_eq_setD)
  have "distinct (map key rows)"
    using assms mset_eq_imp_distinct_iff [of "map key rows" "map key rows'"] by simp
  show ?thesis
  proof (cases "row_at key k rows'")
    case None
    then show ?thesis
      using \<open>set rows = set rows'\<close> by (metis row_at_None)
  next
    case (Some r)
    then show ?thesis
      using row_at_SomeD [OF Some] row_at_mem [OF \<open>distinct (map key rows)\<close>, of r] \<open>set rows = set rows'\<close> by simp
  qed
qed

lemma staleness_sweep_rule:
  assumes inv: "db_inv sv (tables w)"
  shows "wp (staleness_sweep e (sv_notifier sv) stale fd now)
     (\<lambda>_. swept e sv w (flags_after stale now fd (nodes (tables w)) (staleness_open w)))
     (\<lambda>_. refines e sv no_drop w) w"
  unfolding staleness_sweep_def wp_seq wp_ret
proof (rule node_list_all_rule)
  fix rows w'
  assume same: "same_data w w'" and perm: "mset rows = mset (nodes (tables w))"
  have d: "distinct (map nd_node_id (nodes (tables w)))"
    using inv by (simp add: db_inv_def keys_ok_def)
  then have "distinct (map nd_node_id rows)"
    using perm by (metis mset_eq_imp_distinct_iff mset_map)
  moreover have "flags_after stale now fd rows = flags_after stale now fd (nodes (tables w))"
    using row_at_mset [OF perm d] by (simp add: flags_after_def fun_eq_iff)
  ultimately show "wp (for_each (staleness_node e (sv_notifier sv) stale fd now) (map node_to_record rows))
      (\<lambda>_. swept e sv w (flags_after stale now fd (nodes (tables w)) (staleness_open w)))
      (\<lambda>_. refines e sv no_drop w) w'"
    using staleness_loop [of sv w' rows e stale fd now] inv
    by (simp add: start_same [OF same] staleness_open_same [OF same] same_dataD [OF same])
qed (rule refines_refl)

lemma staleness_run_state:
  "snd (staleness_run e notifier stale now (w, fd)) =
     (snd (staleness_sweep e notifier stale fd now w),
      fd \<or> (\<exists>v. fst (staleness_sweep e notifier stale fd now w) = Inr v))"
  by (auto simp: staleness_run_def split: prod.splits sum.splits)

lemma staleness_sweep_keeps:
  "wp (staleness_sweep e (sv_notifier sv) stale fd now)
     (\<lambda>_. keeps_inv e sv no_drop w) (\<lambda>_. keeps_inv e sv no_drop w) w"
  by (rule wp_keeps_invI, rule wp_mono [OF staleness_sweep_rule]) (auto simp: swept_def)

subsection \<open>A healthy database\<close>

text \<open>When no statement fails and the dates are dates, a sweep goes through.\<close>

lemma staleness_node_healthy:
  assumes "no_faults e" and "aware now" "in_range now" and "in_range (nd_last_seen_at n)"
    and "nd_node_id n \<in> nd_node_id ` set (nodes (tables w))"
  shows "wp (staleness_node e notifier stale fd now (node_to_record n))
     (\<lambda>_ w'. nodes (tables w') = nodes (tables w)) (\<lambda>_ _. False) w"
proof -
  obtain x where x: "total_seconds (us now - us (nd_last_seen_at n)) = Fin x"
    using total_seconds_Fin assms(3,4) by (fastforce simp: in_range_def)
  have open_ok: "wp (create_alert e (nd_node_id n) k kd sev d v b t) Q (\<lambda>_ _. False) w'"
    if "tables w' = tables w" "\<And>v u. nodes (tables u) = nodes (tables w) \<Longrightarrow> Q v u" for w' k kd sev d v b t Q
    by (rule create_alert_rule) (use that assms in auto)
  have resolve_ok: "wp (resolve_alert e (al_id r) t) Q (\<lambda>_ _. False) w'"
    if "tables w' = tables w" "r \<in> set (alerts (tables w))" "\<And>v u. nodes (tables u) = nodes (tables w) \<Longrightarrow> Q v u"
    for w' r t Q
    by (rule resolve_alert_rule) (use that assms in \<open>auto simp: row_at_None\<close>)
  have id: "nd_node_id (node_to_record n) = nd_node_id n" "us (nd_last_seen_at (node_to_record n)) = us (nd_last_seen_at n)"
      "aware (nd_last_seen_at (node_to_record n))"
    by (simp_all add: node_to_record_def)
  show ?thesis
    unfolding staleness_node_def wp_seq id
    using assms(1,2) id
    by (auto simp: dt_sub_def wp_simps staleness_react_def x same_data_def intro!: find_open_alert_rule open_ok resolve_ok)
qed

lemma staleness_sweep_healthy:
  assumes "no_faults e" and "aware now" "in_range now"
    and "\<And>n. n \<in> set (nodes (tables w)) \<Longrightarrow> in_range (nd_last_seen_at n)"
  shows "wp (staleness_sweep e notifier stale fd now) (\<lambda>_ _. True) (\<lambda>_ _. False) w"
  unfolding staleness_sweep_def wp_seq wp_ret
proof (rule node_list_all_rule)
  fix rows w'
  assume same: "same_data w w'" and perm: "mset rows = mset (nodes (tables w))"
  have rows: "set rows = set (nodes (tables w))"
    using perm by (rule mset_eq_setD)
  have "wp (for_each (staleness_node e notifier stale fd now) (map node_to_record rows))
      (\<lambda>ys u. nodes (tables u) = nodes (tables w) \<and> (\<forall>y \<in> set ys. True)) (\<lambda>_ _. False) w'"
  proof (rule wp_for_each_inv)
    fix x and t :: world
    assume "x \<in> set (map node_to_record rows)" and t: "nodes (tables t) = nodes (tables w)"
    then obtain n where n: "x = node_to_record n" "n \<in> set (nodes (tables w))"
      using rows by auto
    show "wp (staleness_node e notifier stale fd now x)
        (\<lambda>y u. nodes (tables u) = nodes (tables w) \<and> True) (\<lambda>x u. False) t"
      unfolding n(1) by (rule wp_mono [OF staleness_node_healthy]) (use assms n(2) t in auto)
  qed (use same in \<open>simp add: same_data_def\<close>)
  then show "wp (for_each (staleness_node e notifier stale fd now) (map node_to_record rows))
      (\<lambda>_ _. True) (\<lambda>_ _. False) w'"
    by (rule wp_mono) auto
qed (use assms(1) in simp)

end
