(* ===== verification/Reconciliation_Job.thy ===== *)
theory Reconciliation_Job
  imports Action_Service Node_Registry
begin

text \<open>
  \<open>collector/jobs/reconciliation.py\<close>: dispatches that never got an answer are failed after a
  timeout, so that the audit log converges. The job's effect on the table is given exactly.
\<close>

definition TIMED_OUT_REASON :: string where
  "TIMED_OUT_REASON = ''dispatch timed out '' @ em_dash @ '' Agent never reported a result '' @
     ''(crash or partition between dispatch and result-report)''"

definition reconciliation_run :: "env \<Rightarrow> pyfloat \<Rightarrow> datetime \<Rightarrow> (world, exn, int) comp" where
  "reconciliation_run e timeout_seconds now =
     seq (from_result (timedelta_seconds timeout_seconds)) (\<lambda>td.
     seq (from_result (dt_minus now td)) (\<lambda>cutoff.
     seq (list_dispatched_before e cutoff) (\<lambda>found.
     seq (for_each (\<lambda>a. mark_result e (ac_id a) FAILED (Some TIMED_OUT_REASON) now) found) (\<lambda>marked.
     ret (int (length marked))))))"

subsection \<open>The effect of a run\<close>

abbreviation timed_out :: "datetime \<Rightarrow> action_row \<Rightarrow> action_row" where
  "timed_out now \<equiv> finished FAILED (Some TIMED_OUT_REASON) now"

definition time_out_ids :: "datetime \<Rightarrow> int set \<Rightarrow> action_row list \<Rightarrow> action_row list" where
  "time_out_ids now ids rows = map (\<lambda>x. if ac_id x \<in> ids then timed_out now x else x) rows"

lemma time_out_ids_simps [simp]:
  "map ac_id (time_out_ids now ids rows) = map ac_id rows" "length (time_out_ids now ids rows) = length rows"
  by (auto simp: time_out_ids_def)

lemma put_row_time_out:
  assumes "distinct (map ac_id rows)" and "row_at ac_id i rows = Some r"
  shows "put_row ac_id (timed_out now r) rows = time_out_ids now {i} rows"
proof -
  have "r \<in> set rows" "ac_id r = i"
    using row_at_SomeD [OF assms(2)] by auto
  then have "put_row ac_id (timed_out now r) rows = map (\<lambda>x. if x = r then timed_out now r else x) rows"
    using assms(1) by (intro put_row_unique) auto
  also have "\<dots> = time_out_ids now {i} rows"
    using assms(1) \<open>r \<in> set rows\<close> \<open>ac_id r = i\<close>
    by (auto simp: time_out_ids_def distinct_map inj_on_def)
  finally show ?thesis .
qed

lemma time_out_ids_insert:
  "i \<notin> ids \<Longrightarrow> time_out_ids now ids (time_out_ids now {i} rows) = time_out_ids now (insert i ids) rows"
  by (auto simp: time_out_ids_def)

text \<open>
  The loop over the listed actions: it fails them one by one, a fault stops it after some of them.
\<close>

definition reconciled :: "env \<Rightarrow> alert_service \<Rightarrow> datetime \<Rightarrow> int set \<Rightarrow> world \<Rightarrow> world \<Rightarrow> bool" where
  "reconciled e sv now ids w w' \<longleftrightarrow> refines e sv no_drop w w' \<and> outbox w' = outbox w \<and>
     tables w' = (tables w)\<lparr>actions := time_out_ids now ids (actions (tables w))\<rparr>"

lemma mark_result_reconciled:
  assumes inv: "db_inv sv (tables w)" and x: "x \<in> set (actions (tables w))" "ac_status x = DISPATCHED"
  shows "wp (mark_result e (ac_id x) FAILED (Some TIMED_OUT_REASON) now)
     (\<lambda>_. reconciled e sv now {ac_id x} w) (\<lambda>_. refines e sv no_drop w) w"
proof (rule mark_result_rule)
  have d: "distinct (map ac_id (actions (tables w)))"
    using inv by (simp add: db_inv_def keys_ok_def)
  fix r and w' :: world
  assume r: "row_at ac_id (ac_id x) (actions (tables w)) = Some r"
    and w': "tables w' = (tables w)\<lparr>actions := put_row ac_id (r\<lparr>ac_status := FAILED,
        ac_reason := Some TIMED_OUT_REASON, ac_completed_at := Some now\<rparr>) (actions (tables w))\<rparr>"
      "outbox w' = outbox w"
  have "r = x"
    using r row_at_mem [OF d x(1)] by simp
  then have "refines e sv no_drop w w'"
    by (intro finished_refines [OF x, of FAILED w' "Some TIMED_OUT_REASON" now]) (use w' in \<open>auto simp: finished_def\<close>)
  then show "reconciled e sv now {ac_id x} w w'"
    using w' put_row_time_out [OF d r] by (simp add: reconciled_def finished_def)
qed (auto intro: refines_refl)

lemma reconciliation_loop:
  "db_inv sv (tables w) \<Longrightarrow> set rows \<subseteq> set (actions (tables w)) \<Longrightarrow>
   (\<And>x. x \<in> set rows \<Longrightarrow> ac_status x = DISPATCHED) \<Longrightarrow> distinct (map ac_id rows) \<Longrightarrow>
   wp (for_each (\<lambda>a. mark_result e (ac_id a) FAILED (Some TIMED_OUT_REASON) now) (map action_to_record rows))
     (\<lambda>ys w'. length ys = length rows \<and> reconciled e sv now (ac_id ` set rows) w w')
     (\<lambda>_. refines e sv no_drop w) w"
proof (induction rows arbitrary: w)
  case Nil
  have "time_out_ids now {} (actions (tables w)) = actions (tables w)"
    by (simp add: time_out_ids_def)
  then show ?case
    by (simp add: wp_simps reconciled_def refines_refl)
next
  case (Cons x rows)
  have x: "x \<in> set (actions (tables w))" "ac_status x = DISPATCHED"
    using Cons.prems by auto
  show ?case
    unfolding list.map for_each.simps wp_seq wp_ret action_to_record_simps(1)
  proof (rule wp_mono [OF mark_result_reconciled [OF Cons.prems(1) x]])
    fix w'
    assume w': "reconciled e sv now {ac_id x} w w'"
    then have ref: "refines e sv no_drop w w'"
      by (simp add: reconciled_def)
    have "set rows \<subseteq> set (actions (tables w'))"
      using w' Cons.prems(2,4) by (force simp: reconciled_def time_out_ids_def image_iff)
    then have "wp (for_each (\<lambda>a. mark_result e (ac_id a) FAILED (Some TIMED_OUT_REASON) now) (map action_to_record rows))
        (\<lambda>ys w''. length ys = length rows \<and> reconciled e sv now (ac_id ` set rows) w' w'')
        (\<lambda>_. refines e sv no_drop w') w'"
      by (intro Cons.IH refines_inv [OF ref Cons.prems(1)]) (use Cons.prems in auto)
    then show "wp (for_each (\<lambda>a. mark_result e (ac_id a) FAILED (Some TIMED_OUT_REASON) now) (map action_to_record rows))
        (\<lambda>ys w''. length (y # ys) = length (x # rows) \<and> reconciled e sv now (ac_id ` set (x # rows)) w w'')
        (\<lambda>_. refines e sv no_drop w) w'" for y :: action_row
      by (rule wp_mono)
        (use w' Cons.prems(4) in \<open>auto simp: reconciled_def time_out_ids_insert intro: refines_trans [OF ref]\<close>)
  qed
qed

text \<open>A completed run fails exactly the dispatches older than the cutoff.\<close>

definition time_out_before :: "datetime \<Rightarrow> datetime \<Rightarrow> action_row list \<Rightarrow> action_row list" where
  "time_out_before cutoff now rows = map (\<lambda>x. if dispatched_before cutoff x then timed_out now x else x) rows"

lemma time_out_ids_before:
  assumes "distinct (map ac_id rows)" and "mset found = mset (filter (dispatched_before cutoff) rows)"
  shows "time_out_ids now (ac_id ` set found) rows = time_out_before cutoff now rows"
proof -
  have "set found = {x \<in> set rows. dispatched_before cutoff x}"
    using mset_eq_setD [OF assms(2)] by auto
  then have "ac_id x \<in> ac_id ` set found \<longleftrightarrow> dispatched_before cutoff x" if "x \<in> set rows" for x
    using assms(1) that by (auto simp: distinct_map inj_on_def)
  then show ?thesis
    by (simp add: time_out_ids_def time_out_before_def)
qed

lemma reconciliation_run_rule:
  assumes inv: "db_inv sv (tables w)"
  shows "wp (reconciliation_run e timeout now)
     (\<lambda>n w'. \<exists>td cutoff. timedelta_seconds timeout = Inr td \<and> dt_minus now td = Inr cutoff \<and>
        refines e sv no_drop w w' \<and> outbox w' = outbox w \<and>
        tables w' = (tables w)\<lparr>actions := time_out_before cutoff now (actions (tables w))\<rparr> \<and>
        n = int (length (filter (dispatched_before cutoff) (actions (tables w)))))
     (\<lambda>_. refines e sv no_drop w) w"
proof -
  have d: "distinct (map ac_id (actions (tables w)))"
    using inv by (simp add: db_inv_def keys_ok_def)
  have "wp (list_dispatched_before e cutoff) (\<lambda>found. wp (for_each (\<lambda>a.
        mark_result e (ac_id a) FAILED (Some TIMED_OUT_REASON) now) found)
      (\<lambda>ys w'. refines e sv no_drop w w' \<and> outbox w' = outbox w \<and>
         tables w' = (tables w)\<lparr>actions := time_out_before cutoff now (actions (tables w))\<rparr> \<and>
         int (length ys) = int (length (filter (dispatched_before cutoff) (actions (tables w)))))
      (\<lambda>_. refines e sv no_drop w)) (\<lambda>_. refines e sv no_drop w) w" for cutoff
  proof (rule list_dispatched_before_rule)
    fix rows w'
    assume same: "same_data w w'" and perm: "mset rows = mset (filter (dispatched_before cutoff) (actions (tables w)))"
    have ref: "refines e sv no_drop w w'"
      using same by (rule refines_refl)
    have rows: "set rows = {x \<in> set (actions (tables w)). dispatched_before cutoff x}"
      using mset_eq_setD [OF perm] by auto
    have "distinct (map ac_id (filter (dispatched_before cutoff) (actions (tables w))))"
      using d by (simp add: distinct_map_filter)
    then have dist: "distinct (map ac_id rows)"
      using perm mset_eq_imp_distinct_iff [of "map ac_id rows"
          "map ac_id (filter (dispatched_before cutoff) (actions (tables w)))"] by simp
    have "wp (for_each (\<lambda>a. mark_result e (ac_id a) FAILED (Some TIMED_OUT_REASON) now) (map action_to_record rows))
        (\<lambda>ys w''. length ys = length rows \<and> reconciled e sv now (ac_id ` set rows) w' w'')
        (\<lambda>_. refines e sv no_drop w') w'"
      by (rule reconciliation_loop)
        (use inv rows dist same in \<open>auto simp: same_data_def dispatched_before_def\<close>)
    then show "wp (for_each (\<lambda>a. mark_result e (ac_id a) FAILED (Some TIMED_OUT_REASON) now) (map action_to_record rows))
      (\<lambda>ys w'. refines e sv no_drop w w' \<and> outbox w' = outbox w \<and>
         tables w' = (tables w)\<lparr>actions := time_out_before cutoff now (actions (tables w))\<rparr> \<and>
         int (length ys) = int (length (filter (dispatched_before cutoff) (actions (tables w)))))
      (\<lambda>_. refines e sv no_drop w) w'"
      by (rule wp_mono)
        (use same perm mset_eq_length [OF perm] time_out_ids_before [OF d perm] in
          \<open>auto simp: reconciled_def same_data_def intro: refines_trans [OF ref]\<close>)
  qed (rule refines_refl)
  then show ?thesis
    by (auto simp: reconciliation_run_def wp_simps refines_refl split: sum.splits)
qed

lemma reconciliation_run_keeps:
  "wp (reconciliation_run e timeout now) (\<lambda>_. keeps_inv e sv no_drop w) (\<lambda>_. keeps_inv e sv no_drop w) w"
  by (rule wp_keeps_invI, rule wp_mono [OF reconciliation_run_rule]) auto

text \<open>When no statement fails and the cutoff is a date, a run goes through.\<close>

lemma reconciliation_run_healthy:
  assumes "no_faults e" and "timedelta_seconds timeout = Inr td" and "dt_minus now td = Inr cutoff"
  shows "wp (reconciliation_run e timeout now) (\<lambda>_ _. True) (\<lambda>_ _. False) w"
  unfolding reconciliation_run_def wp_seq assms(2,3) wp_from_result sum.case wp_ret
proof (rule list_dispatched_before_rule)
  fix rows w'
  assume same: "same_data w w'" and perm: "mset rows = mset (filter (dispatched_before cutoff) (actions (tables w)))"
  have rows: "set rows \<subseteq> set (actions (tables w))"
    using mset_eq_setD [OF perm] by auto
  have "wp (for_each (\<lambda>a. mark_result e (ac_id a) FAILED (Some TIMED_OUT_REASON) now) (map action_to_record rows))
      (\<lambda>ys u. map ac_id (actions (tables u)) = map ac_id (actions (tables w)) \<and> (\<forall>y \<in> set ys. True)) (\<lambda>_ _. False) w'"
  proof (rule wp_for_each_inv)
    fix x and t :: world
    assume "x \<in> set (map action_to_record rows)"
      and t: "map ac_id (actions (tables t)) = map ac_id (actions (tables w))"
    then have "ac_id x \<in> ac_id ` set (actions (tables t))"
      using rows by (metis (no_types, lifting) action_to_record_simps(1) imageE image_eqI list.set_map subsetD)
    then show "wp (mark_result e (ac_id x) FAILED (Some TIMED_OUT_REASON) now)
        (\<lambda>y u. map ac_id (actions (tables u)) = map ac_id (actions (tables w)) \<and> True) (\<lambda>x u. False) t"
      by (intro mark_result_rule) (use assms(1) t in \<open>auto simp: row_at_None\<close>)
  qed (use same in \<open>simp add: same_data_def\<close>)
  then show "wp (for_each (\<lambda>a. mark_result e (ac_id a) FAILED (Some TIMED_OUT_REASON) now) (map action_to_record rows))
      (\<lambda>_ _. True) (\<lambda>_ _. False) w'"
    by (rule wp_mono) auto
qed (use assms(1) in simp)

end
