(* ===== verification/Job_Scheduler.thy ===== *)
theory Job_Scheduler
  imports Prelude Exceptions Py_Float
begin

text \<open>
  \<open>collector/jobs/scheduler.py\<close>: the periodic scheduler, for any type of job. The monotonic clock
  and the outcome of joining a thread are arguments. A job is run through \<open>run_contained\<close>, which
  lets no exception out. The first part is the loop and its passes, the second the life of
  the thread.
\<close>

fun fadd :: "pyfloat \<Rightarrow> pyfloat \<Rightarrow> pyfloat" where
  "fadd (Fin x) (Fin y) = round_double (x + y)"
| "fadd NaN y = NaN"
| "fadd x NaN = NaN"
| "fadd PInf NInf = NaN"
| "fadd NInf PInf = NaN"
| "fadd PInf y = PInf"
| "fadd NInf y = NInf"
| "fadd x PInf = PInf"
| "fadd x NInf = NInf"

record 'j job_schedule =
  js_job :: 'j
  js_interval_seconds :: pyfloat

definition JobSchedule :: "'j \<Rightarrow> pyfloat \<Rightarrow> exn + 'j job_schedule" where
  "JobSchedule job interval_seconds =
     (if fle interval_seconds (Fin 0) then Inl ValueErr
      else Inr \<lparr>js_job = job, js_interval_seconds = interval_seconds\<rparr>)"

record 'j job_entry =
  je_schedule :: "'j job_schedule"
  je_next_due :: pyfloat

definition Entry :: "'j job_schedule \<Rightarrow> pyfloat \<Rightarrow> 'j job_entry" where
  "Entry schedule now = \<lparr>je_schedule = schedule, je_next_due = fadd now (js_interval_seconds schedule)\<rparr>"

text \<open>
  The runs of a job: from a state to a result and a state, or not returning at all.
\<close>

type_synonym ('j, 's) runner = "'j \<Rightarrow> 's \<Rightarrow> ((exn + unit) \<times> 's) option"

definition run_contained :: "('j, 's) runner \<Rightarrow> 'j \<Rightarrow> 's \<Rightarrow> 's option" where
  "run_contained run job s =
     (case run job s of
        None \<Rightarrow> None
      | Some (Inl exc, s') \<Rightarrow> Some s'
      | Some (Inr _, s') \<Rightarrow> Some s')"

primrec run_jobs :: "('j, 's) runner \<Rightarrow> 'j list \<Rightarrow> 's \<Rightarrow> 's option" where
  "run_jobs run [] s = Some s"
| "run_jobs run (j # js) s = (case run_contained run j s of None \<Rightarrow> None | Some s' \<Rightarrow> run_jobs run js s')"

definition run_all_once :: "('j, 's) runner \<Rightarrow> 'j job_schedule list \<Rightarrow> 's \<Rightarrow> 's option" where
  "run_all_once run schedules = run_jobs run (map js_job schedules)"

text \<open>
  One pass of \<open>_run_loop\<close> once the wait is over: the entries due at \<open>now\<close> run in order, and the
  \<open>k\<close>-th of them gets its next time from the clock read after it has run.
\<close>

fun run_due ::
    "('j, 's) runner \<Rightarrow> pyfloat \<Rightarrow> (nat \<Rightarrow> pyfloat) \<Rightarrow> nat \<Rightarrow> 'j job_entry list \<Rightarrow> 's \<Rightarrow>
     ('j job_entry list \<times> 's) option" where
  "run_due run now clock k [] s = Some ([], s)"
| "run_due run now clock k (entry # entries) s =
     (if fle (je_next_due entry) now
      then case run_contained run (js_job (je_schedule entry)) s of
             None \<Rightarrow> None
           | Some s' \<Rightarrow>
               map_option (apfst ((#) (entry\<lparr>je_next_due := fadd (clock k)
                   (js_interval_seconds (je_schedule entry))\<rparr>)))
                 (run_due run now clock (Suc k) entries s')
      else map_option (apfst ((#) entry)) (run_due run now clock k entries s))"

text \<open>The sleep before a pass: \<open>max(min(next_due) - now, 0.0)\<close>, with Python's \<open>min\<close> and \<open>max\<close>.\<close>

definition py_min :: "pyfloat \<Rightarrow> pyfloat \<Rightarrow> pyfloat" where
  "py_min x y = (if flt y x then y else x)"

definition min_due :: "'j job_entry \<Rightarrow> 'j job_entry list \<Rightarrow> pyfloat" where
  "min_due entry entries = foldl py_min (je_next_due entry) (map je_next_due entries)"

definition wait_seconds :: "'j job_entry \<Rightarrow> 'j job_entry list \<Rightarrow> pyfloat \<Rightarrow> pyfloat" where
  "wait_seconds entry entries now =
     (let wait = fsub (min_due entry entries) now in if flt wait (Fin 0) then Fin 0 else wait)"

text \<open>
  \<open>_run_loop\<close>. What the clock and the stop event say in a pass: the reading before the wait, how the
  wait ends (the event was set before, is set during it, or the time runs out), the reading after
  it, and those after each job. A wait that does not fit a 64-bit number of nanoseconds raises,
  unless the event is set already. A loop that never ends is \<open>None\<close>.
\<close>

datatype wait_outcome = AlreadySet | SetMeanwhile | TimedOut

record readings =
  rd_before :: pyfloat
  rd_wait :: wait_outcome
  rd_now :: pyfloat
  rd_after :: "nat \<Rightarrow> pyfloat"

definition wait_fits :: "pyfloat \<Rightarrow> bool" where
  "wait_fits w \<longleftrightarrow> (case w of Fin q \<Rightarrow> q * 1000000000 < 2 ^ 63 | PInf \<Rightarrow> False | _ \<Rightarrow> True)"

partial_function (option) run_entries ::
    "('j, 's) runner \<Rightarrow> (nat \<Rightarrow> readings) \<Rightarrow> nat \<Rightarrow> 'j job_entry \<Rightarrow> 'j job_entry list \<Rightarrow> 's \<Rightarrow>
     ((exn + unit) \<times> 's) option" where
  "run_entries run reading i entry entries s =
     (case rd_wait (reading i) of
        AlreadySet \<Rightarrow> Some (Inr (), s)
      | outcome \<Rightarrow>
          if \<not> wait_fits (wait_seconds entry entries (rd_before (reading i))) then Some (Inl OverflowErr, s)
          else if outcome = SetMeanwhile then Some (Inr (), s)
          else case run_due run (rd_now (reading i)) (rd_after (reading i)) 0 (entry # entries) s of
                 Some (entry' # entries', s') \<Rightarrow> run_entries run reading (Suc i) entry' entries' s'
               | _ \<Rightarrow> None)"

definition run_loop ::
    "('j, 's) runner \<Rightarrow> (nat \<Rightarrow> pyfloat) \<Rightarrow> (nat \<Rightarrow> readings) \<Rightarrow> 'j job_schedule list \<Rightarrow> 's \<Rightarrow>
     ((exn + unit) \<times> 's) option" where
  "run_loop run started reading schedules s =
     (case map (\<lambda>(i, schedule). Entry schedule (started i)) (enumerate 0 schedules) of
        [] \<Rightarrow> Some (Inr (), s)
      | entry # entries \<Rightarrow> run_entries run reading 0 entry entries s)"

subsection \<open>What a pass does\<close>

lemma foldl_py_min_mem: "foldl py_min x xs \<in> insert x (set xs)"
proof (induction xs arbitrary: x)
  case (Cons a xs)
  then show ?case
    using Cons.IH [of a] Cons.IH [of x] by (auto simp: py_min_def)
qed simp

text \<open>When the clock has reached the earliest due time, some entry is due.\<close>

lemma min_due_due:
  assumes "fle (min_due entry entries) now"
  shows "\<exists>en \<in> set (entry # entries). fle (je_next_due en) now"
  using foldl_py_min_mem [of "je_next_due entry" "map je_next_due entries"] assms
  by (auto simp: min_due_def)

lemma run_contained_returns: "run job s \<noteq> None \<Longrightarrow> run_contained run job s \<noteq> None"
  by (auto simp: run_contained_def split: sum.splits)

text \<open>
  Every due job runs exactly once, in the order of registration, whatever earlier ones raised; a
  pass fails to return only when a job does.
\<close>

lemma run_due_jobs:
  "map_option snd (run_due run now clock k entries s) =
     run_jobs run (map (js_job \<circ> je_schedule) (filter (\<lambda>en. fle (je_next_due en) now) entries)) s"
  by (induction run now clock k entries s rule: run_due.induct)
    (auto simp: option.map_comp comp_def split: option.splits)

definition due_index :: "pyfloat \<Rightarrow> 'j job_entry list \<Rightarrow> nat \<Rightarrow> nat" where
  "due_index now entries i = length (filter (\<lambda>en. fle (je_next_due en) now) (take i entries))"

lemma run_due_entries:
  "run_due run now clock k entries s = Some (entries', s') \<Longrightarrow>
   length entries' = length entries \<and> (\<forall>i < length entries. entries' ! i =
     (if fle (je_next_due (entries ! i)) now
      then (entries ! i)\<lparr>je_next_due := fadd (clock (k + due_index now entries i))
             (js_interval_seconds (je_schedule (entries ! i)))\<rparr>
      else entries ! i))"
proof (induction run now clock k entries s arbitrary: entries' rule: run_due.induct)
  case (1 run now clock k s)
  then show ?case by simp
next
  case (2 run now clock k entry entries s)
  show ?case
  proof (cases "fle (je_next_due entry) now")
    case True
    then obtain s1 rest where s1: "run_contained run (js_job (je_schedule entry)) s = Some s1"
        and rest: "run_due run now clock (Suc k) entries s1 = Some (rest, s')"
        and e: "entries' = entry\<lparr>je_next_due := fadd (clock k) (js_interval_seconds (je_schedule entry))\<rparr> # rest"
      using 2(3) by (auto split: option.splits)
    show ?thesis
      using 2(1) [OF True s1 rest] True
      by (auto simp: e nth_Cons' due_index_def take_Cons')
  next
    case False
    then obtain rest where rest: "run_due run now clock k entries s = Some (rest, s')" and e: "entries' = entry # rest"
      using 2(3) by auto
    show ?thesis
      using 2(2) [OF False rest] False by (auto simp: e nth_Cons' due_index_def take_Cons')
  qed
qed

lemma run_jobs_returns:
  assumes "\<And>s job. job \<in> set jobs \<Longrightarrow> I s \<Longrightarrow> \<exists>r s'. run job s = Some (r, s') \<and> I s'" and "I s"
  shows "\<exists>s'. run_jobs run jobs s = Some s' \<and> I s'"
  using assms
proof (induction jobs arbitrary: s)
  case (Cons j js)
  obtain r s1 where 1: "run j s = Some (r, s1)" "I s1"
    using Cons.prems by fastforce
  then have "run_contained run j s = Some s1"
    by (auto simp: run_contained_def split: sum.splits)
  then show ?case
    using Cons.IH [OF _ 1(2)] Cons.prems(1) by simp
qed simp

text \<open>
  The loop ends once the stop event is seen: if every job returns, and the event is set by the \<open>n\<close>-th
  pass, the loop returns.
\<close>

lemma run_due_total:
  assumes "\<And>j s. run j s \<noteq> None"
  shows "\<exists>entries' s'. run_due run now clock k entries s = Some (entries', s') \<and> length entries' = length entries"
proof -
  have "\<exists>s'. run_jobs run (map (js_job \<circ> je_schedule) (filter (\<lambda>en. fle (je_next_due en) now) entries)) s = Some s' \<and> True"
    by (rule run_jobs_returns) (use assms in fastforce)+
  then obtain entries' s' where due: "run_due run now clock k entries s = Some (entries', s')"
    using run_due_jobs [of run now clock k entries s] by auto
  then show ?thesis
    using run_due_entries [OF due] by simp
qed

lemma run_entries_returns:
  assumes "\<And>j s. run j s \<noteq> None" and "rd_wait (reading (i + n)) \<noteq> TimedOut"
  shows "\<exists>r. run_entries run reading i entry entries s = Some r"
  using assms(2)
proof (induction n arbitrary: i entry entries s)
  case 0
  then show ?case
    by (subst run_entries.simps) (auto split: wait_outcome.splits)
next
  case (Suc n)
  obtain es s' where due: "run_due run (rd_now (reading i)) (rd_after (reading i)) 0 (entry # entries) s = Some (es, s')"
      "length es = length (entry # entries)"
    using run_due_total [where run = run and entries = "entry # entries" and k = 0, OF assms(1)] by metis
  then obtain en ens where es: "es = en # ens"
    by (cases es) auto
  have "\<exists>r. run_entries run reading (Suc i) en ens s' = Some r"
    using Suc by simp
  then show ?case
    using due(1) es by (subst run_entries.simps) (auto split: wait_outcome.splits)
qed

lemma run_loop_returns:
  assumes "\<And>j s. run j s \<noteq> None" and "rd_wait (reading n) \<noteq> TimedOut"
  shows "\<exists>r. run_loop run started reading schedules s = Some r"
  using run_entries_returns [where run = run and reading = reading and i = 0 and n = n] assms
  by (auto simp: run_loop_def split: list.splits)

subsection \<open>The thread\<close>

text \<open>
  The scheduler holds at most one thread object; threads it no longer holds may still be alive,
  because a join that times out gives the thread up. All of them watch the same stop event.
\<close>

record scheduler_threads =
  th_current :: "bool option"
  th_given_up :: nat
  th_stop :: bool

definition init_threads :: scheduler_threads where
  "init_threads = \<lparr>th_current = None, th_given_up = 0, th_stop = False\<rparr>"

definition is_running :: "scheduler_threads \<Rightarrow> bool" where
  "is_running th \<longleftrightarrow> th_current th = Some True"

definition start :: "scheduler_threads \<Rightarrow> scheduler_threads" where
  "start th = (if is_running th then th else th\<lparr>th_stop := False, th_current := Some True\<rparr>)"

text \<open>\<open>stop\<close>: \<open>joined\<close> says whether the thread ended within the timeout.\<close>

definition stop :: "bool \<Rightarrow> scheduler_threads \<Rightarrow> scheduler_threads" where
  "stop joined th =
     (case th_current th of
        None \<Rightarrow> th
      | Some alive \<Rightarrow>
          th\<lparr>th_stop := True, th_current := None,
             th_given_up := th_given_up th + (if alive \<and> \<not> joined then 1 else 0)\<rparr>)"

definition live_threads :: "scheduler_threads \<Rightarrow> nat" where
  "live_threads th = th_given_up th + (if th_current th = Some True then 1 else 0)"

lemma start_idempotent: "is_running th \<Longrightarrow> start th = th"
  by (simp add: start_def)

lemma start_running: "is_running (start th)"
  by (auto simp: start_def is_running_def)

lemma stop_not_running: "\<not> is_running (stop joined th)"
  by (auto simp: stop_def is_running_def split: option.splits)

end
