(* ===== verification/Collector_App.thy ===== *)
theory Collector_App
  imports Collector_Config Ingestion Action_Service Staleness_Job Reconciliation_Job Retention_Job
    Job_Scheduler
begin

text \<open>
  \<open>collector/main.py\<close> and \<open>collector/api\<close>: how a Collector process is put together from its
  settings, the bearer-token check, the routes with the mapping of exceptions to HTTP status
  codes, and the background jobs as the scheduler runs them.
\<close>

subsection \<open>Wiring\<close>

definition build_notifier :: "collector_settings \<Rightarrow> telegram_notifier option" where
  "build_notifier s =
     (if \<not> truthy (cs_telegram_bot_token s) \<or> \<not> truthy (cs_telegram_chat_id s) then None
      else Some \<lparr>tg_bot_token = the (cs_telegram_bot_token s), tg_chat_id = the (cs_telegram_chat_id s)\<rparr>)"

datatype job = RetentionJob | StalenessJob | ReconciliationJob

text \<open>\<open>_build_job_scheduler\<close>; a \<open>JobSchedule\<close> with an interval that is not positive raises.\<close>

definition schedule_if :: "bool \<Rightarrow> job \<Rightarrow> pyfloat \<Rightarrow> exn + job job_schedule list" where
  "schedule_if enabled j interval =
     (if enabled then (case JobSchedule j interval of Inl x \<Rightarrow> Inl x | Inr sched \<Rightarrow> Inr [sched]) else Inr [])"

definition build_job_scheduler :: "collector_settings \<Rightarrow> exn + job job_schedule list option" where
  "build_job_scheduler s =
     (case schedule_if (cs_retention_enabled s) RetentionJob (cs_retention_interval_seconds s) of
        Inl x \<Rightarrow> Inl x | Inr a \<Rightarrow>
      case schedule_if (cs_staleness_alerting_enabled s) StalenessJob (cs_staleness_check_interval_seconds s) of
        Inl x \<Rightarrow> Inl x | Inr b \<Rightarrow>
      case schedule_if (cs_remediation_reconciliation_enabled s) ReconciliationJob (cs_reconciliation_interval_seconds s) of
        Inl x \<Rightarrow> Inl x | Inr c \<Rightarrow>
      Inr (if a @ b @ c = [] then None else Some (a @ b @ c)))"

record collector_app =
  ap_settings :: collector_settings
  ap_notifier :: "telegram_notifier option"
  ap_job_scheduler :: "job job_schedule list option"
  ap_rules_config :: rules_config
  ap_remediation_policy :: "playbook list"

text \<open>
  \<open>create_app\<close>. The two loaders are given with the file system and the JSON validation they
  close over.
\<close>

definition create_app ::
    "(string \<Rightarrow> exn + rules_config) \<Rightarrow> (string \<Rightarrow> exn + playbook list) \<Rightarrow> collector_settings \<Rightarrow>
     exn + collector_app" where
  "create_app load_rules load_policy s =
     (case build_job_scheduler s of Inl x \<Rightarrow> Inl x | Inr jobs \<Rightarrow>
      case load_rules (cs_rules_config_path s) of Inl x \<Rightarrow> Inl x | Inr rules \<Rightarrow>
      case load_policy (cs_remediation_policy_config_path s) of Inl x \<Rightarrow> Inl x | Inr policy \<Rightarrow>
      Inr \<lparr>ap_settings = s, ap_notifier = build_notifier s, ap_job_scheduler = jobs,
           ap_rules_config = rules, ap_remediation_policy = policy\<rparr>)"

text \<open>\<open>collector/api/deps.py\<close>: the services a request gets.\<close>

text \<open>
  \<open>_lifespan\<close>: the scheduler's thread lives while the application serves, if there is a scheduler.
  \<open>serving\<close> is what happens in between; \<open>joined\<close> is the outcome of joining the thread at the end,
  which is waited for whatever the serving raised.
\<close>

definition lifespan ::
    "collector_app \<Rightarrow> bool \<Rightarrow> (scheduler_threads \<Rightarrow> (exn + unit) \<times> scheduler_threads) \<Rightarrow>
     scheduler_threads \<Rightarrow> (exn + unit) \<times> scheduler_threads" where
  "lifespan app joined serving th =
     (let th1 = (if ap_job_scheduler app \<noteq> None then start th else th)
      in case serving th1 of (r, th2) \<Rightarrow> (r, if ap_job_scheduler app \<noteq> None then stop joined th2 else th2))"

lemma lifespan_threads:
  assumes "\<And>th. snd (serving th) = th"
  shows "ap_job_scheduler app = None \<Longrightarrow> snd (lifespan app joined serving init_threads) = init_threads"
    and "live_threads (snd (lifespan app True serving init_threads)) = 0"
proof -
  have run: "snd (lifespan app j serving init_threads) =
      (if ap_job_scheduler app = None then init_threads else stop j (start init_threads))" for j
    by (simp add: lifespan_def Let_def split_beta assms)
  show "ap_job_scheduler app = None \<Longrightarrow> snd (lifespan app joined serving init_threads) = init_threads"
    by (simp add: run)
  show "live_threads (snd (lifespan app True serving init_threads)) = 0"
    unfolding run by (simp add: init_threads_def start_def stop_def is_running_def live_threads_def)
qed

definition get_remediation_engine :: "collector_app \<Rightarrow> remediation_engine" where
  "get_remediation_engine app =
     RemediationEngine (ap_remediation_policy app) (cs_remediation_enabled (ap_settings app))
       (cs_max_remediations_per_node_per_hour (ap_settings app))
       (cs_remediation_cooldown_seconds (ap_settings app))"

definition get_alert_evaluation_service :: "collector_app \<Rightarrow> alert_service" where
  "get_alert_evaluation_service app =
     \<lparr>sv_rule_engine = RuleEngine (ap_rules_config app), sv_notifier = ap_notifier app,
      sv_escalation_after_seconds = cs_escalation_after_seconds (ap_settings app),
      sv_remediation_engine = Some (get_remediation_engine app),
      sv_remediation_after_seconds = cs_remediation_after_seconds (ap_settings app)\<rparr>"

text \<open>
  \<open>verify_api_token\<close>. \<open>tokens\<close> lists the token set in the order it is iterated;
  \<open>hmac.compare_digest\<close> raises \<open>TypeError\<close> on a string with a character outside ASCII.
\<close>

definition is_ascii :: "string \<Rightarrow> bool" where
  "is_ascii s \<longleftrightarrow> (\<forall>c \<in> set s. of_char c < (128 :: nat))"

definition compare_digest :: "string \<Rightarrow> string \<Rightarrow> exn + bool" where
  "compare_digest a b = (if is_ascii a \<and> is_ascii b then Inr (a = b) else Inl TypeErr)"

primrec any_digest :: "string \<Rightarrow> string list \<Rightarrow> exn + bool" where
  "any_digest presented [] = Inr False"
| "any_digest presented (t # ts) =
     (case compare_digest presented t of
        Inl x \<Rightarrow> Inl x
      | Inr True \<Rightarrow> Inr True
      | Inr False \<Rightarrow> any_digest presented ts)"

definition verify_api_token :: "string list \<Rightarrow> string option \<Rightarrow> exn + unit" where
  "verify_api_token tokens credentials =
     (if tokens = [] then Inr ()
      else let presented = (case credentials of None \<Rightarrow> [] | Some c \<Rightarrow> c)
           in case any_digest presented tokens of
                Inl x \<Rightarrow> Inl x
              | Inr True \<Rightarrow> Inr ()
              | Inr False \<Rightarrow> Inl (AuthenticationError ''missing or invalid API token''))"

subsection \<open>Routes\<close>

text \<open>
  A request whose path and body FastAPI has parsed. \<open>clock\<close> gives the readings of the wall clock
  during the request, in order.
\<close>

datatype request =
    PostMetrics payload
  | PostHeartbeat heartbeat_ping
  | ListNodes
  | GetNode string
  | ListAlerts "alert_status option"
  | GetAlert int
  | AcknowledgeAlert int string
  | ListActions "string option"
  | GetAction int
  | ReportActionResult int action_result
  | Healthz

datatype body =
    AckBody ack
  | NodeBody node_view
  | NodesBody "node_view list"
  | AlertBody alert_row
  | AlertsBody "alert_row list"
  | ActionBody action_row
  | ActionsBody "action_row list"
  | StatusOk
  | ErrorBody exn
  | InternalServerError

text \<open>The schemas' \<open>from_view\<close> and \<open>from_record\<close> copy every field.\<close>

definition node_read :: "node_view \<Rightarrow> node_view" where
  "node_read v = \<lparr>nv_node_id = nv_node_id v, nv_first_seen_at = nv_first_seen_at v,
                  nv_last_seen_at = nv_last_seen_at v, nv_is_stale = nv_is_stale v\<rparr>"

definition alert_read :: "alert_row \<Rightarrow> alert_row" where
  "alert_read v =
     \<lparr>al_id = al_id v, al_node_id = al_node_id v, al_rule_key = al_rule_key v,
      al_rule_kind = al_rule_kind v, al_severity = al_severity v, al_status = al_status v,
      al_description = al_description v, al_triggering_value = al_triggering_value v,
      al_bound = al_bound v, al_first_fired_at = al_first_fired_at v,
      al_last_fired_at = al_last_fired_at v, al_resolved_at = al_resolved_at v,
      al_acknowledged_at = al_acknowledged_at v, al_acknowledged_by = al_acknowledged_by v,
      al_escalated_at = al_escalated_at v, al_remediated_at = al_remediated_at v\<rparr>"

definition action_read :: "action_row \<Rightarrow> action_row" where
  "action_read r =
     \<lparr>ac_id = ac_id r, ac_node_id = ac_node_id r, ac_alert_id = ac_alert_id r,
      ac_rule_key = ac_rule_key r, ac_playbook_name = ac_playbook_name r,
      ac_action_type = ac_action_type r, ac_parameters = ac_parameters r,
      ac_status = ac_status r, ac_reason = ac_reason r, ac_created_at = ac_created_at r,
      ac_completed_at = ac_completed_at r\<rparr>"

lemma read_models_copy [simp]: "node_read v = v" "alert_read a = a" "action_read r = r"
  by (simp_all add: node_read_def alert_read_def action_read_def)

definition healthz :: "env \<Rightarrow> (world, exn, unit) comp" where
  "healthz e = query e ''database health check failed'' (\<lambda>n d. ())"

definition receive_metrics :: "env \<Rightarrow> collector_app \<Rightarrow> (nat \<Rightarrow> int) \<Rightarrow> payload \<Rightarrow> (world, exn, body) comp" where
  "receive_metrics e app clock p =
     seq (ingest e (cs_heartbeat_stale_after_seconds (ap_settings app))
            (Some (get_alert_evaluation_service app)) p (clock 0) (clock 1)) (\<lambda>a. ret (AckBody a))"

definition receive_heartbeat ::
    "env \<Rightarrow> collector_app \<Rightarrow> (nat \<Rightarrow> int) \<Rightarrow> heartbeat_ping \<Rightarrow> (world, exn, body) comp" where
  "receive_heartbeat e app clock ping =
     seq (record_seen e (cs_heartbeat_stale_after_seconds (ap_settings app)) (hb_node_id ping)
            (hb_sent_at ping) (clock 0)) (\<lambda>_.
     ret (AckBody \<lparr>ack_accepted = True, ack_received_at = utc (clock 1), ack_message = None,
                   ack_pending_actions = []\<rparr>))"

definition list_nodes_route :: "env \<Rightarrow> collector_app \<Rightarrow> (nat \<Rightarrow> int) \<Rightarrow> (world, exn, body) comp" where
  "list_nodes_route e app clock =
     seq (list_nodes e (cs_heartbeat_stale_after_seconds (ap_settings app)) clock) (\<lambda>vs.
     ret (NodesBody (map node_read vs)))"

definition get_node_route :: "env \<Rightarrow> collector_app \<Rightarrow> (nat \<Rightarrow> int) \<Rightarrow> string \<Rightarrow> (world, exn, body) comp" where
  "get_node_route e app clock i =
     seq (get_node e (cs_heartbeat_stale_after_seconds (ap_settings app)) i (clock 0)) (\<lambda>v.
     ret (NodeBody (node_read v)))"

definition list_alerts_route :: "env \<Rightarrow> alert_status option \<Rightarrow> (world, exn, body) comp" where
  "list_alerts_route e status = seq (list_alerts e status) (\<lambda>vs. ret (AlertsBody (map alert_read vs)))"

definition get_alert_route :: "env \<Rightarrow> int \<Rightarrow> (world, exn, body) comp" where
  "get_alert_route e i = seq (get_alert e i) (\<lambda>v. ret (AlertBody (alert_read v)))"

definition acknowledge_alert_route :: "env \<Rightarrow> (nat \<Rightarrow> int) \<Rightarrow> int \<Rightarrow> string \<Rightarrow> (world, exn, body) comp" where
  "acknowledge_alert_route e clock i acknowledged_by =
     seq (acknowledge e i acknowledged_by (utc (clock 0))) (\<lambda>v. ret (AlertBody (alert_read v)))"

definition list_remediation_actions :: "env \<Rightarrow> string option \<Rightarrow> (world, exn, body) comp" where
  "list_remediation_actions e node_id =
     seq (list_actions e node_id) (\<lambda>rs. ret (ActionsBody (map action_read rs)))"

definition get_remediation_action :: "env \<Rightarrow> int \<Rightarrow> (world, exn, body) comp" where
  "get_remediation_action e i = seq (get_action e i) (\<lambda>r. ret (ActionBody (action_read r)))"

definition report_remediation_action_result ::
    "env \<Rightarrow> (nat \<Rightarrow> int) \<Rightarrow> int \<Rightarrow> action_result \<Rightarrow> (world, exn, body) comp" where
  "report_remediation_action_result e clock i result =
     seq (report_result e i result (utc (clock 0))) (\<lambda>r. ret (ActionBody (action_read r)))"

fun route :: "env \<Rightarrow> collector_app \<Rightarrow> (nat \<Rightarrow> int) \<Rightarrow> request \<Rightarrow> (world, exn, body) comp" where
  "route e app clock (PostMetrics p) = receive_metrics e app clock p"
| "route e app clock (PostHeartbeat ping) = receive_heartbeat e app clock ping"
| "route e app clock ListNodes = list_nodes_route e app clock"
| "route e app clock (GetNode i) = get_node_route e app clock i"
| "route e app clock (ListAlerts status) = list_alerts_route e status"
| "route e app clock (GetAlert i) = get_alert_route e i"
| "route e app clock (AcknowledgeAlert i b) = acknowledge_alert_route e clock i b"
| "route e app clock (ListActions node_id) = list_remediation_actions e node_id"
| "route e app clock (GetAction i) = get_remediation_action e i"
| "route e app clock (ReportActionResult i result) = report_remediation_action_result e clock i result"
| "route e app clock Healthz = seq (healthz e) (\<lambda>_. ret StatusOk)"

lemmas route_defs = receive_metrics_def receive_heartbeat_def list_nodes_route_def get_node_route_def
  list_alerts_route_def get_alert_route_def acknowledge_alert_route_def list_remediation_actions_def
  get_remediation_action_def report_remediation_action_result_def

text \<open>\<open>collector/api/error_handlers.py\<close>.\<close>

fun status_for :: "exn \<Rightarrow> nat" where
  "status_for (AuthenticationError m) = 401"
| "status_for (NodeNotFoundError m) = 404"
| "status_for (AlertNotFoundError m) = 404"
| "status_for (RemediationActionNotFoundError m) = 404"
| "status_for (AlertAlreadyResolvedError m) = 409"
| "status_for (RemediationActionNotDispatchedError m) = 409"
| "status_for (PersistenceError m) = 503"
| "status_for x = 500"

definition error_response :: "exn \<Rightarrow> nat \<times> body" where
  "error_response x =
     (if is_cluster_pulse_error x then (status_for x, ErrorBody x) else (500, InternalServerError))"

text \<open>Every router but the health check's depends on \<open>verify_api_token\<close>.\<close>

definition guarded :: "request \<Rightarrow> bool" where
  "guarded req \<longleftrightarrow> req \<noteq> Healthz"

definition handle ::
    "env \<Rightarrow> collector_app \<Rightarrow> (nat \<Rightarrow> int) \<Rightarrow> string option \<Rightarrow> request \<Rightarrow> world \<Rightarrow> (nat \<times> body) \<times> world" where
  "handle e app clock credentials req w =
     (case (if guarded req then verify_api_token (token_set (ap_settings app)) credentials else Inr ()) of
        Inl x \<Rightarrow> (error_response x, w)
      | Inr _ \<Rightarrow>
          (case route e app clock req w of
             (Inl x, w') \<Rightarrow> (error_response x, w')
           | (Inr b, w') \<Rightarrow> ((200, b), w')))"

end
