(* ===== verification/Collector_System.thy ===== *)
theory Collector_System
  imports Collector_App
begin

text \<open>
  The Collector as a whole: a process serves requests and runs its background jobs one after the
  other, in any order and for ever, while the database may fail any statement. Every such step
  refines the lifecycle specification; the reachable states therefore satisfy its invariant.
\<close>

record process =
  pr_world :: world
  pr_first_run_done :: bool

definition retention_settings_of :: "collector_settings \<Rightarrow> retention_settings" where
  "retention_settings_of s =
     \<lparr>rs_batch_size = cs_retention_batch_size s,
      rs_remediation_actions_days = cs_remediation_actions_retention_days s,
      rs_resolved_alerts_days = cs_resolved_alerts_retention_days s,
      rs_metrics_days = cs_metrics_retention_days s\<rparr>"

text \<open>The \<open>run\<close> methods of the three jobs on the state of the process.\<close>

fun job_run :: "env \<Rightarrow> collector_app \<Rightarrow> int \<Rightarrow> (job, process) runner" where
  "job_run e app now RetentionJob p =
     (case retention_run e (retention_settings_of (ap_settings app)) (utc now) (pr_world p) of
        None \<Rightarrow> None
      | Some (Inl x, w) \<Rightarrow> Some (Inl x, p\<lparr>pr_world := w\<rparr>)
      | Some (Inr _, w) \<Rightarrow> Some (Inr (), p\<lparr>pr_world := w\<rparr>))"
| "job_run e app now StalenessJob p =
     (case staleness_run e (ap_notifier app) (cs_heartbeat_stale_after_seconds (ap_settings app)) (utc now)
             (pr_world p, pr_first_run_done p) of
        (Inl x, (w, fd)) \<Rightarrow> Some (Inl x, \<lparr>pr_world = w, pr_first_run_done = fd\<rparr>)
      | (Inr _, (w, fd)) \<Rightarrow> Some (Inr (), \<lparr>pr_world = w, pr_first_run_done = fd\<rparr>))"
| "job_run e app now ReconciliationJob p =
     (case reconciliation_run e (cs_remediation_dispatch_timeout_seconds (ap_settings app)) (utc now) (pr_world p) of
        (Inl x, w) \<Rightarrow> Some (Inl x, p\<lparr>pr_world := w\<rparr>)
      | (Inr _, w) \<Rightarrow> Some (Inr (), p\<lparr>pr_world := w\<rparr>))"

text \<open>A process that has just started on the tables it finds.\<close>

definition boot :: "world \<Rightarrow> process" where
  "boot w = \<lparr>pr_world = w, pr_first_run_done = False\<rparr>"

inductive sys_step :: "env \<Rightarrow> collector_app \<Rightarrow> process \<Rightarrow> process \<Rightarrow> bool" for e app where
  request: "handle e app clock credentials req (pr_world p) = (response, w) \<Longrightarrow>
    sys_step e app p (p\<lparr>pr_world := w\<rparr>)"
| job: "run_contained (job_run e app now) j p = Some p' \<Longrightarrow> sys_step e app p p'"
| restart: "sys_step e app p (boot (pr_world p))"

definition reachable :: "env \<Rightarrow> collector_app \<Rightarrow> process \<Rightarrow> bool" where
  "reachable e app p \<longleftrightarrow> (sys_step e app)\<^sup>*\<^sup>* (boot init_world) p"

inductive_cases sys_stepE: "sys_step e app p p'"

subsection \<open>Every step refines the specification\<close>

abbreviation service :: "collector_app \<Rightarrow> alert_service" where
  "service \<equiv> get_alert_evaluation_service"

lemma service_simps [simp]:
  "sv_notifier (service app) = ap_notifier app"
  "sv_remediation_engine (service app) = Some (get_remediation_engine app)"
  "sv_escalation_after_seconds (service app) = cs_escalation_after_seconds (ap_settings app)"
  "sv_remediation_after_seconds (service app) = cs_remediation_after_seconds (ap_settings app)"
  by (simp_all add: get_alert_evaluation_service_def)

text \<open>Read-only computations keep to it trivially.\<close>

lemma wp_query_keeps:
  "wp (query e msg q) (\<lambda>_. keeps_inv e' sv P w) (\<lambda>_. keeps_inv e' sv P w) w"
  by (rule query_rule) (rule keeps_inv_same, assumption)+

lemma list_nodes_keeps:
  "wp (list_nodes e stale clock) (\<lambda>_. keeps_inv e' sv P w) (\<lambda>_. keeps_inv e' sv P w) w"
  unfolding list_nodes_def wp_seq
  by (rule node_list_all_rule) (auto simp: wp_def list_views intro: keeps_inv_same)

lemma reads_keep:
  "wp (get_node e stale i now) (\<lambda>_. keeps_inv e' sv P w) (\<lambda>_. keeps_inv e' sv P w) w"
  "wp (list_alerts e status) (\<lambda>_. keeps_inv e' sv P w) (\<lambda>_. keeps_inv e' sv P w) w"
  "wp (get_alert e k) (\<lambda>_. keeps_inv e' sv P w) (\<lambda>_. keeps_inv e' sv P w) w"
  "wp (list_actions e n) (\<lambda>_. keeps_inv e' sv P w) (\<lambda>_. keeps_inv e' sv P w) w"
  "wp (get_action e k) (\<lambda>_. keeps_inv e' sv P w) (\<lambda>_. keeps_inv e' sv P w) w"
  "wp (healthz e) (\<lambda>_. keeps_inv e' sv P w) (\<lambda>_. keeps_inv e' sv P w) w"
  unfolding get_node_def list_alerts_def get_alert_def list_actions_def get_action_def healthz_def
    node_get_def alert_list_def alert_get_def action_list_def action_get_def wp_seq
  by (rule query_rule; auto simp: wp_simps from_result_def wp_def [of "\<lambda>s. (_, s)"]
      intro: keeps_inv_same split: option.splits sum.splits)+

lemma route_keeps:
  "wp (route e app clock req) (\<lambda>_. keeps_inv e (service app) no_drop w) (\<lambda>_. keeps_inv e (service app) no_drop w) w"
  by (cases req)
    (simp_all add: route_defs wp_simps ingest_keeps record_seen_keeps list_nodes_keeps reads_keep acknowledge_keeps
      report_result_keeps)

lemma handle_keeps:
  assumes "handle e app clock credentials req w = (response, w')"
  shows "keeps_inv e (service app) no_drop w w'"
  using assms route_keeps [of e app clock req w]
  by (auto simp: handle_def wp_def keeps_inv_refl split: sum.splits prod.splits)

text \<open>
  The jobs. Retention returns because the batch size is positive, which the settings demand; it
  is the only job that drops alerts.
\<close>

definition job_events :: "job \<Rightarrow> event set" where
  "job_events j = (if j = RetentionJob then {Quiet, Dropped} else no_drop)"

lemma retention_job_keeps:
  assumes "db_inv (service app) (tables (pr_world p))" and "1 \<le> cs_retention_batch_size (ap_settings app)"
  shows "\<exists>r p'. job_run e app now RetentionJob p = Some (r, p') \<and>
     pr_first_run_done p' = pr_first_run_done p \<and>
     refines e (service app) {Quiet, Dropped} (pr_world p) (pr_world p')"
proof -
  have "0 < rs_batch_size (retention_settings_of (ap_settings app))"
    using assms(2) by (simp add: retention_settings_of_def)
  from retention_run_returns [OF assms(1) this, of e "utc now"]
  obtain r w' where "retention_run e (retention_settings_of (ap_settings app)) (utc now) (pr_world p) = Some (r, w')"
      and "refines e (service app) {Quiet, Dropped} (pr_world p) w'"
    by (auto simp: preturns_def retention_post_def)
  then show ?thesis
    by (cases r) auto
qed

lemma staleness_job_keeps:
  assumes "db_inv (service app) (tables (pr_world p))"
  shows "\<exists>r p'. job_run e app now StalenessJob p = Some (r, p') \<and>
     refines e (service app) no_drop (pr_world p) (pr_world p')"
proof -
  have "refines e (service app) no_drop (pr_world p)
      (snd (staleness_sweep e (ap_notifier app) (cs_heartbeat_stale_after_seconds (ap_settings app))
        (pr_first_run_done p) (utc now) (pr_world p)))"
    using staleness_sweep_keeps [of e "service app"] assms by (simp add: wp_state keeps_inv_def)
  then show ?thesis
    by (auto simp: staleness_run_def split: prod.splits sum.splits)
qed

lemma reconciliation_job_keeps:
  assumes "db_inv (service app) (tables (pr_world p))"
  shows "\<exists>r p'. job_run e app now ReconciliationJob p = Some (r, p') \<and>
     refines e (service app) no_drop (pr_world p) (pr_world p')"
proof -
  have "refines e (service app) no_drop (pr_world p)
      (snd (reconciliation_run e (cs_remediation_dispatch_timeout_seconds (ap_settings app)) (utc now) (pr_world p)))"
    using reconciliation_run_keeps [of e "cs_remediation_dispatch_timeout_seconds (ap_settings app)" "utc now" "service app"]
      assms by (simp add: wp_state keeps_inv_def)
  then show ?thesis
    by (auto split: prod.splits sum.splits)
qed

lemma job_keeps:
  assumes "db_inv (service app) (tables (pr_world p))" and "1 \<le> cs_retention_batch_size (ap_settings app)"
  shows "\<exists>p'. run_contained (job_run e app now) j p = Some p' \<and>
     refines e (service app) (job_events j) (pr_world p) (pr_world p')"
proof -
  have "\<exists>r p'. job_run e app now j p = Some (r, p') \<and>
      refines e (service app) (job_events j) (pr_world p) (pr_world p')"
  proof (cases j)
    case RetentionJob
    show ?thesis
      using retention_job_keeps [OF assms, of e now] unfolding RetentionJob job_events_def by auto
  next
    case StalenessJob
    show ?thesis
      using staleness_job_keeps [OF assms(1), of e now] unfolding StalenessJob job_events_def by auto
  next
    case ReconciliationJob
    show ?thesis
      using reconciliation_job_keeps [OF assms(1), of e now] unfolding ReconciliationJob job_events_def by auto
  qed
  then show ?thesis
    by (auto simp: run_contained_def split: sum.splits)
qed

subsection \<open>Reachable states\<close>

lemma sys_step_inv:
  assumes "sys_step e app p p'" and "settings_ok (ap_settings app)"
    and inv: "db_inv (service app) (tables (pr_world p))"
  shows "db_inv (service app) (tables (pr_world p'))"
  using assms(1)
proof (cases rule: sys_step.cases)
  case (request clock credentials req response w)
  then show ?thesis
    using handle_keeps inv by (auto simp: keeps_inv_def)
next
  case (job now j)
  have "1 \<le> cs_retention_batch_size (ap_settings app)"
    using assms(2) by (simp add: settings_ok_def field_constraints_def)
  then show ?thesis
    using job_keeps [OF inv, of e now j] job db_inv_refines inv by (metis option.inject)
qed (simp add: boot_def inv)

lemma reachable_inv:
  assumes "reachable e app p" and "settings_ok (ap_settings app)"
  shows "db_inv (service app) (tables (pr_world p))"
  using assms(1) unfolding reachable_def
proof (induction rule: rtranclp_induct)
  case base
  then show ?case
    by (simp add: boot_def init_world_def db_inv_init)
next
  case (step p p')
  then show ?case
    using sys_step_inv assms(2) by blast
qed

text \<open>How one alert may look after a step in which it stays in the table.\<close>

lemma refines_alert:
  assumes "refines e sv P w w'" and "P = no_drop \<or> P = {Quiet, Dropped}" and "db_inv sv (tables w)"
    and "r \<in> set (alerts (tables w))" and "r' \<in> set (alerts (tables w'))" and "al_id r' = al_id r"
  shows "alert_evolves r r'"
proof -
  have "keys_ok (tables w)"
    using assms(3) by (simp add: db_inv_def)
  with assms show ?thesis
    unfolding refines_def by (blast intro: steps_alert steps_alert_shrink)
qed

lemma sys_step_alert:
  assumes step: "sys_step e app p p'" and ok: "settings_ok (ap_settings app)"
    and inv: "db_inv (service app) (tables (pr_world p))"
    and r: "r \<in> set (alerts (tables (pr_world p)))" "r' \<in> set (alerts (tables (pr_world p')))" "al_id r' = al_id r"
  shows "alert_evolves r r'"
  using step
proof (cases rule: sys_step.cases)
  case (request clock credentials req response w)
  then have "refines e (service app) no_drop (pr_world p) (pr_world p')"
    using handle_keeps [OF request(2)] inv by (simp add: keeps_inv_def)
  then show ?thesis
    by (rule refines_alert [OF _ _ inv r]) simp
next
  case (job now j)
  have "1 \<le> cs_retention_batch_size (ap_settings app)"
    using ok by (simp add: settings_ok_def field_constraints_def)
  then have "refines e (service app) (job_events j) (pr_world p) (pr_world p')"
    using job_keeps [OF inv, of e now j] job by auto
  then show ?thesis
    by (rule refines_alert [OF _ _ inv r]) (simp add: job_events_def)
next
  case restart
  then have "refines e (service app) no_drop (pr_world p) (pr_world p')"
    by (simp add: boot_def refines_refl)
  then show ?thesis
    by (rule refines_alert [OF _ _ inv r]) simp
qed

end
