(* ===== verification/Example_Run.thy ===== *)
theory Example_Run
  imports Collector_System
begin

text \<open>
  A concrete Collector and a few concrete requests, on which the properties are exercised: one
  threshold rule on CPU usage with a Playbook, remediation switched on, a database that never
  fails and a Telegram API that always answers.
\<close>

definition ex_env :: env where
  "ex_env = \<lparr>fails = \<lambda>n. False, rank = \<lambda>n i. i, id_gap = \<lambda>n. 0, telegram = \<lambda>n. Response 200 [],
             float_repr = fmt_0f\<rparr>"

definition ex_rules :: rules_config where
  "ex_rules = \<lparr>rc_threshold_rules =
       [\<lparr>tr_metric_type = CPU_USAGE_PERCENT, tr_comparison = GREATER_THAN, tr_threshold = Fin 90,
         tr_severity = CRITICAL, tr_description = ''CPU usage critically high''\<rparr>],
     rc_rate_of_change_rules = []\<rparr>"

definition ex_policy :: "playbook list" where
  "ex_policy = [\<lparr>pb_rule_key = ''threshold:cpu.usage_percent'', pb_playbook_name = ''cpu_noop'',
     pb_action_type = NOOP, pb_parameters = [], pb_description = ''observe only''\<rparr>]"

definition ex_settings :: collector_settings where
  "ex_settings = (default_settings ''/app'')\<lparr>cs_remediation_enabled := True,
     cs_telegram_bot_token := Some ''bot'', cs_telegram_chat_id := Some ''ops'',
     cs_retention_enabled := True, cs_staleness_alerting_enabled := True,
     cs_remediation_reconciliation_enabled := True\<rparr>"

definition ex_app :: collector_app where
  "ex_app = \<lparr>ap_settings = ex_settings, ap_notifier = build_notifier ex_settings, ap_job_scheduler = None,
     ap_rules_config = ex_rules, ap_remediation_policy = ex_policy\<rparr>"

text \<open>Times in seconds after an arbitrary day of the year 2024; a CPU reading at such a time.\<close>

definition at_sec :: "int \<Rightarrow> int" where
  "at_sec sec = (63841600000 + sec) * 1000000"

definition ex_push :: "int \<Rightarrow> rat \<Rightarrow> request" where
  "ex_push sec v = PostMetrics \<lparr>pl_node_id = ''web-1'', pl_collected_at = utc (at_sec sec),
     pl_samples = [\<lparr>ms_metric_type = CPU_USAGE_PERCENT, ms_value = Fin v, ms_unit = ''percent'', ms_labels = []\<rparr>],
     pl_collection_errors = []\<rparr>"

fun ex_run :: "(int \<times> rat) list \<Rightarrow> process \<Rightarrow> process" where
  "ex_run [] p = p"
| "ex_run ((sec, v) # xs) p =
     ex_run xs (p\<lparr>pr_world := snd (handle ex_env ex_app (\<lambda>_. at_sec sec) None (ex_push sec v) (pr_world p))\<rparr>)"

lemma ex_run_steps: "(sys_step ex_env ex_app)\<^sup>*\<^sup>* p (ex_run xs p)"
proof (induction xs p rule: ex_run.induct)
  case (2 sec v xs p)
  let ?h = "handle ex_env ex_app (\<lambda>_. at_sec sec) None (ex_push sec v) (pr_world p)"
  have "sys_step ex_env ex_app p (p\<lparr>pr_world := snd ?h\<rparr>)"
    by (rule sys_step.request [of _ _ "\<lambda>_. at_sec sec" None "ex_push sec v" p "fst ?h"]) simp
  then show ?case
    using 2 by (simp add: converse_rtranclp_into_rtranclp)
qed simp

lemma ex_run_reachable: "reachable ex_env ex_app (ex_run xs (boot init_world))"
  unfolding reachable_def by (rule ex_run_steps)

lemma ex_settings_ok: "settings_ok ex_settings"
  by code_simp

lemma ex_app_ok: "settings_ok (ap_settings ex_app)" "cs_remediation_enabled (ap_settings ex_app)"
  by (simp_all add: ex_app_def ex_settings_ok) (simp add: ex_settings_def)

text \<open>One reading, and one more: the alert opens and advances.\<close>

definition ex_first :: process where
  "ex_first = ex_run [(0, 95)] (boot init_world)"

definition ex_second :: process where
  "ex_second = ex_run [(100, 96)] ex_first"

lemma ex_first_reachable: "reachable ex_env ex_app ex_first"
  unfolding ex_first_def by (rule ex_run_reachable)

lemma ex_second_step: "sys_step ex_env ex_app ex_first ex_second"
  unfolding ex_second_def ex_run.simps
  by (rule sys_step.request [of _ _ "\<lambda>_. at_sec 100" None "ex_push 100 96" _
        "fst (handle ex_env ex_app (\<lambda>_. at_sec 100) None (ex_push 100 96) (pr_world ex_first))"]) simp

lemma ex_first_second_alerts:
  "(map al_id (alerts (tables (pr_world ex_first))), map al_id (alerts (tables (pr_world ex_second)))) = ([1], [1])"
  by code_simp

lemma ex_no_faults: "no_faults ex_env"
  by (simp add: no_faults_def ex_env_def)

lemma ex_first_node:
  "\<exists>n. nodes (tables (pr_world ex_first)) = [n] \<and> nd_node_id n = ''web-1'' \<and> in_range (nd_last_seen_at n)"
proof -
  have "map (\<lambda>n. (nd_node_id n, in_range (nd_last_seen_at n))) (nodes (tables (pr_world ex_first))) = [(''web-1'', True)]"
    by code_simp
  then show ?thesis
    by (auto simp: map_eq_Cons_conv)
qed

lemma ex_first_keys: "list_all (\<lambda>r. al_rule_key r \<noteq> STALENESS_RULE_KEY) (alerts (tables (pr_world ex_first)))"
  by code_simp

end
