(* ===== verification/Example_Process.thy ===== *)
theory Example_Process
  imports Example_Run
begin

text \<open>
  A run of five readings. The first breach opens alert 1, the second, 2000 seconds later,
  escalates and remediates it; a normal reading resolves it. The next breach opens alert 2, which
  is remediated 2100 seconds after the first remediation.
\<close>

definition ex_process :: process where
  "ex_process = ex_run [(0, 95), (2000, 97), (2100, 10), (2200, 95), (4100, 96)] (boot init_world)"

definition ex_tables :: db where
  "ex_tables = tables (pr_world ex_process)"

definition ex_key :: string where
  "ex_key = ''threshold:cpu.usage_percent''"

lemma ex_process_reachable: "reachable ex_env ex_app ex_process"
  unfolding ex_process_def by (rule ex_run_reachable)

definition ex_alert_view :: "alert_row \<Rightarrow> int \<times> alert_status \<times> datetime option \<times> datetime option \<times> bool" where
  "ex_alert_view r =
     (al_id r, al_status r, al_escalated_at r, al_remediated_at r, al_node_id r = ''web-1'' \<and> al_rule_key r = ex_key)"

definition ex_action_view :: "action_row \<Rightarrow> int \<times> int \<times> action_status \<times> datetime \<times> bool" where
  "ex_action_view x =
     (ac_id x, ac_alert_id x, ac_status x, ac_created_at x, ac_node_id x = ''web-1'' \<and> ac_playbook_name x = ''cpu_noop'')"

lemma ex_tables_views:
  "(map ex_alert_view (alerts ex_tables), map ex_action_view (actions ex_tables)) =
     ([(1, RESOLVED, Some (utc (at_sec 2000)), Some (utc (at_sec 2000)), True),
       (2, FIRING, Some (utc (at_sec 4100)), Some (utc (at_sec 4100)), True)],
      [(1, 1, DISPATCHED, utc (at_sec 2000), True), (2, 2, DISPATCHED, utc (at_sec 4100), True)])"
  by code_simp

lemma ex_alerts:
  obtains r1 r2 where "alerts (tables (pr_world ex_process)) = [r1, r2]"
    and "ex_alert_view r1 = (1, RESOLVED, Some (utc (at_sec 2000)), Some (utc (at_sec 2000)), True)"
    and "ex_alert_view r2 = (2, FIRING, Some (utc (at_sec 4100)), Some (utc (at_sec 4100)), True)"
  using ex_tables_views by (auto simp: ex_tables_def map_eq_Cons_conv)

lemma ex_actions:
  obtains x1 x2 where "actions (tables (pr_world ex_process)) = [x1, x2]"
    and "ex_action_view x1 = (1, 1, DISPATCHED, utc (at_sec 2000), True)"
    and "ex_action_view x2 = (2, 2, DISPATCHED, utc (at_sec 4100), True)"
  using ex_tables_views by (auto simp: ex_tables_def map_eq_Cons_conv)

end
