(* ===== verification/Collector_Properties.thy ===== *)
theory Collector_Properties
  imports Example_Process
begin

text \<open>
  The properties of the Collector: what holds in every state a Collector can reach, whatever
  requests come, in whatever order the jobs run and whichever statements the database fails, and
  what each service and job does. Each is followed by its application to a concrete run.
\<close>

section \<open>Safety of the reachable states\<close>

text \<open>
  C1. No duplicate alerts: in every reachable state there is at most one firing alert for a node
  and a rule, so an ongoing condition is one row.
\<close>

theorem one_firing_alert_per_rule:
  assumes "reachable e app p" and "settings_ok (ap_settings app)"
    and "r \<in> set (alerts (tables (pr_world p)))" and "al_status r = FIRING"
    and "r' \<in> set (alerts (tables (pr_world p)))" and "al_status r' = FIRING"
    and "al_node_id r' = al_node_id r" and "al_rule_key r' = al_rule_key r"
  shows "r' = r"
proof -
  have inv: "one_firing (tables (pr_world p))" "keys_ok (tables (pr_world p))"
    using reachable_inv [OF assms(1,2)] by (simp_all add: db_inv_def)
  have "is_open (al_node_id r) (al_rule_key r) r" "is_open (al_node_id r) (al_rule_key r) r'"
    using assms(4,6-8) by (simp_all add: is_open_def)
  then have "al_id r' = al_id r"
    using inv(1) assms(3,5) unfolding one_firing_def by metis
  then show ?thesis
    using inv(2) assms(3,5) by (simp add: keys_ok_def distinct_map inj_on_def)
qed

theorem one_firing_alert_per_rule_witness:
  "\<exists>!r. r \<in> set (alerts (tables (pr_world ex_process))) \<and> al_status r = FIRING \<and>
     al_node_id r = ''web-1'' \<and> al_rule_key r = ex_key"
proof -
  obtain r1 r2 where "alerts (tables (pr_world ex_process)) = [r1, r2]"
      and "ex_alert_view r2 = (2, FIRING, Some (utc (at_sec 4100)), Some (utc (at_sec 4100)), True)"
    by (rule ex_alerts)
  then have r2: "r2 \<in> set (alerts (tables (pr_world ex_process))) \<and> al_status r2 = FIRING \<and>
      al_node_id r2 = ''web-1'' \<and> al_rule_key r2 = ex_key"
    by (simp add: ex_alert_view_def)
  have "r = r2" if "r \<in> set (alerts (tables (pr_world ex_process))) \<and> al_status r = FIRING \<and>
      al_node_id r = ''web-1'' \<and> al_rule_key r = ex_key" for r
    using one_firing_alert_per_rule [OF ex_process_reachable ex_app_ok(1), of r2 r] r2 that by simp
  then show ?thesis
    using r2 by blast
qed

text \<open>
  C2. Cooldown: of two audit rows of one node and one Playbook, the later one was sent out only if
  at least the configured cooldown lies between their times.
\<close>

theorem dispatches_respect_cooldown:
  assumes "reachable e app p" and "settings_ok (ap_settings app)"
    and "i < j" and "j < length (actions (tables (pr_world p)))"
    and "x = actions (tables (pr_world p)) ! i" and "y = actions (tables (pr_world p)) ! j"
    and "ac_node_id x = ac_node_id y" and "ac_playbook_name x = ac_playbook_name y"
    and "ac_status y \<noteq> BLOCKED_BY_SAFETY_LIMIT"
  shows "fle (cs_remediation_cooldown_seconds (ap_settings app))
           (total_seconds (us (ac_created_at y) - us (ac_created_at x)))"
proof -
  have "sorted_wrt (spaced (get_remediation_engine app)) (actions (tables (pr_world p)))"
    using reachable_inv [OF assms(1,2)] by (simp add: db_inv_def limits_ok_def)
  then have "spaced (get_remediation_engine app) x y"
    unfolding assms(5,6) using assms(3,4) by (rule sorted_wrt_nth_less)
  then have "\<not> flt (total_seconds (us (ac_created_at y) - us (ac_created_at x)))
      (cs_remediation_cooldown_seconds (ap_settings app))"
    using assms(7-9) by (simp add: spaced_def get_remediation_engine_def RemediationEngine_def)
  moreover have "cs_remediation_cooldown_seconds (ap_settings app) \<noteq> NaN"
    using assms(2) by (auto simp: settings_ok_def field_constraints_def dest: fle_not_NaN)
  ultimately show ?thesis
    by (simp add: not_flt)
qed

theorem dispatches_respect_cooldown_witness:
  "fle (cs_remediation_cooldown_seconds (ap_settings ex_app))
     (total_seconds (us (ac_created_at (actions (tables (pr_world ex_process)) ! 1)) -
        us (ac_created_at (actions (tables (pr_world ex_process)) ! 0))))"
proof -
  obtain x1 x2 where "actions (tables (pr_world ex_process)) = [x1, x2]"
      and "ex_action_view x1 = (1, 1, DISPATCHED, utc (at_sec 2000), True)"
      and "ex_action_view x2 = (2, 2, DISPATCHED, utc (at_sec 4100), True)"
    by (rule ex_actions)
  then show ?thesis
    by (intro dispatches_respect_cooldown [OF ex_process_reachable ex_app_ok(1), of 0 1])
      (auto simp: ex_action_view_def)
qed

text \<open>
  C3. Rate limit: in any window of one hour, a node has been sent at most the configured maximum
  of actions, even when payloads come with timestamps out of order.
\<close>

theorem dispatches_respect_hourly_cap:
  assumes "reachable e app p" and "settings_ok (ap_settings app)"
  shows "int (length (filter (\<lambda>x. ac_node_id x = n \<and> ac_status x \<noteq> BLOCKED_BY_SAFETY_LIMIT \<and>
            t \<le> us (ac_created_at x) \<and> us (ac_created_at x) \<le> t + one_hour) (actions (tables (pr_world p)))))
         \<le> cs_max_remediations_per_node_per_hour (ap_settings app)"
proof -
  have "int (sent_within n t (actions (tables (pr_world p)))) \<le>
      max 0 (cs_max_remediations_per_node_per_hour (ap_settings app))"
    using reachable_inv [OF assms]
    by (simp add: db_inv_def limits_ok_def get_remediation_engine_def RemediationEngine_def)
  moreover have "1 \<le> cs_max_remediations_per_node_per_hour (ap_settings app)"
    using assms(2) by (simp add: settings_ok_def field_constraints_def)
  ultimately show ?thesis
    by (simp add: sent_within_def)
qed

theorem dispatches_respect_hourly_cap_witness:
  "int (length (filter (\<lambda>x. ac_node_id x = ''web-1'' \<and> ac_status x \<noteq> BLOCKED_BY_SAFETY_LIMIT \<and>
       at_sec 1000 \<le> us (ac_created_at x) \<and> us (ac_created_at x) \<le> at_sec 1000 + one_hour)
       (actions (tables (pr_world ex_process))))) \<le> 3"
  using dispatches_respect_hourly_cap [OF ex_process_reachable ex_app_ok(1), of "''web-1''" "at_sec 1000"]
  by (simp add: ex_app_def ex_settings_def default_settings_def)

text \<open>
  C4. A human first: an alert that was remediated had been escalated, was at least the configured
  delay old, and belongs to a configured rule, never to a silent node.
\<close>

theorem remediation_follows_escalation:
  assumes "reachable e app p" and "settings_ok (ap_settings app)" and "cs_remediation_enabled (ap_settings app)"
    and "r \<in> set (alerts (tables (pr_world p)))" and "al_remediated_at r = Some t"
  shows "al_escalated_at r \<noteq> None \<and> al_rule_kind r \<noteq> STALENESS \<and>
     fle (cs_remediation_after_seconds (ap_settings app)) (total_seconds (us t - us (al_first_fired_at r)))"
proof -
  have "alert_ok (service app) r"
    using reachable_inv [OF assms(1,2)] assms(4) by (simp add: db_inv_def)
  moreover have "fle (cs_escalation_after_seconds (ap_settings app)) (cs_remediation_after_seconds (ap_settings app))"
    using assms(2,3) by (simp add: settings_ok_def)
  ultimately show ?thesis
    using assms(5) by (auto simp: alert_ok_def old_enough_def)
qed

theorem remediation_follows_escalation_witness:
  "list_all (\<lambda>r. al_escalated_at r \<noteq> None) (alerts (tables (pr_world ex_process)))"
proof -
  obtain r1 r2 where "alerts (tables (pr_world ex_process)) = [r1, r2]"
      and "ex_alert_view r1 = (1, RESOLVED, Some (utc (at_sec 2000)), Some (utc (at_sec 2000)), True)"
      and "ex_alert_view r2 = (2, FIRING, Some (utc (at_sec 4100)), Some (utc (at_sec 4100)), True)"
    by (rule ex_alerts)
  then have "\<forall>r \<in> set (alerts (tables (pr_world ex_process))). \<exists>t. al_remediated_at r = Some t"
    by (simp add: ex_alert_view_def)
  then show ?thesis
    using remediation_follows_escalation [OF ex_process_reachable ex_app_ok]
    unfolding list_all_iff by blast
qed

end
