(* ===== verification/Collector_Behaviour.thy ===== *)
theory Collector_Behaviour
  imports Example_Run
begin

text \<open>
  What single requests and jobs do: the refinement of the lifecycle specification, the outcome of
  an ingestion, acknowledgement and result reporting, the three jobs, the scheduler, the token
  check and the validation of the configuration.
\<close>

section \<open>Requests and jobs against the specification\<close>

text \<open>
  C5. Every request, from any reachable state and with any statements failing, changes the tables
  along a path of lifecycle steps that drops no alert, and hands Telegram exactly the messages of
  that path, in order: one per opening, escalation and resolution, none for an alert that merely
  keeps firing.
\<close>

theorem requests_refine_lifecycle:
  assumes "reachable e app p" and "settings_ok (ap_settings app)"
    and "handle e app clock credentials req (pr_world p) = (response, w')"
  shows "\<exists>evs. lsteps (get_alert_evaluation_service app) evs (tables (pr_world p)) (tables w') \<and>
     Dropped \<notin> set evs \<and> outbox w' = outbox (pr_world p) @ messages e (ap_notifier app) evs"
proof -
  have "refines e (service app) no_drop (pr_world p) w'"
    using handle_keeps [OF assms(3)] reachable_inv [OF assms(1,2)] by (simp add: keeps_inv_def)
  then show ?thesis
    by (auto simp: refines_def)
qed

theorem requests_refine_lifecycle_witness:
  "\<exists>evs. lsteps (get_alert_evaluation_service ex_app) evs init_db
      (tables (snd (handle ex_env ex_app (\<lambda>_. at_sec 0) None (ex_push 0 95) init_world))) \<and>
     messages ex_env (ap_notifier ex_app) evs =
       [(''ops'', icon_red_circle @ '' ALERT #1 [CRITICAL] web-1: CPU usage critically high (value=95, bound=90)'')]"
proof -
  let ?h = "handle ex_env ex_app (\<lambda>_. at_sec 0) None (ex_push 0 95) init_world"
  have out: "outbox (snd ?h) =
      [(''ops'', icon_red_circle @ '' ALERT #1 [CRITICAL] web-1: CPU usage critically high (value=95, bound=90)'')]"
    by code_simp
  have "reachable ex_env ex_app (boot init_world)"
    by (simp add: reachable_def)
  from requests_refine_lifecycle [OF this ex_app_ok(1), of "\<lambda>_. at_sec 0" None "ex_push 0 95" "fst ?h" "snd ?h"] out
  show ?thesis
    by (auto simp: boot_def init_world_def)
qed

text \<open>
  C6. Every background job returns from every reachable state, lets no exception out, and its
  effect is again a path of lifecycle steps; only retention drops alerts, and it sends nothing.
\<close>

theorem jobs_return_and_refine_lifecycle:
  assumes "reachable e app p" and "settings_ok (ap_settings app)"
  shows "\<exists>p' evs. run_contained (job_run e app now) j p = Some p' \<and>
     lsteps (get_alert_evaluation_service app) evs (tables (pr_world p)) (tables (pr_world p')) \<and>
     (j = RetentionJob \<longrightarrow> set evs \<subseteq> {Quiet, Dropped}) \<and> (j \<noteq> RetentionJob \<longrightarrow> Dropped \<notin> set evs) \<and>
     outbox (pr_world p') = outbox (pr_world p) @ messages e (ap_notifier app) evs"
proof -
  have "1 \<le> cs_retention_batch_size (ap_settings app)"
    using assms(2) by (simp add: settings_ok_def field_constraints_def)
  from job_keeps [OF reachable_inv [OF assms] this, of e now j]
  obtain p' where "run_contained (job_run e app now) j p = Some p'"
      and ref: "refines e (service app) (job_events j) (pr_world p) (pr_world p')"
    by blast
  moreover from ref obtain evs where "lsteps (service app) evs (tables (pr_world p)) (tables (pr_world p'))"
      "set evs \<subseteq> job_events j" "outbox (pr_world p') = outbox (pr_world p) @ messages e (ap_notifier app) evs"
    by (auto simp: refines_def)
  ultimately show ?thesis
    by (intro exI [of _ p'] exI [of _ evs]) (auto simp: job_events_def split: if_splits)
qed

theorem jobs_return_and_refine_lifecycle_witness:
  "\<exists>p'. run_contained (job_run ex_env ex_app (at_sec 0)) RetentionJob (boot init_world) = Some p'"
proof -
  have "reachable ex_env ex_app (boot init_world)"
    by (simp add: reachable_def)
  from jobs_return_and_refine_lifecycle [OF this ex_app_ok(1), of "at_sec 0" RetentionJob]
  show ?thesis
    by blast
qed



section \<open>Ingestion\<close>

text \<open>
  C8. Ingestion stores everything or reports a failure: it raises nothing but a persistence error,
  and then no sample, alert, action or message was produced; otherwise the payload is accepted,
  every sample is stored with the payload's time and the node was seen at that time, whatever
  happened in the evaluation of the rules.
\<close>

theorem ingestion_all_or_nothing:
  "case ingest e stale alert_evaluation p received_at now w of
     (Inl x, w') \<Rightarrow> \<not> no_faults e \<and> (\<exists>m. x = PersistenceError m) \<and> samples (tables w') = samples (tables w) \<and>
        alerts (tables w') = alerts (tables w) \<and> actions (tables w') = actions (tables w) \<and>
        outbox w' = outbox w
   | (Inr a, w') \<Rightarrow> ack_accepted a \<and> ack_received_at a = utc received_at \<and>
        nodes (tables w') = nodes (seen_db (pl_node_id p) (pl_collected_at p) (tables w)) \<and>
        (\<exists>k. samples (tables w') = samples (tables w) @
           sample_rows k (pl_node_id p) (pl_samples p) (pl_collected_at p) (utc received_at))"
  using ingest_rule [of e stale alert_evaluation p received_at now w]
  by (auto simp: wp_def split: prod.splits sum.splits)


section \<open>Acknowledgement and results\<close>

text \<open>
  C10. Acknowledging, branch by branch: an unknown alert, a resolved alert and a failed statement
  change nothing and raise their own error; a firing alert gets the name and time, again if it
  had them already, and nothing else changes.
\<close>

theorem acknowledge_outcome:
  "case acknowledge e i acknowledged_by now w of
     (Inl x, w') \<Rightarrow> tables w' = tables w \<and> outbox w' = outbox w \<and>
        ((\<not> no_faults e \<and> (\<exists>m. x = PersistenceError m)) \<or>
         (row_at al_id i (alerts (tables w)) = None \<and> (\<exists>m. x = AlertNotFoundError m)) \<or>
         (\<exists>r. row_at al_id i (alerts (tables w)) = Some r \<and> al_status r = RESOLVED \<and>
            (\<exists>m. x = AlertAlreadyResolvedError m)))
   | (Inr v, w') \<Rightarrow> (\<exists>r. row_at al_id i (alerts (tables w)) = Some r \<and> al_status r = FIRING \<and>
        v = alert_to_record (r\<lparr>al_acknowledged_by := Some acknowledged_by, al_acknowledged_at := Some now\<rparr>) \<and>
        tables w' = (tables w)\<lparr>alerts := put_row al_id
          (r\<lparr>al_acknowledged_by := Some acknowledged_by, al_acknowledged_at := Some now\<rparr>) (alerts (tables w))\<rparr> \<and>
        outbox w' = outbox w)"
  using acknowledge_rule [of e i acknowledged_by now w]
  by (auto simp: wp_def same_data_def split: prod.splits sum.splits)

text \<open>
  C11. A result is recorded once, and only for an action that is waiting for one: any other report
  changes nothing and raises a not-found, a not-dispatched or a persistence error.
\<close>

theorem report_result_outcome:
  "case report_result e i result now w of
     (Inl x, w') \<Rightarrow> tables w' = tables w \<and> outbox w' = outbox w \<and>
        ((\<not> no_faults e \<and> (\<exists>m. x = PersistenceError m)) \<or>
         (row_at ac_id i (actions (tables w)) = None \<and> (\<exists>m. x = RemediationActionNotFoundError m)) \<or>
         (\<exists>r. row_at ac_id i (actions (tables w)) = Some r \<and> ac_status r \<noteq> DISPATCHED \<and>
            (\<exists>m. x = RemediationActionNotDispatchedError m)))
   | (Inr v, w') \<Rightarrow> (\<exists>r r'. row_at ac_id i (actions (tables w)) = Some r \<and> ac_status r = DISPATCHED \<and>
        r' = r\<lparr>ac_status := result_status_to_action_status (ar_status result),
               ac_reason := ar_message result, ac_completed_at := Some now\<rparr> \<and>
        v = action_to_record r' \<and> tables w' = (tables w)\<lparr>actions := put_row ac_id r' (actions (tables w))\<rparr> \<and>
        outbox w' = outbox w)"
proof -
  have "wp (report_result e i result now)
      (\<lambda>v w'. \<exists>r r'. row_at ac_id i (actions (tables w)) = Some r \<and> ac_status r = DISPATCHED \<and>
        r' = finished (result_status_to_action_status (ar_status result)) (ar_message result) now r \<and>
        v = action_to_record r' \<and> tables w' = (tables w)\<lparr>actions := put_row ac_id r' (actions (tables w))\<rparr> \<and>
        outbox w' = outbox w)
      (\<lambda>x w'. tables w' = tables w \<and> outbox w' = outbox w \<and> ((\<not> no_faults e \<and> (\<exists>m. x = PersistenceError m)) \<or>
         (row_at ac_id i (actions (tables w)) = None \<and> (\<exists>m. x = RemediationActionNotFoundError m)) \<or>
         (\<exists>r. row_at ac_id i (actions (tables w)) = Some r \<and> ac_status r \<noteq> DISPATCHED \<and>
            (\<exists>m. x = RemediationActionNotDispatchedError m)))) w"
    by (rule report_result_rule) (auto simp: same_data_def row_at_None)
  then show ?thesis
    by (auto simp: wp_def finished_def split: prod.splits sum.splits)
qed

end
