(* ===== verification/Job_Properties.thy ===== *)
theory Job_Properties
  imports Example_Process
begin

text \<open>
  What the background jobs achieve from every reachable state when no statement fails: the sweep
  for silent nodes, the reconciliation of unanswered dispatches, the retention run; and what the
  scheduler guarantees for any jobs at all.
\<close>

section \<open>The three jobs\<close>

lemma contained_result: "job_run e app now j p = Some (r, p') \<Longrightarrow> run_contained (job_run e app now) j p = Some p'"
  by (auto simp: run_contained_def split: sum.splits)

text \<open>
  C12. The dead-man switch: a sweep goes through, and after it a registered node has a firing
  staleness alert exactly if it has been silent for the configured time, and either it had one
  already or this is not the first sweep of the process, which only observes.
\<close>

theorem staleness_sweep_outcome:
  assumes "reachable e app p" and "settings_ok (ap_settings app)" and "no_faults e"
    and "0 \<le> now" and "now < max_us" and "list_all (\<lambda>n. in_range (nd_last_seen_at n)) (nodes (tables (pr_world p)))"
    and "node \<in> set (nodes (tables (pr_world p)))"
  shows "\<exists>p'. run_contained (job_run e app now) StalenessJob p = Some p' \<and> pr_first_run_done p' \<and>
     ((\<exists>r \<in> set (alerts (tables (pr_world p'))). is_open (nd_node_id node) STALENESS_RULE_KEY r) \<longleftrightarrow>
      fle (cs_heartbeat_stale_after_seconds (ap_settings app)) (total_seconds (now - us (nd_last_seen_at node))) \<and>
      (pr_first_run_done p \<or>
       (\<exists>r \<in> set (alerts (tables (pr_world p))). is_open (nd_node_id node) STALENESS_RULE_KEY r)))"
proof -
  let ?stale = "cs_heartbeat_stale_after_seconds (ap_settings app)" and ?w = "pr_world p"
  have inv: "db_inv (service app) (tables ?w)"
    using assms(1,2) by (rule reachable_inv)
  have at: "row_at nd_node_id (nd_node_id node) (nodes (tables ?w)) = Some node"
    using inv assms(7) by (intro row_at_mem) (simp_all add: db_inv_def keys_ok_def)
  have "wp (staleness_sweep e (ap_notifier app) ?stale (pr_first_run_done p) (utc now)) (\<lambda>_ _. True) (\<lambda>_ _. False) ?w"
    using assms(3-6) by (intro staleness_sweep_healthy) (auto simp: in_range_def list_all_iff)
  then obtain v w' where run: "staleness_sweep e (ap_notifier app) ?stale (pr_first_run_done p) (utc now) ?w = (Inr v, w')"
    by (auto simp: wp_def split: prod.splits sum.splits)
  with staleness_sweep_rule [OF inv, of e ?stale "pr_first_run_done p" "utc now"]
  have "staleness_open w' = flags_after ?stale (utc now) (pr_first_run_done p) (nodes (tables ?w)) (staleness_open ?w)"
    by (simp add: wp_def swept_def)
  moreover have "run_contained (job_run e app now) StalenessJob p = Some \<lparr>pr_world = w', pr_first_run_done = True\<rparr>"
    using run by (simp add: run_contained_def staleness_run_def)
  ultimately show ?thesis
    using at by (auto simp: flags_after_def silent_def staleness_open_def fun_eq_iff)
qed

theorem staleness_sweep_outcome_witness:
  "\<exists>p'. run_contained (job_run ex_env ex_app (at_sec 1000)) StalenessJob ex_first = Some p' \<and>
     pr_first_run_done p' \<and> \<not> (\<exists>r \<in> set (alerts (tables (pr_world p'))). is_open ''web-1'' STALENESS_RULE_KEY r)"
proof -
  obtain n where n: "nodes (tables (pr_world ex_first)) = [n]" "nd_node_id n = ''web-1''" "in_range (nd_last_seen_at n)"
    using ex_first_node by blast
  have "list_all (\<lambda>r. al_rule_key r \<noteq> STALENESS_RULE_KEY) (alerts (tables (pr_world ex_first)))"
    by (rule ex_first_keys)
  then have none: "\<not> (\<exists>r \<in> set (alerts (tables (pr_world ex_first))). is_open ''web-1'' STALENESS_RULE_KEY r)"
    by (auto simp: list_all_iff is_open_def)
  have "0 \<le> at_sec 1000" "at_sec 1000 < max_us"
    by (simp_all add: at_sec_def max_us_def)
  moreover have "\<not> pr_first_run_done ex_first"
    by (simp add: ex_first_def boot_def)
  ultimately show ?thesis
    using staleness_sweep_outcome [OF ex_first_reachable ex_app_ok(1) ex_no_faults, of "at_sec 1000" n] n none by auto
qed

lemma reconciliation_job_result:
  assumes "reachable e app p" and "settings_ok (ap_settings app)" and "no_faults e"
    and "timedelta_seconds (cs_remediation_dispatch_timeout_seconds (ap_settings app)) = Inr td"
    and "0 \<le> now - td" and "now - td < max_us"
  shows "\<exists>w'. run_contained (job_run e app now) ReconciliationJob p = Some (p\<lparr>pr_world := w'\<rparr>) \<and>
     outbox w' = outbox (pr_world p) \<and>
     tables w' = (tables (pr_world p))\<lparr>actions :=
       time_out_before (DT (now - td) True) (utc now) (actions (tables (pr_world p)))\<rparr>"
proof -
  let ?t = "cs_remediation_dispatch_timeout_seconds (ap_settings app)" and ?w = "pr_world p"
  have inv: "db_inv (service app) (tables ?w)"
    using assms(1,2) by (rule reachable_inv)
  have cut: "dt_minus (utc now) td = Inr (DT (now - td) True)"
    using assms(5,6) by (simp add: dt_minus_def)
  have "wp (reconciliation_run e ?t (utc now)) (\<lambda>_ _. True) (\<lambda>_ _. False) ?w"
    by (rule reconciliation_run_healthy [OF assms(3,4) cut])
  then obtain v w' where run: "reconciliation_run e ?t (utc now) ?w = (Inr v, w')"
    by (auto simp: wp_def split: prod.splits sum.splits)
  with reconciliation_run_rule [OF inv, of e ?t "utc now"]
  have "outbox w' = outbox ?w"
    "tables w' = (tables ?w)\<lparr>actions := time_out_before (DT (now - td) True) (utc now) (actions (tables ?w))\<rparr>"
    using assms(4) cut by (auto simp: wp_def)
  moreover have "run_contained (job_run e app now) ReconciliationJob p = Some (p\<lparr>pr_world := w'\<rparr>)"
    using run by (simp add: run_contained_def)
  ultimately show ?thesis
    by blast
qed

text \<open>
  C13. Reconciliation goes through, and then exactly the dispatches older than the timeout have
  become failures with the time-out reason and the time of the run; every other row of every
  table, and the outbox, is as it was.
\<close>

theorem reconciliation_outcome:
  assumes "reachable e app p" and "settings_ok (ap_settings app)" and "no_faults e"
    and "timedelta_seconds (cs_remediation_dispatch_timeout_seconds (ap_settings app)) = Inr td"
    and "0 \<le> now - td" and "now - td < max_us"
  shows "\<exists>p'. run_contained (job_run e app now) ReconciliationJob p = Some p' \<and>
     outbox (pr_world p') = outbox (pr_world p) \<and>
     tables (pr_world p') = (tables (pr_world p))\<lparr>actions :=
       map (\<lambda>x. if ac_status x = DISPATCHED \<and> us (ac_created_at x) < now - td
                then x\<lparr>ac_status := FAILED, ac_reason := Some TIMED_OUT_REASON, ac_completed_at := Some (utc now)\<rparr>
                else x) (actions (tables (pr_world p)))\<rparr>"
  using reconciliation_job_result [OF assms]
  by (auto simp: time_out_before_def dispatched_before_def finished_def)

theorem reconciliation_outcome_witness:
  "\<exists>p'. run_contained (job_run ex_env ex_app (at_sec 5000)) ReconciliationJob ex_first = Some p' \<and>
     nodes (tables (pr_world p')) = nodes (tables (pr_world ex_first))"
proof -
  have "timedelta_seconds (cs_remediation_dispatch_timeout_seconds (ap_settings ex_app)) = Inr (1800 * 1000000)"
    using timedelta_seconds_whole [of 1800] by (simp add: ex_app_def ex_settings_def default_settings_def)
  from reconciliation_outcome [OF ex_first_reachable ex_app_ok(1) ex_no_faults this, of "at_sec 5000"]
  show ?thesis
    by (auto simp: at_sec_def max_us_def)
qed

text \<open>
  C14. A late report does not repair a dispatch that reconciliation has given up: the result an
  Agent sends after its action was timed out is refused with 409 and changes nothing.
\<close>

theorem late_result_refused:
  assumes "reachable e app p" and "settings_ok (ap_settings app)" and "no_faults e"
    and "timedelta_seconds (cs_remediation_dispatch_timeout_seconds (ap_settings app)) = Inr td"
    and "0 \<le> now - td" and "now - td < max_us"
    and "run_contained (job_run e app now) ReconciliationJob p = Some p'"
    and "x \<in> set (actions (tables (pr_world p)))" and "ac_status x = DISPATCHED" and "us (ac_created_at x) < now - td"
    and "verify_api_token (token_set (ap_settings app)) credentials = Inr ()"
    and "handle e app clock credentials (ReportActionResult (ac_id x) result) (pr_world p') = (response, w')"
  shows "fst response = 409 \<and> tables w' = tables (pr_world p')"
proof -
  let ?x = "finished FAILED (Some TIMED_OUT_REASON) (utc now) x"
  have inv: "db_inv (service app) (tables (pr_world p))"
    using assms(1,2) by (rule reachable_inv)
  obtain w1 where p': "p' = p\<lparr>pr_world := w1\<rparr>" and w1: "tables w1 = (tables (pr_world p))\<lparr>actions :=
       time_out_before (DT (now - td) True) (utc now) (actions (tables (pr_world p)))\<rparr>"
    using reconciliation_job_result [OF assms(1-6)] assms(7) by auto
  have "distinct (map ac_id (actions (tables w1)))"
    using sys_step_inv [OF sys_step.job [OF assms(7)] assms(2) inv] by (simp add: p' db_inv_def keys_ok_def)
  moreover have "?x \<in> set (actions (tables w1))"
    using assms(8-10) by (force simp: w1 time_out_before_def dispatched_before_def)
  ultimately have at: "row_at ac_id (ac_id x) (actions (tables (pr_world p'))) = Some ?x"
    using row_at_mem [of ac_id "actions (tables w1)" ?x] by (simp add: p')
  have "wp (report_result e (ac_id x) result (utc (clock 0))) (\<lambda>_ _. False)
      (\<lambda>y w''. tables w'' = tables (pr_world p') \<and> (\<exists>m. y = RemediationActionNotDispatchedError m)) (pr_world p')"
    by (rule report_result_rule) (use assms(3) at in \<open>auto simp: same_data_def row_at_None [symmetric]\<close>)
  then show ?thesis
    using assms(11,12)
    by (auto simp: handle_def guarded_def report_remediation_action_result_def wp_def seq_def ret_def
        error_response_def split: prod.splits sum.splits)
qed
theorem late_result_refused_witness:
  "\<exists>p' response w'. run_contained (job_run ex_env ex_app (at_sec 5000)) ReconciliationJob ex_process = Some p' \<and>
     handle ex_env ex_app (\<lambda>_. at_sec 5001) None
       (ReportActionResult 1 \<lparr>ar_status = RESULT_EXECUTED, ar_message = None\<rparr>) (pr_world p') = (response, w') \<and>
     fst response = 409"
proof -
  have td: "timedelta_seconds (cs_remediation_dispatch_timeout_seconds (ap_settings ex_app)) = Inr (1800 * 1000000)"
    using timedelta_seconds_whole [of 1800] by (simp add: ex_app_def ex_settings_def default_settings_def)
  obtain p' where p': "run_contained (job_run ex_env ex_app (at_sec 5000)) ReconciliationJob ex_process = Some p'"
    using reconciliation_job_result [OF ex_process_reachable ex_app_ok(1) ex_no_faults td, of "at_sec 5000"]
    by (auto simp: at_sec_def max_us_def)
  obtain x1 x2 where x: "actions (tables (pr_world ex_process)) = [x1, x2]"
      "ex_action_view x1 = (1, 1, DISPATCHED, utc (at_sec 2000), True)"
    by (rule ex_actions)
  let ?r = "\<lparr>ar_status = RESULT_EXECUTED, ar_message = None\<rparr>"
  obtain response w' where h: "handle ex_env ex_app (\<lambda>_. at_sec 5001) None (ReportActionResult 1 ?r) (pr_world p') = (response, w')"
    by fastforce
  have "verify_api_token (token_set (ap_settings ex_app)) None = Inr ()"
    by code_simp
  with late_result_refused [OF ex_process_reachable ex_app_ok(1) ex_no_faults td _ _ p', of x1 None "\<lambda>_. at_sec 5001" ?r response w']
    x h p' show ?thesis
    by (cases response) (auto simp: ex_action_view_def at_sec_def max_us_def)
qed

lemma days_before_utc:
  assumes "1 \<le> days" and "0 \<le> now - days * 86400000000" and "now < max_us"
  shows "days_before (utc now) days = Inr (DT (now - days * 86400000000) True)"
  using assms
  by (simp add: days_before_def timedelta_days_def check_timedelta_def max_days_us_def dt_minus_def max_us_def)

text \<open>
  C15. Retention returns, and then the audit rows, alerts and samples past their retention are
  gone and nothing else: a dispatch that still waits for its result stays, a firing alert stays,
  and so does a resolved alert that an audit row kept by this run refers to.
\<close>

theorem retention_outcome:
  assumes "reachable e app p" and "settings_ok (ap_settings app)" and "no_faults e" and "now < max_us"
    and "ca = now - cs_remediation_actions_retention_days (ap_settings app) * 86400000000" and "0 \<le> ca"
    and "cb = now - cs_resolved_alerts_retention_days (ap_settings app) * 86400000000" and "0 \<le> cb"
    and "cc = now - cs_metrics_retention_days (ap_settings app) * 86400000000" and "0 \<le> cc"
  shows "\<exists>p' kept. run_contained (job_run e app now) RetentionJob p = Some p' \<and>
     outbox (pr_world p') = outbox (pr_world p) \<and>
     kept = filter (\<lambda>x. ac_status x = DISPATCHED \<or> ca \<le> us (ac_created_at x)) (actions (tables (pr_world p))) \<and>
     tables (pr_world p') =
       \<lparr>nodes = nodes (tables (pr_world p)),
        samples = filter (\<lambda>s. cc \<le> us (sm_received_at s)) (samples (tables (pr_world p))),
        alerts = filter (\<lambda>r. al_status r = FIRING \<or> al_id r \<in> ac_alert_id ` set kept \<or>
            (case al_resolved_at r of None \<Rightarrow> True | Some t \<Rightarrow> cb \<le> us t)) (alerts (tables (pr_world p))),
        actions = kept\<rparr>"
proof -
  let ?st = "retention_settings_of (ap_settings app)" and ?d = "tables (pr_world p)"
  have s: "field_constraints (ap_settings app)"
    using assms(2) by (simp add: settings_ok_def)
  have inv: "db_inv (service app) ?d"
    using assms(1,2) by (rule reachable_inv)
  have cut: "days_before (utc now) (rs_remediation_actions_days ?st) = Inr (DT ca True)"
      "days_before (utc now) (rs_resolved_alerts_days ?st) = Inr (DT cb True)"
      "days_before (utc now) (rs_metrics_days ?st) = Inr (DT cc True)"
    using s assms(4-10) by (auto simp: retention_settings_of_def field_constraints_def intro!: days_before_utc)
  have "0 < rs_batch_size ?st"
    using s by (simp add: retention_settings_of_def field_constraints_def)
  from retention_run_returns [OF inv this, of e "utc now"] cut assms(3)
  obtain r w' where run: "retention_run e ?st (utc now) (pr_world p) = Some (r, w')"
      and post: "retention_post e (service app) ?st (utc now) (pr_world p) r w'"
    by (auto simp: preturns_def)
  obtain stats where stats: "r = Inr stats"
    using post cut assms(3) by (cases r) (auto simp: retention_post_def)
  then have w': "outbox w' = outbox (pr_world p)"
      "(stats, tables w') = retention_effect (DT ca True) (DT cb True) (DT cc True) ?d"
    using post cut by (auto simp: retention_post_def)
  let ?kept = "filter (\<lambda>x. ac_status x = DISPATCHED \<or> ca \<le> us (ac_created_at x)) (actions ?d)"
  have keep: "\<not> alert_prunable (DT cb True) (?d\<lparr>actions := ?kept\<rparr>) r \<longleftrightarrow>
      al_status r = FIRING \<or> al_id r \<in> ac_alert_id ` set ?kept \<or>
      (case al_resolved_at r of None \<Rightarrow> True | Some t \<Rightarrow> cb \<le> us t)" for r
    by (cases "al_status r") (auto simp: alert_prunable_def split: option.splits)
  have kept: "kept_actions (DT ca True) ?d = ?kept"
    by (auto simp: kept_actions_def action_prunable_def not_less intro!: filter_cong)
  have tab: "tables w' = ?d\<lparr>actions := ?kept,
      alerts := filter (\<lambda>r. \<not> alert_prunable (DT cb True) (?d\<lparr>actions := ?kept\<rparr>) r) (alerts ?d),
      samples := filter (\<lambda>s. cc \<le> us (sm_received_at s)) (samples ?d)\<rparr>"
    using w'(2) by (simp add: retention_effect_def prune_actions_effect_def prune_alerts_effect_def
        prune_samples_effect_def kept kept_alerts_def kept_samples_def Let_def not_less)
  have "run_contained (job_run e app now) RetentionJob p = Some (p\<lparr>pr_world := w'\<rparr>)"
    using run stats by (simp add: run_contained_def)
  then show ?thesis
    using w'(1) tab keep by (intro exI [of _ "p\<lparr>pr_world := w'\<rparr>"] exI [of _ ?kept]) (simp add: db.equality)
qed

theorem retention_outcome_witness:
  "\<exists>p'. run_contained (job_run ex_env ex_app (at_sec 0)) RetentionJob ex_first = Some p' \<and>
     nodes (tables (pr_world p')) = nodes (tables (pr_world ex_first))"
  using retention_outcome [OF ex_first_reachable ex_app_ok(1) ex_no_faults, of "at_sec 0"]
  by (fastforce simp: ex_app_def ex_settings_def default_settings_def at_sec_def max_us_def)

section \<open>The scheduler\<close>

text \<open>
  C16. One pass of the scheduler, for jobs that return: the jobs that are due run exactly once
  and in the order of registration, whatever they raise, the state of one being handed to the
  next; a job that ran is due again one interval after the clock reading that followed it, the
  others keep their time.
\<close>

theorem scheduler_pass:
  assumes "\<And>j s. run j s \<noteq> None"
  shows "\<exists>entries' s'. run_due run now clock 0 entries s = Some (entries', s') \<and>
     run_jobs run (map (js_job \<circ> je_schedule) (filter (\<lambda>en. fle (je_next_due en) now) entries)) s = Some s' \<and>
     length entries' = length entries \<and>
     (\<forall>i < length entries. entries' ! i =
        (if fle (je_next_due (entries ! i)) now
         then (entries ! i)\<lparr>je_next_due :=
           fadd (clock (length (filter (\<lambda>en. fle (je_next_due en) now) (take i entries))))
             (js_interval_seconds (je_schedule (entries ! i)))\<rparr>
         else entries ! i))"
proof -
  have "\<exists>s'. run_jobs run (map (js_job \<circ> je_schedule) (filter (\<lambda>en. fle (je_next_due en) now) entries)) s = Some s' \<and> True"
    by (rule run_jobs_returns) (use assms in fastforce)+
  then obtain s' where s': "run_jobs run (map (js_job \<circ> je_schedule) (filter (\<lambda>en. fle (je_next_due en) now) entries)) s = Some s'"
    by blast
  then obtain entries' where "run_due run now clock 0 entries s = Some (entries', s')"
    using run_due_jobs [of run now clock 0 entries s] by auto
  then show ?thesis
    using s' run_due_entries by (fastforce simp: due_index_def)
qed

definition ex_entry :: "nat \<Rightarrow> rat \<Rightarrow> nat job_entry" where
  "ex_entry j due = \<lparr>je_schedule = \<lparr>js_job = j, js_interval_seconds = Fin 60\<rparr>, je_next_due = Fin due\<rparr>"

theorem scheduler_pass_witness:
  "map_option snd (run_due (\<lambda>j log. Some (Inl ValueErr, log @ [j])) (Fin 10) (\<lambda>_. Fin 11) 0
     [ex_entry 1 5, ex_entry 2 20, ex_entry 3 10] []) = Some [1, 3]"
proof -
  let ?run = "\<lambda>j log. Some (Inl ValueErr, log @ [j])"
  let ?es = "[ex_entry 1 5, ex_entry 2 20, ex_entry 3 10]"
  have jobs: "run_jobs ?run (map (js_job \<circ> je_schedule) (filter (\<lambda>en. fle (je_next_due en) (Fin 10)) ?es)) [] = Some [1, 3]"
    by code_simp
  have "\<exists>entries' s'. run_due ?run (Fin 10) (\<lambda>_. Fin 11) 0 ?es [] = Some (entries', s') \<and>
     run_jobs ?run (map (js_job \<circ> je_schedule) (filter (\<lambda>en. fle (je_next_due en) (Fin 10)) ?es)) [] = Some s'"
    using scheduler_pass [of ?run "Fin 10" "\<lambda>_. Fin 11" ?es "[]"] by blast
  then show ?thesis
    unfolding jobs by fastforce
qed

datatype thread_op = Start | Stop bool

primrec thread_step :: "thread_op \<Rightarrow> scheduler_threads \<Rightarrow> scheduler_threads" where
  "thread_step Start th = start th"
| "thread_step (Stop joined) th = stop joined th"




text \<open>
  A stop that gives up on a job that outlasts the timeout loses the thread, and the next start
  clears the event that thread was to see: two loops run at the same time.
\<close>

lemma stop_timeout_then_start_overlaps:
  "live_threads (fold thread_step [Start, Stop False, Start] init_threads) = 2 \<and>
   \<not> th_stop (fold thread_step [Start, Stop False, Start] init_threads)"
  by (simp add: live_threads_def init_threads_def start_def stop_def is_running_def)

end
