(* ===== verification/Ingestion_Healthy.thy ===== *)
theory Ingestion_Healthy
  imports Ingestion
begin

text \<open>
  Ingestion on a healthy database. When no statement fails, the payload's time is aware and an hour or a rule's window before it is
  still a date, evaluating the rules raises nothing.
\<close>

definition windows_ok :: "rule_engine \<Rightarrow> datetime \<Rightarrow> bool" where
  "windows_ok eng t \<longleftrightarrow> (\<forall>mt rule. re_rate_of_change_rules eng mt = Some rule \<longrightarrow>
     (\<exists>td since. timedelta_seconds (rt_window_seconds rule) = Inr td \<and> dt_minus t td = Inr since))"

lemma find_previous_sample_healthy:
  assumes "no_faults e" and "timedelta_seconds win = Inr td" and "dt_minus t td = Inr since"
  shows "wp (find_previous_sample e n mt t win) (\<lambda>_. same_data w) (\<lambda>_ _. False) w"
  unfolding find_previous_sample_def wp_seq wp_from_result assms(2,3) sum.case wp_ret
  by (rule query_rule) (use assms(1) in auto)

lemma evaluate_healthy:
  assumes "no_faults e" and "windows_ok eng t"
  shows "wp (evaluate e eng n ss t) (\<lambda>_. same_data w) (\<lambda>_ _. False) w"
proof -
  have one: "wp (evaluate_sample e eng n t s) (\<lambda>_. same_data w) (\<lambda>_ _. False) w" for s w
    using assms find_previous_sample_healthy [OF assms(1)]
    by (fastforce simp: evaluate_sample_def evaluate_rate_of_change_def Let_def wp_simps windows_ok_def
        intro: wp_mono split: option.splits)
  have "wp (for_each (evaluate_sample e eng n t) ss) (\<lambda>ys u. same_data w u \<and> (\<forall>y \<in> set ys. True)) (\<lambda>_ _. False) w"
    by (rule wp_for_each_inv) (auto intro: wp_mono [OF one] same_data_trans)
  then show ?thesis
    unfolding evaluate_def wp_seq wp_ret by (rule wp_mono) auto
qed

definition has_alert :: "int \<Rightarrow> world \<Rightarrow> bool" where
  "has_alert i w \<longleftrightarrow> i \<in> al_id ` set (alerts (tables w))"

definition has_node :: "string \<Rightarrow> world \<Rightarrow> bool" where
  "has_node n w \<longleftrightarrow> n \<in> nd_node_id ` set (nodes (tables w))"

lemma has_outbox [simp]: "has_node n (w\<lparr>outbox := x\<rparr>) = has_node n w" "has_alert i (w\<lparr>outbox := x\<rparr>) = has_alert i w"
  by (simp_all add: has_node_def has_alert_def)

lemma has_same: "same_data w w' \<Longrightarrow> has_node n w' = has_node n w" "same_data w w' \<Longrightarrow> has_alert i w' = has_alert i w"
  by (simp_all add: has_node_def has_alert_def same_data_def)

lemma alert_put_healthy:
  assumes "no_faults e" and "has_node n w" and "has_alert i w"
  shows "wp (update_last_fired e i v t) (\<lambda>r w'. has_node n w' \<and> has_alert i w' \<and> al_id r = i \<and> aware (al_first_fired_at r)) (\<lambda>_ _. False) w"
    and "wp (escalate_alert e i t) (\<lambda>r w'. has_node n w' \<and> has_alert i w' \<and> al_id r = i \<and> aware (al_first_fired_at r)) (\<lambda>_ _. False) w"
    and "wp (mark_remediated e i t) (\<lambda>r w'. has_node n w') (\<lambda>_ _. False) w"
    and "wp (resolve_alert e i t) (\<lambda>r w'. has_node n w') (\<lambda>_ _. False) w"
  using assms
  by (auto simp: keys_put_row has_node_def has_alert_def row_at_None alert_to_record_def dest!: row_at_SomeD
      intro!: update_last_fired_rule escalate_alert_rule mark_remediated_rule resolve_alert_rule)

lemma decide_healthy:
  assumes "no_faults e" and "ready t" and "has_node n w" and "has_alert i w"
  shows "wp (decide (sql_action_repository e) eng n i k t) (\<lambda>_ w'. has_node n w' \<and> has_alert i w') (\<lambda>_ _. False) w"
  by (rule sql_log.decide_rule) (use assms in \<open>auto simp: has_node_def has_alert_def same_data_def\<close>)

lemma maybe_escalate_healthy:
  assumes "no_faults e" and "aware t" and "has_node n w" and "has_alert (al_id r) w" and "aware (al_first_fired_at r)"
  shows "wp (maybe_escalate e sv t r)
     (\<lambda>r' w'. has_node n w' \<and> has_alert (al_id r') w' \<and> aware (al_first_fired_at r')) (\<lambda>_ _. False) w"
  unfolding maybe_escalate_def wp_seq
  using assms alert_put_healthy(2) [OF assms(1,3,4), of t]
  by (auto simp: wp_simps should_escalate_def dt_sub_def elim!: wp_mono)

lemma maybe_remediate_healthy:
  assumes "no_faults e" and "ready t" and "has_node n w" and "has_alert (al_id r) w" and "aware (al_first_fired_at r)"
  shows "wp (maybe_remediate e sv n result t r) (\<lambda>_. has_node n) (\<lambda>_ _. False) w"
proof -
  have "wp (decide (sql_action_repository e) eng n (al_id r) (rr_rule_key result) t)
     (\<lambda>v. wp (case v of None \<Rightarrow> ret (r, None)
           | Some dec \<Rightarrow> seq (mark_remediated e (al_id r) t) (\<lambda>updated.
               ret (updated, if ac_status dec = DISPATCHED then Some dec else None)))
        (\<lambda>_. has_node n) (\<lambda>_ _. False)) (\<lambda>_ _. False) w" for eng
    by (rule wp_mono [OF decide_healthy [OF assms(1-4)]])
      (use alert_put_healthy(3) [OF assms(1)] in \<open>auto simp: wp_simps split: option.splits\<close>)
  then show ?thesis
    using assms(2,3,5)
    by (auto simp: maybe_remediate_def wp_simps should_remediate_def dt_sub_def ready_def split: option.splits)
qed

lemma apply_result_healthy:
  assumes "no_faults e" and "ready t" and "has_node n w"
  shows "wp (apply_result e sv n t result) (\<lambda>_. has_node n) (\<lambda>_ _. False) w"
proof -
  have t: "aware t"
    using assms(2) by (simp add: ready_def)
  have opens: "wp (open_alert e sv n result t) (\<lambda>_. has_node n) (\<lambda>_ _. False) w'" if "same_data w w'" for w'
    unfolding open_alert_def wp_seq
    by (rule create_alert_rule) (use assms that in \<open>auto simp: wp_simps has_node_def same_data_def\<close>)
  have adv: "wp (open_or_advance e sv n result t (Some a)) (\<lambda>_. has_node n) (\<lambda>_ _. False) w'"
    if "has_node n w'" "has_alert (al_id a) w'" for w' a
    unfolding open_or_advance_def option.case wp_seq
    by (rule wp_mono [OF alert_put_healthy(1) [OF assms(1) that]])
      (auto intro!: wp_mono [OF maybe_escalate_healthy [OF assms(1) t, where n = n]] maybe_remediate_healthy [OF assms(1,2)])
  have resolves: "wp (resolve e sv t a) (\<lambda>_. has_node n) (\<lambda>_ _. False) w'"
    if "has_node n w'" "has_alert (al_id a) w'" for w' a
    unfolding resolve_def wp_seq
    by (rule wp_mono [OF alert_put_healthy(4) [OF assms(1) that]]) (auto simp: wp_simps has_node_def)
  show ?thesis
    unfolding apply_result_def wp_seq
  proof (rule find_open_alert_rule)
    fix w'
    assume "same_data w w'"
    then show "wp (if rr_breached result then seq (open_or_advance e sv n result t None) (\<lambda>(record, dispatched).
          ret (Some (to_view record), dispatched)) else case None of None \<Rightarrow> ret (None, None) | Some a \<Rightarrow>
          seq (resolve e sv t a) (\<lambda>resolved. ret (Some (to_view resolved), None))) (\<lambda>_. has_node n) (\<lambda>_ _. False) w'"
      using opens assms(3) by (simp add: open_or_advance_def wp_simps has_same)
  next
    fix r w'
    assume "same_data w w'" "r \<in> set (alerts (tables w))"
    then have "has_node n w'" "has_alert (al_id (alert_to_record r)) w'"
      using assms(3) by (auto simp: has_node_def has_alert_def same_data_def)
    then show "wp (if rr_breached result then seq (open_or_advance e sv n result t (Some (alert_to_record r)))
          (\<lambda>(record, dispatched). ret (Some (to_view record), dispatched))
        else case Some (alert_to_record r) of None \<Rightarrow> ret (None, None) | Some a \<Rightarrow>
          seq (resolve e sv t a) (\<lambda>resolved. ret (Some (to_view resolved), None))) (\<lambda>_. has_node n) (\<lambda>_ _. False) w'"
      using adv resolves by (simp add: wp_simps split_beta)
  qed (use assms(1) in simp)
qed

lemma evaluate_and_apply_healthy:
  assumes "no_faults e" and "ready t" and "windows_ok (sv_rule_engine sv) t" and "has_node n w"
  shows "wp (evaluate_and_apply e sv n ss t) (\<lambda>_ _. True) (\<lambda>_ _. False) w"
  unfolding evaluate_and_apply_def wp_seq
proof (rule wp_mono [OF evaluate_healthy [OF assms(1,3)]])
  fix results w'
  assume "same_data w w'"
  then have "has_node n w'"
    using assms(4) by (simp add: has_node_def same_data_def)
  then have "wp (for_each (apply_result e sv n t) results) (\<lambda>ys u. has_node n u \<and> (\<forall>y \<in> set ys. True)) (\<lambda>_ _. False) w'"
    by (rule wp_for_each_inv) (use apply_result_healthy [OF assms(1,2)] in simp)
  then show "wp (for_each (apply_result e sv n t) results)
      (\<lambda>outs. wp (ret \<lparr>eo_transitions = List.map_filter fst outs, eo_dispatched_actions = List.map_filter snd outs\<rparr>)
         (\<lambda>_ _. True) (\<lambda>_ _. False)) (\<lambda>_ _. False) w'"
    by (rule wp_mono) (auto simp: wp_simps)
qed

text \<open>Then the acknowledgement carries every dispatch of this ingestion.\<close>

lemma evaluate_rules_healthy:
  assumes "no_faults e" and "ready (pl_collected_at p)" and "windows_ok (sv_rule_engine sv) (pl_collected_at p)"
    and "has_node (pl_node_id p) w"
  shows "wp (evaluate_rules_best_effort e (Some sv) p)
     (\<lambda>pas w'. \<exists>new. audit_grows w w' new \<and> pas = wire_actions new) (\<lambda>_ _. False) w"
  unfolding evaluate_rules_best_effort_def option.case wp_attempt wp_seq wp_ret
  by (rule wp_mono [OF wp_conj [OF evaluate_and_apply_reports evaluate_and_apply_healthy [OF assms]]])
    (auto simp: reports_def wire_dispatched [symmetric])

lemma ingest_healthy:
  assumes "no_faults e" and "ready (pl_collected_at p)" and "windows_ok (sv_rule_engine sv) (pl_collected_at p)"
  shows "wp (ingest e stale (Some sv) p received_at now)
     (\<lambda>ack w'. \<exists>new. actions (tables w') = actions (tables w) @ new \<and> ack_pending_actions ack = wire_actions new)
     (\<lambda>_ _. False) w"
  unfolding ingest_def wp_seq
  by (intro record_seen_rule bulk_insert_rule wp_mono [OF evaluate_rules_healthy])
    (use assms in \<open>auto simp: wp_simps has_node_def audit_grows_def seen_db_keys\<close>)

end
