(* ===== verification/Request_Properties.thy ===== *)
theory Request_Properties
  imports Example_Run Ingestion_Healthy
begin

text \<open>
  Who may ask and what is answered: the token check in front of every route, and the answers of a
  Collector whose database does not fail.
\<close>

section \<open>Authentication\<close>

lemma any_digest_unknown:
  "presented \<notin> set ts \<Longrightarrow> any_digest presented ts =
     (if ts = [] \<or> (is_ascii presented \<and> list_all is_ascii ts) then Inr False else Inl TypeErr)"
  by (induction ts) (auto simp: compare_digest_def)

lemma any_digest_known:
  "list_all is_ascii ts \<Longrightarrow> presented \<in> set ts \<Longrightarrow> any_digest presented ts = Inr True"
  by (induction ts) (auto simp: compare_digest_def list_all_iff split: bool.splits)

lemma verify_unknown:
  assumes "tokens \<noteq> []" and "(case credentials of None \<Rightarrow> [] | Some c \<Rightarrow> c) \<notin> set tokens"
  shows "\<exists>x. verify_api_token tokens credentials = Inl x \<and> fst (error_response x) =
    (if is_ascii (case credentials of None \<Rightarrow> [] | Some c \<Rightarrow> c) \<and> list_all is_ascii tokens then 401 else 500)"
  using assms by (auto simp: verify_api_token_def any_digest_unknown error_response_def Let_def)

text \<open>
  C18. A request to any route but the health check is refused, and touches nothing, unless it
  presents a configured token: with 401, or with 500 when the presented text or a configured
  token is not ASCII, because the constant-time comparison raises. A configured token is let in.
\<close>

theorem requests_need_a_token:
  assumes "token_set (ap_settings app) \<noteq> []" and "guarded req"
    and "presented = (case credentials of None \<Rightarrow> [] | Some c \<Rightarrow> c)"
  shows "(presented \<notin> set (token_set (ap_settings app)) \<longrightarrow>
      snd (handle e app clock credentials req w) = w \<and>
      fst (fst (handle e app clock credentials req w)) =
        (if is_ascii presented \<and> list_all is_ascii (token_set (ap_settings app)) then 401 else 500)) \<and>
    (presented \<in> set (token_set (ap_settings app)) \<and> list_all is_ascii (token_set (ap_settings app)) \<longrightarrow>
      verify_api_token (token_set (ap_settings app)) credentials = Inr ())"
proof (intro conjI impI)
  let ?ts = "token_set (ap_settings app)"
  assume "presented \<notin> set ?ts"
  then obtain x where "verify_api_token ?ts credentials = Inl x"
      and x: "fst (error_response x) = (if is_ascii presented \<and> list_all is_ascii ?ts then 401 else 500)"
    using verify_unknown [OF assms(1), of credentials] assms(3) by blast
  then have "handle e app clock credentials req w = (error_response x, w)"
    using assms(2) by (simp add: handle_def)
  then show "snd (handle e app clock credentials req w) = w" and
    "fst (fst (handle e app clock credentials req w)) = (if is_ascii presented \<and> list_all is_ascii ?ts then 401 else 500)"
    using x by simp_all
next
  assume "presented \<in> set (token_set (ap_settings app)) \<and> list_all is_ascii (token_set (ap_settings app))"
  then show "verify_api_token (token_set (ap_settings app)) credentials = Inr ()"
    using assms(1,3) by (simp add: verify_api_token_def any_digest_known Let_def)
qed

definition ex_secured :: collector_app where
  "ex_secured = ex_app\<lparr>ap_settings := ex_settings\<lparr>cs_environment := Prod, cs_api_tokens := '' s3cret, other''\<rparr>\<rparr>"

lemma ex_secured_tokens: "token_set (ap_settings ex_secured) = [''s3cret'', ''other'']"
  by (simp add: ex_secured_def token_set_def) code_simp

theorem requests_need_a_token_witness:
  "fst (fst (handle ex_env ex_secured (\<lambda>_. at_sec 0) (Some ''guess'') ListNodes init_world)) = 401 \<and>
   fst (fst (handle ex_env ex_secured (\<lambda>_. at_sec 0) (Some [CHR 0xC3]) ListNodes init_world)) = 500"
proof -
  have "is_ascii ''guess''" "\<not> is_ascii [CHR 0xC3]" "list_all is_ascii [''s3cret'', ''other'']"
    by code_simp+
  then show ?thesis
    using requests_need_a_token [of ex_secured ListNodes "''guess''" "Some ''guess''" ex_env "\<lambda>_. at_sec 0" init_world]
      requests_need_a_token [of ex_secured ListNodes "[CHR 0xC3]" "Some [CHR 0xC3]" ex_env "\<lambda>_. at_sec 0" init_world]
    unfolding ex_secured_tokens by (simp add: guarded_def)
qed

text \<open>
  Outside the development environment nothing but the health check is open: under settings
  that were accepted, a request without credentials is refused and touches nothing.
\<close>

theorem no_anonymous_access:
  assumes "CollectorSettings (ap_settings app) = Inr s" and "cs_environment s \<noteq> Dev" and "guarded req"
  shows "snd (handle e app clock None req w) = w \<and> 401 \<le> fst (fst (handle e app clock None req w))"
proof -
  have s: "s = ap_settings app" "settings_ok s"
    using assms(1) by (simp_all add: CollectorSettings_ok)
  have "token_set s \<noteq> []"
    using s(2) assms(2) by (simp add: settings_ok_def)
  moreover have "[] \<notin> set (token_set s)"
    using comma_set_nonempty by (auto simp: token_set_def)
  ultimately show ?thesis
    using verify_unknown [of "token_set s" None] assms(3) s(1)
    by (auto simp: handle_def split: sum.splits if_splits)
qed

theorem no_anonymous_access_witness:
  "snd (handle ex_env ex_secured (\<lambda>_. at_sec 0) None (ex_push 0 95) init_world) = init_world"
proof -
  have "CollectorSettings (ap_settings ex_secured) = Inr (ap_settings ex_secured)"
    unfolding CollectorSettings_ok by code_simp
  moreover have "cs_environment (ap_settings ex_secured) \<noteq> Dev"
    by (simp add: ex_secured_def)
  ultimately show ?thesis
    using no_anonymous_access by (simp add: guarded_def ex_push_def)
qed

section \<open>Requests on a healthy database\<close>

text \<open>Which errors a route may end in when no statement fails.\<close>

definition asked_wrong :: "exn \<Rightarrow> bool" where
  "asked_wrong x \<longleftrightarrow> status_for x \<in> {404, 409} \<and> is_cluster_pulse_error x"

lemma route_healthy:
  assumes "no_faults e"
  shows "wp (route e app clock req) (\<lambda>_ _. True) (\<lambda>x _. asked_wrong x) w"
proof (cases req)
  case (PostMetrics p)
  then show ?thesis
    by (simp add: receive_metrics_def wp_simps)
      (rule wp_mono [OF ingest_rule]; simp add: assms)
next
  case (PostHeartbeat ping)
  then show ?thesis
    by (simp add: receive_heartbeat_def wp_simps) (rule record_seen_rule; simp add: assms)
next
  case ListNodes
  show ?thesis
    unfolding route.simps list_nodes_route_def list_nodes_def wp_seq ListNodes
    by (rule node_list_all_rule) (auto simp: assms wp_def list_views ret_def)
next
  case (GetNode i)
  then show ?thesis
    by (simp add: get_node_route_def wp_simps)
      (rule get_node_rule; simp add: assms asked_wrong_def)
next
  case (ListAlerts st)
  then show ?thesis
    unfolding ListAlerts route.simps list_alerts_route_def list_alerts_def alert_list_def wp_seq
    by (intro query_rule) (auto simp: assms wp_simps)
next
  case (GetAlert i)
  then show ?thesis
    unfolding GetAlert route.simps get_alert_route_def get_alert_def wp_seq
    by (intro alert_get_rule) (auto simp: assms wp_simps asked_wrong_def split: option.splits)
next
  case (AcknowledgeAlert i b)
  then show ?thesis
    by (simp add: acknowledge_alert_route_def wp_simps)
      (rule wp_mono [OF acknowledge_rule]; auto simp: assms asked_wrong_def)
next
  case (ListActions n)
  then show ?thesis
    unfolding ListActions route.simps list_remediation_actions_def list_actions_def action_list_def wp_seq
    by (intro query_rule) (auto simp: assms wp_simps)
next
  case (GetAction i)
  then show ?thesis
    unfolding GetAction route.simps get_remediation_action_def get_action_def wp_seq
    by (intro action_get_rule) (auto simp: assms wp_simps asked_wrong_def split: option.splits)
next
  case (ReportActionResult i result)
  then show ?thesis
    by (simp add: report_remediation_action_result_def wp_simps)
      (rule report_result_rule; simp add: assms asked_wrong_def)
next
  case Healthz
  then show ?thesis
    unfolding Healthz route.simps healthz_def wp_seq by (intro query_rule) (auto simp: assms wp_simps)
qed

text \<open>
  C20. As long as no statement fails, a request that passed the token check is answered: with 200,
  or with 404 or 409 when it names something that does not exist or is not in the state it asks
  for. A push of metrics or a heartbeat is always accepted.
\<close>

theorem healthy_requests_answered:
  assumes "no_faults e" and "guarded req \<Longrightarrow> verify_api_token (token_set (ap_settings app)) credentials = Inr ()"
  shows "fst (fst (handle e app clock credentials req w)) \<in> {200, 404, 409} \<and>
    ((\<exists>p. req = PostMetrics p) \<or> (\<exists>ping. req = PostHeartbeat ping) \<longrightarrow>
      fst (fst (handle e app clock credentials req w)) = 200)"
proof -
  have run: "handle e app clock credentials req w = (case route e app clock req w of
      (Inl x, w') \<Rightarrow> (error_response x, w') | (Inr b, w') \<Rightarrow> ((200, b), w'))"
    using assms(2) by (simp add: handle_def)
  have "wp (ingest e s al p r n) (\<lambda>_ _. True) (\<lambda>_ _. False) w" for s al p r n
    by (rule wp_mono [OF ingest_rule]) (simp_all add: assms(1))
  moreover have "wp (record_seen e s i t n) (\<lambda>_ _. True) (\<lambda>_ _. False) w" for s i t n
    by (rule record_seen_rule) (simp_all add: assms(1))
  ultimately have pushes: "wp (route e app clock req) (\<lambda>_ _. True) (\<lambda>_ _. False) w"
    if "(\<exists>p. req = PostMetrics p) \<or> (\<exists>ping. req = PostHeartbeat ping)"
    using that by (auto simp: receive_metrics_def receive_heartbeat_def wp_simps)
  show ?thesis
    using route_healthy [OF assms(1), of app clock req w] pushes
    by (auto simp: run wp_def asked_wrong_def error_response_def split: prod.splits sum.splits)
qed

theorem healthy_requests_answered_witness:
  "fst (fst (handle ex_env ex_app (\<lambda>_. at_sec 0) None (ex_push 0 95) init_world)) = 200"
proof -
  have "verify_api_token (token_set (ap_settings ex_app)) None = Inr ()"
    by code_simp
  then show ?thesis
    using healthy_requests_answered [OF ex_no_faults, of "ex_push 0 95" ex_app None "\<lambda>_. at_sec 0" init_world]
    by (simp add: ex_push_def)
qed

text \<open>
  C21. Nothing dispatched is lost on the way: when no statement fails and the payload carries an
  aware time with an hour and every rate window before it, the acknowledgement lists all the rows
  this ingestion added to the audit log as dispatched, with their type and parameters, in order.
\<close>

theorem healthy_acknowledgement_complete:
  assumes "no_faults e" and "ready (pl_collected_at p)"
    and "windows_ok (RuleEngine (ap_rules_config app)) (pl_collected_at p)"
  shows "\<exists>a w' new. ingest e stale (Some (get_alert_evaluation_service app)) p received_at now w = (Inr a, w') \<and>
     actions (tables w') = actions (tables w) @ new \<and>
     ack_pending_actions a = map (\<lambda>x. \<lparr>pa_action_id = ac_id x, pa_action_type = ac_action_type x,
       pa_parameters = ac_parameters x\<rparr>) (filter (\<lambda>x. ac_status x = DISPATCHED) new)"
proof -
  have "sv_rule_engine (service app) = RuleEngine (ap_rules_config app)"
    by (simp add: get_alert_evaluation_service_def)
  with ingest_healthy [OF assms(1,2), of "service app" stale received_at now w] assms(3)
  show ?thesis
    by (auto simp: wp_def wire_actions_def wire_action_def [abs_def] split: prod.splits sum.splits)
qed

theorem healthy_acknowledgement_complete_witness:
  "\<exists>a w' new. ingest ex_env (Fin 90) (Some (get_alert_evaluation_service ex_app))
      \<lparr>pl_node_id = ''web-1'', pl_collected_at = utc (at_sec 0), pl_samples = [], pl_collection_errors = []\<rparr>
      (at_sec 1) (at_sec 1) init_world = (Inr a, w') \<and>
     actions (tables w') = actions (tables init_world) @ new"
proof -
  let ?p = "\<lparr>pl_node_id = ''web-1'', pl_collected_at = utc (at_sec 0), pl_samples = [], pl_collection_errors = []\<rparr>"
  have "ready (pl_collected_at ?p)"
    by (simp add: ready_def at_sec_def one_hour_def max_us_def)
  moreover have "windows_ok (RuleEngine (ap_rules_config ex_app)) (pl_collected_at ?p)"
    by (simp add: windows_ok_def RuleEngine_def ex_app_def ex_rules_def)
  ultimately show ?thesis
    using healthy_acknowledgement_complete [OF ex_no_faults, of ?p ex_app "Fin 90" "at_sec 1" "at_sec 1" init_world] by blast
qed

end
