(* ===== verification/Threads.thy ===== *)
theory Threads
  imports Prelude
begin

text \<open>
  Programs that run side by side on one state. A program is a sequence of calls, each of them
  atomic, with the rest of the program depending on what the call returned; run alone it is an
  ordinary computation. Programs of a pool take their calls in any order. The locale \<open>rely\<close> is the
  rely-guarantee method for such pools: every call keeps an invariant and takes the state to a later
  one, and may rely on the same of the calls of others that come in between.
\<close>

named_theorems run_simps \<open>what a program computes when it runs alone\<close>

subsection \<open>Programs\<close>

datatype ('s, 'e, 'a) prog = Done "'e + 'a" | Call "'s \<Rightarrow> ('s, 'e, 'a) prog \<times> 's"

definition call :: "('s, 'e, 'a) comp \<Rightarrow> ('s, 'e, 'a) prog" where
  "call m = Call (map_prod Done id \<circ> m)"

abbreviation yields :: "'a \<Rightarrow> ('s, 'e, 'a) prog" where
  "yields v \<equiv> Done (Inr v)"

primrec pbind :: "('s, 'e, 'a) prog \<Rightarrow> ('a \<Rightarrow> ('s, 'e, 'b) prog) \<Rightarrow> ('s, 'e, 'b) prog" where
  "pbind (Done r) f = (case r of Inl x \<Rightarrow> Done (Inl x) | Inr v \<Rightarrow> f v)"
| "pbind (Call g) f = Call (map_prod (\<lambda>p. pbind p f) id \<circ> g)"

primrec ptry :: "('s, 'e, 'a) prog \<Rightarrow> ('e \<Rightarrow> ('s, 'e, 'a) prog) \<Rightarrow> ('s, 'e, 'a) prog" where
  "ptry (Done r) h = (case r of Inl x \<Rightarrow> h x | Inr v \<Rightarrow> Done (Inr v))"
| "ptry (Call g) h = Call (map_prod (\<lambda>p. ptry p h) id \<circ> g)"

primrec pfor :: "('x \<Rightarrow> ('s, 'e, 'a) prog) \<Rightarrow> 'x list \<Rightarrow> ('s, 'e, 'a list) prog" where
  "pfor f [] = yields []"
| "pfor f (x # xs) = pbind (f x) (\<lambda>y. pbind (pfor f xs) (\<lambda>ys. yields (y # ys)))"

primrec run :: "('s, 'e, 'a) prog \<Rightarrow> ('s, 'e, 'a) comp" where
  "run (Done r) = from_result r"
| "run (Call g) = (\<lambda>s. case (map_prod run id \<circ> g) s of (m, t) \<Rightarrow> m t)"

lemma prog_induct [case_names Done Call]:
  assumes "\<And>r. P (Done r)" and "\<And>g. (\<And>s. P (fst (g s))) \<Longrightarrow> P (Call g)"
  shows "P p"
proof (induction p)
  case (Call g)
  have "P (fst (g s))" for s
    by (rule Call [of "g s" "fst (g s)"]) (auto simp: prod_set_defs)
  then show ?case
    by (rule assms(2))
qed (rule assms(1))

lemma run_Call: "run (Call g) s = run (fst (g s)) (snd (g s))"
  by (simp add: map_prod_def split: prod.splits)

declare run.simps [simp del]

lemma run_Done [run_simps]: "run (Done r) = from_result r"
  by (simp add: run.simps)

lemma run_call [run_simps]: "run (call m) = m"
  by (rule ext) (simp add: call_def run_Call run_Done from_result_def)

lemma from_result_simps [run_simps]: "from_result (Inr v) = ret v" "from_result (Inl x) = raise x"
  by (simp_all add: from_result_def ret_def raise_def)

lemma run_pbind [run_simps]: "run (pbind p f) = seq (run p) (\<lambda>v. run (f v))"
proof (induction p rule: prog_induct)
  case (Done r)
  then show ?case
    by (simp add: run_Done from_result_def seq_def fun_eq_iff split: sum.splits)
next
  case (Call g)
  show ?case
    by (rule ext) (simp add: run_Call Call seq_def)
qed

lemma run_ptry [run_simps]: "run (ptry p h) = attempt (run p) (\<lambda>x. run (h x))"
proof (induction p rule: prog_induct)
  case (Done r)
  then show ?case
    by (simp add: run_Done from_result_def attempt_def fun_eq_iff split: sum.splits)
next
  case (Call g)
  show ?case
    by (rule ext) (simp add: run_Call Call attempt_def)
qed

lemma run_if [run_simps]: "run (if b then p else q) = (if b then run p else run q)"
  by simp

lemma run_case_option [run_simps]:
  "run (case v of None \<Rightarrow> p | Some y \<Rightarrow> q y) = (case v of None \<Rightarrow> run p | Some y \<Rightarrow> run (q y))"
  by (simp split: option.split)

lemma run_case_prod [run_simps]: "run (case v of (x, y) \<Rightarrow> p x y) = (case v of (x, y) \<Rightarrow> run (p x y))"
  by (simp split: prod.split)

lemmas run_congs = if_cong option.case_cong prod.case_cong

declare pbind.simps(1) [simp del] ptry.simps(1) [simp del]

lemma run_pfor [run_simps]: "run (pfor f xs) = for_each (\<lambda>x. run (f x)) xs"
  by (induction xs) (simp_all add: run_simps)

subsection \<open>Pools\<close>

text \<open>
  A configuration is what is remembered of the past, the state and the pool. At any time a new
  program may arrive, or one of the pool makes its next call; \<open>fresh\<close> says which new states the
  past allows.
\<close>

inductive interleave ::
    "(('s, 'e, 'a) prog \<Rightarrow> bool) \<Rightarrow> ('h \<Rightarrow> 's \<Rightarrow> 's \<Rightarrow> bool) \<Rightarrow> ('h \<Rightarrow> 's \<Rightarrow> 'h) \<Rightarrow>
     ('h \<times> 's) \<times> ('s, 'e, 'a) prog list \<Rightarrow> ('h \<times> 's) \<times> ('s, 'e, 'a) prog list \<Rightarrow> bool"
  for thread fresh remember where
  arrive: "thread p \<Longrightarrow> interleave thread fresh remember (c, ps) (c, ps @ [p])"
| turn: "i < length ps \<Longrightarrow> ps ! i = Call g \<Longrightarrow> g s = (p, t) \<Longrightarrow> fresh h s t \<Longrightarrow>
    interleave thread fresh remember ((h, s), ps) ((remember h t, t), ps[i := p])"

subsection \<open>Rely and guarantee\<close>

text \<open>
  What a program guarantees from a configuration on: others may have moved it to a later one that
  satisfies the invariant whenever a call begins; the call keeps the invariant and moves to a later
  one; and the result satisfies \<open>Q\<close>, still after others have moved on.
\<close>

primrec guarantees ::
    "('h \<times> 's \<Rightarrow> 'h \<times> 's \<Rightarrow> bool) \<Rightarrow> ('h \<times> 's \<Rightarrow> bool) \<Rightarrow> ('h \<Rightarrow> 's \<Rightarrow> 's \<Rightarrow> bool) \<Rightarrow> ('h \<Rightarrow> 's \<Rightarrow> 'h) \<Rightarrow>
     ('s, 'e, 'a) prog \<Rightarrow> ('e + 'a \<Rightarrow> 'h \<times> 's \<Rightarrow> bool) \<Rightarrow> 'h \<times> 's \<Rightarrow> bool" where
  "guarantees later invar fresh remember (Done r) =
     (\<lambda>Q c. \<forall>d. later c d \<longrightarrow> invar d \<longrightarrow> Q r d)"
| "guarantees later invar fresh remember (Call g) =
     (\<lambda>Q c. \<forall>h s. later c (h, s) \<longrightarrow> invar (h, s) \<longrightarrow> fresh h s (snd (g s)) \<longrightarrow>
        (let d = (remember h (snd (g s)), snd (g s))
         in later (h, s) d \<and> invar d \<and>
            fst ((map_prod (guarantees later invar fresh remember) id \<circ> g) s) Q d))"

lemma guarantees_Call:
  "guarantees later invar fresh remember (Call g) Q c \<longleftrightarrow>
     (\<forall>h s. later c (h, s) \<longrightarrow> invar (h, s) \<longrightarrow> fresh h s (snd (g s)) \<longrightarrow>
        later (h, s) (remember h (snd (g s)), snd (g s)) \<and> invar (remember h (snd (g s)), snd (g s)) \<and>
        guarantees later invar fresh remember (fst (g s)) Q (remember h (snd (g s)), snd (g s)))"
  by (simp add: Let_def)

declare guarantees.simps(2) [simp del]

locale rely =
  fixes later :: "'h \<times> 's \<Rightarrow> 'h \<times> 's \<Rightarrow> bool" and invar :: "'h \<times> 's \<Rightarrow> bool"
    and fresh :: "'h \<Rightarrow> 's \<Rightarrow> 's \<Rightarrow> bool" and remember :: "'h \<Rightarrow> 's \<Rightarrow> 'h"
  assumes later_refl: "later c c"
    and later_trans: "later b c \<Longrightarrow> later c d \<Longrightarrow> later b d"
begin

abbreviation ensures :: "('s, 'e, 'a) prog \<Rightarrow> ('a \<Rightarrow> 'h \<times> 's \<Rightarrow> bool) \<Rightarrow> 'h \<times> 's \<Rightarrow> bool" where
  "ensures p P c \<equiv> guarantees later invar fresh remember p (\<lambda>r d. \<forall>v. r = Inr v \<longrightarrow> P v d) c"

text \<open>What is guaranteed stays guaranteed while others move.\<close>

lemma guarantees_later:
  "guarantees later invar fresh remember p Q c \<Longrightarrow> later c d \<Longrightarrow> guarantees later invar fresh remember p Q d"
proof (cases p)
  case (Call g)
  assume "guarantees later invar fresh remember p Q c" and "later c d"
  then show ?thesis
    unfolding Call guarantees_Call using later_trans [OF \<open>later c d\<close>] by blast
qed (auto intro: later_trans)

lemma guarantees_mono:
  "guarantees later invar fresh remember p Q c \<Longrightarrow>
   (\<And>r d. later c d \<Longrightarrow> invar d \<Longrightarrow> Q r d \<Longrightarrow> Q' r d) \<Longrightarrow> guarantees later invar fresh remember p Q' c"
proof (induction p arbitrary: c rule: prog_induct)
  case (Call g)
  show ?case
    unfolding guarantees_Call
  proof (intro allI impI)
    fix h s
    let ?d = "(remember h (snd (g s)), snd (g s))"
    assume at: "later c (h, s)" "invar (h, s)" "fresh h s (snd (g s))"
    then have d: "later (h, s) ?d" "invar ?d" "guarantees later invar fresh remember (fst (g s)) Q ?d"
      using Call.prems(1) unfolding guarantees_Call by blast+
    have "guarantees later invar fresh remember (fst (g s)) Q' ?d"
      by (rule Call.IH [OF d(3)]) (use Call.prems(2) later_trans [OF at(1)] later_trans [OF d(1)] in blast)
    with d show "later (h, s) ?d \<and> invar ?d \<and> guarantees later invar fresh remember (fst (g s)) Q' ?d"
      by blast
  qed
qed auto

lemma guarantees_when:
  "(\<And>d. later c d \<Longrightarrow> invar d \<Longrightarrow> guarantees later invar fresh remember p Q d) \<Longrightarrow>
   guarantees later invar fresh remember p Q c"
proof (cases p)
  case (Done r)
  assume "\<And>d. later c d \<Longrightarrow> invar d \<Longrightarrow> guarantees later invar fresh remember p Q d"
  then show ?thesis
    unfolding Done guarantees.simps(1) using later_refl by blast
next
  case (Call g)
  assume "\<And>d. later c d \<Longrightarrow> invar d \<Longrightarrow> guarantees later invar fresh remember p Q d"
  then show ?thesis
    unfolding Call guarantees_Call using later_refl by blast
qed

lemma guarantees_pbind:
  "guarantees later invar fresh remember p
     (\<lambda>r d. case r of Inl x \<Rightarrow> Q (Inl x) d | Inr v \<Rightarrow> guarantees later invar fresh remember (f v) Q d) c \<Longrightarrow>
   guarantees later invar fresh remember (pbind p f) Q c"
proof (induction p arbitrary: c rule: prog_induct)
  case (Done r)
  then show ?case
    by (cases r) (auto simp: pbind.simps(1) ptry.simps(1) intro: guarantees_when)
next
  case (Call g)
  then show ?case
    unfolding pbind.simps guarantees_Call by simp
qed

lemma guarantees_ptry:
  "guarantees later invar fresh remember p
     (\<lambda>r d. case r of Inl x \<Rightarrow> guarantees later invar fresh remember (h x) Q d | Inr v \<Rightarrow> Q (Inr v) d) c \<Longrightarrow>
   guarantees later invar fresh remember (ptry p h) Q c"
proof (induction p arbitrary: c rule: prog_induct)
  case (Done r)
  then show ?case
    by (cases r) (auto simp: pbind.simps(1) ptry.simps(1) intro: guarantees_when)
next
  case (Call g)
  then show ?case
    unfolding ptry.simps guarantees_Call by simp
qed

text \<open>The rules for programs whose failures need nothing.\<close>

lemma ensures_yields: "(\<And>d. later c d \<Longrightarrow> invar d \<Longrightarrow> P v d) \<Longrightarrow> ensures (yields v) P c"
  by auto

lemma ensures_Done: "(\<And>v d. r = Inr v \<Longrightarrow> later c d \<Longrightarrow> invar d \<Longrightarrow> P v d) \<Longrightarrow> ensures (Done r) P c"
  by auto

lemma ensures_mono:
  "ensures p P c \<Longrightarrow> (\<And>v d. later c d \<Longrightarrow> invar d \<Longrightarrow> P v d \<Longrightarrow> Q v d) \<Longrightarrow> ensures p Q c"
  by (erule guarantees_mono) simp

lemma ensures_pbind:
  assumes "ensures p P c" and "\<And>v d. later c d \<Longrightarrow> invar d \<Longrightarrow> P v d \<Longrightarrow> ensures (f v) Q d"
  shows "ensures (pbind p f) Q c"
  by (rule guarantees_pbind, rule guarantees_mono [OF assms(1)]) (auto simp: assms(2) split: sum.split)

lemma ensures_ptry:
  assumes "ensures p P c" and "\<And>x d. later c d \<Longrightarrow> invar d \<Longrightarrow> ensures (h x) P d"
  shows "ensures (ptry p h) P c"
  by (rule guarantees_ptry, rule guarantees_mono [OF assms(1)]) (auto simp: assms(2) split: sum.split)

lemma ensures_call:
  assumes "\<And>h s. later c (h, s) \<Longrightarrow> invar (h, s) \<Longrightarrow>
      wp m (\<lambda>v t. fresh h s t \<longrightarrow> later (h, s) (remember h t, t) \<and> invar (remember h t, t) \<and>
             (\<forall>d. later (remember h t, t) d \<longrightarrow> invar d \<longrightarrow> P v d))
           (\<lambda>_ t. fresh h s t \<longrightarrow> later (h, s) (remember h t, t) \<and> invar (remember h t, t)) s"
  shows "ensures (call m) P c"
proof -
  have "later (h, s) (remember h (snd (m s)), snd (m s)) \<and> invar (remember h (snd (m s)), snd (m s)) \<and>
      ensures (Done (fst (m s))) P (remember h (snd (m s)), snd (m s))"
    if "later c (h, s)" and "invar (h, s)" and "fresh h s (snd (m s))" for h s
    using assms [OF that(1,2)] that(3) by (cases "fst (m s)") (simp_all add: wp_result)
  then show ?thesis
    by (simp add: call_def guarantees_Call)
qed

lemma ensures_pfor:
  assumes "\<And>x d. x \<in> set xs \<Longrightarrow> later c d \<Longrightarrow> invar d \<Longrightarrow> ensures (f x) (\<lambda>v _. P v) d"
  shows "ensures (pfor f xs) (\<lambda>vs _. \<forall>v \<in> set vs. P v) c"
  using assms
proof (induction xs arbitrary: c)
  case (Cons x xs)
  have "ensures (f x) (\<lambda>v _. P v) c"
    by (rule guarantees_when) (use Cons.prems in auto)
  then show ?case
    unfolding pfor.simps
  proof (rule ensures_pbind)
    fix v d
    assume d: "later c d" and v: "P v"
    have "ensures (pfor f xs) (\<lambda>vs _. \<forall>v \<in> set vs. P v) d"
      by (rule Cons.IH) (use Cons.prems later_trans [OF d] in auto)
    then show "ensures (pbind (pfor f xs) (\<lambda>vs. yields (v # vs))) (\<lambda>vs _. \<forall>v \<in> set vs. P v) d"
      by (rule ensures_pbind) (use v in simp)
  qed
qed simp

text \<open>Programs that all guarantee something keep the invariant together.\<close>

lemma interleave_step:
  assumes "interleave thread fresh remember (c, ps) (d, qs)"
    and "invar c" and "\<And>p. p \<in> set ps \<Longrightarrow> ensures p (\<lambda>_ _. True) c"
    and "\<And>p c. thread p \<Longrightarrow> invar c \<Longrightarrow> ensures p (\<lambda>_ _. True) c"
  shows "invar d \<and> later c d \<and> (\<forall>q \<in> set qs. ensures q (\<lambda>_ _. True) d)"
  using assms(1)
proof (cases rule: interleave.cases)
  case (arrive p)
  then show ?thesis
    using assms by (auto simp: later_refl)
next
  case (turn i g s p t h)
  have "ensures (Call g) (\<lambda>_ _. True) (h, s)"
    using assms(3) [OF nth_mem [OF turn(4)]] turn(1,5) by simp
  then have d: "later c d" "invar d" "ensures p (\<lambda>_ _. True) d"
    using assms(2) later_refl turn unfolding guarantees_Call by fastforce+
  moreover have "ensures q (\<lambda>_ _. True) d" if "q \<in> set ps" for q
    by (rule guarantees_later [OF assms(3) [OF that] d(1)])
  ultimately show ?thesis
    using turn(3) set_update_subset_insert [of ps i p] by blast
qed

lemma interleave_safe:
  assumes "(interleave thread fresh remember)\<^sup>*\<^sup>* (c, []) (d, ps)" and "invar c"
    and "\<And>p c. thread p \<Longrightarrow> invar c \<Longrightarrow> ensures p (\<lambda>_ _. True) c"
  shows "invar d"
proof -
  have "invar d \<and> (\<forall>p \<in> set ps. ensures p (\<lambda>_ _. True) d)"
    using assms(1)
  proof (induction rule: rtranclp_induct2)
    case (step b qs d ps)
    then show ?case
      using interleave_step [OF step.hyps(2)] assms(3) by blast
  qed (simp add: assms(2))
  then show ?thesis
    by blast
qed

end

end
