(* ===== verification/Collector_Threads.thy ===== *)
theory Collector_Threads
  imports Collector_System Threads
begin

text \<open>
  The requests and jobs of the Collector as programs of calls. FastAPI serves its synchronous routes
  from a pool of threads, and the job scheduler has a thread of its own, so the calls of several
  requests and of a job interleave. A call is one operation of a repository, which ends with at most
  one commit of its session, or one message to Telegram. An operation that reads a row and then
  updates it counts as one step: the update writes only the columns the operation assigns, none of
  which depends on what was read, so another commit in between changes no column it writes. (A column
  assigned the value it was read with is not written; this concerns the reason of an action whose
  result and time-out are recorded at once, of which nothing is proved.) Each program is the operation it is named after, statement by statement; run alone
  it computes the same.
\<close>

subsection \<open>Evaluating the rules\<close>

definition evaluate_rate_of_change_calls ::
    "env \<Rightarrow> string \<Rightarrow> rate_rule \<Rightarrow> metric_sample \<Rightarrow> datetime \<Rightarrow> (world, exn, rule_result option) prog" where
  "evaluate_rate_of_change_calls e node_id rule sample collected_at =
     pbind (call (find_previous_sample e node_id (ms_metric_type sample) collected_at (rt_window_seconds rule)))
       (\<lambda>previous. yields (case previous of
                             None \<Rightarrow> None
                           | Some p \<Rightarrow> Some (rate_result rule (fsub (ms_value sample) (sm_value p)))))"

definition evaluate_sample_calls ::
    "env \<Rightarrow> rule_engine \<Rightarrow> string \<Rightarrow> datetime \<Rightarrow> metric_sample \<Rightarrow> (world, exn, rule_result list) prog" where
  "evaluate_sample_calls e eng node_id collected_at sample =
     (let threshold = (case re_threshold_rules eng (ms_metric_type sample) of
                         None \<Rightarrow> [] | Some rule \<Rightarrow> [evaluate_threshold rule sample])
      in case re_rate_of_change_rules eng (ms_metric_type sample) of
           None \<Rightarrow> yields threshold
         | Some rule \<Rightarrow>
             pbind (evaluate_rate_of_change_calls e node_id rule sample collected_at)
               (\<lambda>r. yields (threshold @ (case r of None \<Rightarrow> [] | Some x \<Rightarrow> [x]))))"

definition evaluate_calls ::
    "env \<Rightarrow> rule_engine \<Rightarrow> string \<Rightarrow> metric_sample list \<Rightarrow> datetime \<Rightarrow> (world, exn, rule_result list) prog" where
  "evaluate_calls e eng node_id ss collected_at =
     pbind (pfor (evaluate_sample_calls e eng node_id collected_at) ss) (\<lambda>rss. yields (concat rss))"

subsection \<open>Remediation\<close>

definition check_cooldown_calls ::
    "env \<Rightarrow> remediation_engine \<Rightarrow> string \<Rightarrow> playbook \<Rightarrow> datetime \<Rightarrow> (world, exn, string option) prog" where
  "check_cooldown_calls e eng node_id pb now =
     pbind (call (find_last_action e node_id (pb_playbook_name pb))) (\<lambda>last.
     case last of
       None \<Rightarrow> yields None
     | Some l \<Rightarrow>
         pbind (Done (dt_sub now (ac_created_at l))) (\<lambda>td.
         let elapsed = total_seconds td
         in yields (if flt elapsed (en_cooldown_seconds eng)
                    then Some (''cooldown active: '' @ fmt_0f elapsed @ ''s of '' @
                               fmt_0f (en_cooldown_seconds eng) @ ''s since last action'')
                    else None)))"

definition check_rate_limit_calls ::
    "env \<Rightarrow> remediation_engine \<Rightarrow> string \<Rightarrow> datetime \<Rightarrow> (world, exn, string option) prog" where
  "check_rate_limit_calls e eng node_id now =
     pbind (Done (dt_minus now one_hour)) (\<lambda>since.
     pbind (call (count_recent_actions e node_id since)) (\<lambda>recent_count.
     yields (if en_max_actions_per_node_per_hour eng \<le> recent_count
             then Some (''rate limit reached: '' @ show_int recent_count @
                        '' actions in the last hour (max '' @
                        show_int (en_max_actions_per_node_per_hour eng) @ '')'')
             else None)))"

definition check_safety_limits_calls ::
    "env \<Rightarrow> remediation_engine \<Rightarrow> string \<Rightarrow> playbook \<Rightarrow> datetime \<Rightarrow> (world, exn, string option) prog" where
  "check_safety_limits_calls e eng node_id pb now =
     pbind (check_cooldown_calls e eng node_id pb now) (\<lambda>blocked.
     case blocked of
       Some reason \<Rightarrow> yields (Some reason)
     | None \<Rightarrow> check_rate_limit_calls e eng node_id now)"

definition decide_calls ::
    "env \<Rightarrow> remediation_engine \<Rightarrow> string \<Rightarrow> int \<Rightarrow> string \<Rightarrow> datetime \<Rightarrow> (world, exn, action_row option) prog" where
  "decide_calls e eng node_id alert_id rule_key now =
     (if \<not> en_enabled eng then yields None
      else case en_by_rule_key eng rule_key of
             None \<Rightarrow> yields None
           | Some pb \<Rightarrow>
               pbind (check_safety_limits_calls e eng node_id pb now) (\<lambda>blocked_reason.
               let status = (if blocked_reason \<noteq> None then BLOCKED_BY_SAFETY_LIMIT else DISPATCHED)
               in pbind (call (create_action e node_id alert_id rule_key (pb_playbook_name pb)
                         (pb_action_type pb) (pb_parameters pb) status blocked_reason now))
                    (\<lambda>record. yields (Some record))))"

subsection \<open>The alerting service\<close>

definition acknowledge_calls :: "env \<Rightarrow> int \<Rightarrow> string \<Rightarrow> datetime \<Rightarrow> (world, exn, alert_row) prog" where
  "acknowledge_calls e alert_id acknowledged_by now =
     pbind (call (get_alert e alert_id)) (\<lambda>current.
     if al_status current = RESOLVED
     then Done (Inl (AlertAlreadyResolvedError (''alert '' @ show_int alert_id @ '' is already resolved'')))
     else pbind (call (acknowledge_alert e alert_id acknowledged_by now)) (\<lambda>updated. yields (to_view updated)))"

definition maybe_escalate_calls ::
    "env \<Rightarrow> alert_service \<Rightarrow> datetime \<Rightarrow> alert_row \<Rightarrow> (world, exn, alert_row) prog" where
  "maybe_escalate_calls e sv fired_at record =
     pbind (Done (should_escalate sv record fired_at)) (\<lambda>b.
     if \<not> b then yields record
     else pbind (call (escalate_alert e (al_id record) fired_at)) (\<lambda>escalated.
          pbind (call (notify e (sv_notifier sv) (format_escalated escalated))) (\<lambda>_.
          yields escalated)))"

definition maybe_remediate_calls ::
    "env \<Rightarrow> alert_service \<Rightarrow> string \<Rightarrow> rule_result \<Rightarrow> datetime \<Rightarrow> alert_row \<Rightarrow>
     (world, exn, alert_row \<times> action_row option) prog" where
  "maybe_remediate_calls e sv node_id result fired_at record =
     pbind (Done (should_remediate sv record fired_at)) (\<lambda>b.
     case (if b then sv_remediation_engine sv else None) of
       None \<Rightarrow> yields (record, None)
     | Some eng \<Rightarrow>
         pbind (decide_calls e eng node_id (al_id record) (rr_rule_key result) fired_at) (\<lambda>decision.
         case decision of
           None \<Rightarrow> yields (record, None)
         | Some dec \<Rightarrow>
             pbind (call (mark_remediated e (al_id record) fired_at)) (\<lambda>updated.
             yields (updated, if ac_status dec = DISPATCHED then Some dec else None))))"

definition open_alert_calls ::
    "env \<Rightarrow> alert_service \<Rightarrow> string \<Rightarrow> rule_result \<Rightarrow> datetime \<Rightarrow> (world, exn, alert_row) prog" where
  "open_alert_calls e sv node_id result fired_at =
     pbind (call (create_alert e node_id (rr_rule_key result) (rr_rule_kind result) (rr_severity result)
            (rr_description result) (rr_value result) (rr_bound result) fired_at)) (\<lambda>record.
     pbind (call (notify e (sv_notifier sv) (format_opened e record))) (\<lambda>_.
     yields record))"

definition open_or_advance_calls ::
    "env \<Rightarrow> alert_service \<Rightarrow> string \<Rightarrow> rule_result \<Rightarrow> datetime \<Rightarrow> alert_row option \<Rightarrow>
     (world, exn, alert_row \<times> action_row option) prog" where
  "open_or_advance_calls e sv node_id result fired_at found =
     (case found of
        None \<Rightarrow> pbind (open_alert_calls e sv node_id result fired_at) (\<lambda>record. yields (record, None))
      | Some a \<Rightarrow>
          pbind (call (update_last_fired e (al_id a) (rr_value result) fired_at)) (\<lambda>advanced.
          pbind (maybe_escalate_calls e sv fired_at advanced) (\<lambda>escalated.
          maybe_remediate_calls e sv node_id result fired_at escalated)))"

definition resolve_calls ::
    "env \<Rightarrow> alert_service \<Rightarrow> datetime \<Rightarrow> alert_row \<Rightarrow> (world, exn, alert_row) prog" where
  "resolve_calls e sv resolved_at a =
     pbind (call (resolve_alert e (al_id a) resolved_at)) (\<lambda>record.
     pbind (call (notify e (sv_notifier sv) (format_resolved record))) (\<lambda>_.
     yields record))"

definition apply_result_calls ::
    "env \<Rightarrow> alert_service \<Rightarrow> string \<Rightarrow> datetime \<Rightarrow> rule_result \<Rightarrow>
     (world, exn, alert_row option \<times> action_row option) prog" where
  "apply_result_calls e sv node_id fired_at result =
     pbind (call (find_open_alert e node_id (rr_rule_key result))) (\<lambda>found.
     if rr_breached result
     then pbind (open_or_advance_calls e sv node_id result fired_at found) (\<lambda>(record, dispatched).
          yields (Some (to_view record), dispatched))
     else case found of
            None \<Rightarrow> yields (None, None)
          | Some a \<Rightarrow> pbind (resolve_calls e sv fired_at a) (\<lambda>resolved. yields (Some (to_view resolved), None)))"

definition evaluate_and_apply_calls ::
    "env \<Rightarrow> alert_service \<Rightarrow> string \<Rightarrow> metric_sample list \<Rightarrow> datetime \<Rightarrow> (world, exn, evaluation_outcome) prog" where
  "evaluate_and_apply_calls e sv node_id ss collected_at =
     pbind (evaluate_calls e (sv_rule_engine sv) node_id ss collected_at) (\<lambda>results.
     pbind (pfor (apply_result_calls e sv node_id collected_at) results) (\<lambda>outs.
     yields \<lparr>eo_transitions = List.map_filter fst outs,
             eo_dispatched_actions = List.map_filter snd outs\<rparr>))"

lemma run_evaluate_calls [run_simps]: "run (evaluate_calls e eng i ss t) = evaluate e eng i ss t"
proof -
  have "run (evaluate_sample_calls e eng i t s) = evaluate_sample e eng i t s" for s
    by (auto simp: evaluate_sample_calls_def evaluate_sample_def evaluate_rate_of_change_calls_def
        evaluate_rate_of_change_def run_simps split: option.splits)
  then show ?thesis
    by (simp add: evaluate_calls_def evaluate_def run_simps)
qed

lemma run_decide_calls [run_simps]:
  "run (decide_calls e eng i a k t) = decide (sql_action_repository e) eng i a k t"
proof -
  have "run (check_safety_limits_calls e eng i pb t) =
      check_safety_limits (sql_action_repository e) eng i pb t" for pb
    by (simp add: check_safety_limits_calls_def check_safety_limits_def check_cooldown_calls_def check_cooldown_def
        check_rate_limit_calls_def check_rate_limit_def sql_action_repository_def run_simps Let_def cong: run_congs)
  then show ?thesis
    by (simp add: decide_calls_def decide_def run_simps Let_def sql_action_repository_def cong: run_congs)
qed

lemmas apply_calls_defs = maybe_escalate_calls_def maybe_remediate_calls_def open_alert_calls_def
  open_or_advance_calls_def resolve_calls_def apply_result_calls_def

lemma run_apply_result_calls [run_simps]: "run (apply_result_calls e sv i t r) = apply_result e sv i t r"
  by (simp add: apply_calls_defs maybe_escalate_def maybe_remediate_def open_alert_def open_or_advance_def
      resolve_def apply_result_def run_simps cong: run_congs)

lemma run_alerting_calls [run_simps]:
  "run (evaluate_and_apply_calls e sv i ss t) = evaluate_and_apply e sv i ss t"
  "run (acknowledge_calls e a b t) = acknowledge e a b t"
  by (simp_all add: evaluate_and_apply_calls_def evaluate_and_apply_def acknowledge_calls_def acknowledge_def run_simps cong: run_congs)

subsection \<open>Requests\<close>

definition evaluate_rules_best_effort_calls ::
    "env \<Rightarrow> alert_service option \<Rightarrow> payload \<Rightarrow> (world, exn, pending_action list) prog" where
  "evaluate_rules_best_effort_calls e alert_evaluation p =
     (case alert_evaluation of
        None \<Rightarrow> yields []
      | Some sv \<Rightarrow>
          ptry
            (pbind (evaluate_and_apply_calls e sv (pl_node_id p) (pl_samples p) (pl_collected_at p)) (\<lambda>outcome.
             yields (map (\<lambda>a. \<lparr>pa_action_id = ac_id a, pa_action_type = ac_action_type a,
                               pa_parameters = ac_parameters a\<rparr>) (eo_dispatched_actions outcome))))
            (\<lambda>exc. yields []))"

definition ingest_calls ::
    "env \<Rightarrow> pyfloat \<Rightarrow> alert_service option \<Rightarrow> payload \<Rightarrow> int \<Rightarrow> int \<Rightarrow> (world, exn, ack) prog" where
  "ingest_calls e stale_after_seconds alert_evaluation p received_at now =
     pbind (call (record_seen e stale_after_seconds (pl_node_id p) (pl_collected_at p) now)) (\<lambda>_.
     pbind (call (bulk_insert e (pl_node_id p) (pl_samples p) (pl_collected_at p) (utc received_at))) (\<lambda>_.
     pbind (evaluate_rules_best_effort_calls e alert_evaluation p) (\<lambda>pending_actions.
     yields \<lparr>ack_accepted = True, ack_received_at = utc received_at, ack_message = None,
             ack_pending_actions = pending_actions\<rparr>)))"

definition report_result_calls ::
    "env \<Rightarrow> int \<Rightarrow> action_result \<Rightarrow> datetime \<Rightarrow> (world, exn, action_row) prog" where
  "report_result_calls e action_id result now =
     pbind (call (get_action e action_id)) (\<lambda>current.
     if ac_status current \<noteq> DISPATCHED
     then Done (Inl (RemediationActionNotDispatchedError
            (''remediation action '' @ show_int action_id @ '' is not awaiting a result (status='' @
             py_repr (action_status_value (ac_status current)) @ '')'')))
     else call (mark_result e action_id (result_status_to_action_status (ar_status result)) (ar_message result) now))"

text \<open>The routes that make a single call are that call.\<close>

fun route_calls :: "env \<Rightarrow> collector_app \<Rightarrow> (nat \<Rightarrow> int) \<Rightarrow> request \<Rightarrow> (world, exn, body) prog" where
  "route_calls e app clock (PostMetrics p) =
     pbind (ingest_calls e (cs_heartbeat_stale_after_seconds (ap_settings app))
            (Some (get_alert_evaluation_service app)) p (clock 0) (clock 1)) (\<lambda>a. yields (AckBody a))"
| "route_calls e app clock (AcknowledgeAlert i b) =
     pbind (acknowledge_calls e i b (utc (clock 0))) (\<lambda>v. yields (AlertBody (alert_read v)))"
| "route_calls e app clock (ReportActionResult i result) =
     pbind (report_result_calls e i result (utc (clock 0))) (\<lambda>r. yields (ActionBody (action_read r)))"
| "route_calls e app clock req = call (route e app clock req)"

definition handle_calls ::
    "env \<Rightarrow> collector_app \<Rightarrow> (nat \<Rightarrow> int) \<Rightarrow> string option \<Rightarrow> request \<Rightarrow> (world, exn, nat \<times> body) prog" where
  "handle_calls e app clock credentials req =
     (case (if guarded req then verify_api_token (token_set (ap_settings app)) credentials else Inr ()) of
        Inl x \<Rightarrow> yields (error_response x)
      | Inr _ \<Rightarrow>
          ptry (pbind (route_calls e app clock req) (\<lambda>b. yields (200, b))) (\<lambda>x. yields (error_response x)))"

lemma run_route_calls: "run (route_calls e app clock req) = route e app clock req"
proof -
  have "run (evaluate_rules_best_effort_calls e sv p) = evaluate_rules_best_effort e sv p" for sv p
    by (simp add: evaluate_rules_best_effort_calls_def evaluate_rules_best_effort_def run_simps cong: run_congs)
  then have "run (ingest_calls e stale sv p t now) = ingest e stale sv p t now" for stale sv p t now
    by (simp add: ingest_calls_def ingest_def run_simps cong: run_congs)
  moreover have "run (report_result_calls e i result t) = report_result e i result t" for i result t
    by (simp add: report_result_calls_def report_result_def run_simps cong: run_congs)
  ultimately show ?thesis
    by (cases "(e, app, clock, req)" rule: route_calls.cases) (simp_all add: run_simps route_defs cong: run_congs)
qed

text \<open>Alone, the thread of a request answers as \<open>handle\<close> does.\<close>

lemma run_handle_calls:
  "run (handle_calls e app clock credentials req) w = map_prod Inr id (handle e app clock credentials req w)"
  by (auto simp: handle_calls_def handle_def run_route_calls run_simps run_defs
      split: sum.splits prod.splits)

subsection \<open>Jobs\<close>

definition staleness_react_calls ::
    "env \<Rightarrow> telegram_notifier option \<Rightarrow> pyfloat \<Rightarrow> bool \<Rightarrow> datetime \<Rightarrow> string \<Rightarrow> pyfloat \<Rightarrow>
     alert_row option \<Rightarrow> (world, exn, staleness_stats) prog" where
  "staleness_react_calls e notifier stale_after_seconds first_run_done now node_id silent_seconds found =
     (if fle stale_after_seconds silent_seconds
      then if found = None \<and> first_run_done
           then pbind (Done (py_int silent_seconds)) (\<lambda>secs.
                pbind (pbind (call (create_alert e node_id STALENESS_RULE_KEY STALENESS CRITICAL
                       (''Node has stopped reporting (no metrics or heartbeat for '' @ show_int secs @ ''s)'')
                       silent_seconds stale_after_seconds now)) (\<lambda>record.
                     pbind (call (notify e notifier (format_opened e record))) (\<lambda>_. yields record)))
                  (\<lambda>_. yields \<lparr>ss_stale = 1, ss_opened = 1, ss_resolved = 0\<rparr>))
           else yields \<lparr>ss_stale = 1, ss_opened = 0, ss_resolved = 0\<rparr>
      else case found of
             None \<Rightarrow> yields \<lparr>ss_stale = 0, ss_opened = 0, ss_resolved = 0\<rparr>
           | Some a \<Rightarrow>
               pbind (pbind (call (resolve_alert e (al_id a) now)) (\<lambda>record.
                    pbind (call (notify e notifier (format_resolved record))) (\<lambda>_. yields record)))
                 (\<lambda>_. yields \<lparr>ss_stale = 0, ss_opened = 0, ss_resolved = 1\<rparr>))"

definition staleness_node_calls ::
    "env \<Rightarrow> telegram_notifier option \<Rightarrow> pyfloat \<Rightarrow> bool \<Rightarrow> datetime \<Rightarrow> node_row \<Rightarrow>
     (world, exn, staleness_stats) prog" where
  "staleness_node_calls e notifier stale_after_seconds first_run_done now node =
     pbind (Done (dt_sub now (nd_last_seen_at node))) (\<lambda>td.
     pbind (call (find_open_alert e (nd_node_id node) STALENESS_RULE_KEY)) (\<lambda>found.
     staleness_react_calls e notifier stale_after_seconds first_run_done now (nd_node_id node)
       (total_seconds td) found))"

definition staleness_sweep_calls ::
    "env \<Rightarrow> telegram_notifier option \<Rightarrow> pyfloat \<Rightarrow> bool \<Rightarrow> datetime \<Rightarrow> (world, exn, staleness_stats) prog" where
  "staleness_sweep_calls e notifier stale_after_seconds first_run_done now =
     pbind (call (node_list_all e)) (\<lambda>ns.
     pbind (pfor (staleness_node_calls e notifier stale_after_seconds first_run_done now) ns) (\<lambda>counts.
     yields \<lparr>ss_stale = sum_list (map ss_stale counts), ss_opened = sum_list (map ss_opened counts),
             ss_resolved = sum_list (map ss_resolved counts)\<rparr>))"

definition reconciliation_calls :: "env \<Rightarrow> pyfloat \<Rightarrow> datetime \<Rightarrow> (world, exn, int) prog" where
  "reconciliation_calls e timeout_seconds now =
     pbind (Done (timedelta_seconds timeout_seconds)) (\<lambda>td.
     pbind (Done (dt_minus now td)) (\<lambda>cutoff.
     pbind (call (list_dispatched_before e cutoff)) (\<lambda>found.
     pbind (pfor (\<lambda>a. call (mark_result e (ac_id a) FAILED (Some TIMED_OUT_REASON) now)) found) (\<lambda>marked.
     yields (int (length marked))))))"

lemma run_job_calls:
  "run (staleness_sweep_calls e tg stale fd now) = staleness_sweep e tg stale fd now"
  "run (reconciliation_calls e timeout now) = reconciliation_run e timeout now"
proof -
  have "run (staleness_react_calls e tg stale fd now i x found) = staleness_react e tg stale fd now i x found"
    for i x found
    by (auto simp: staleness_react_calls_def staleness_react_def run_simps cong: run_congs)
  then have "run (staleness_node_calls e tg stale fd now n) = staleness_node e tg stale fd now n" for n
    by (simp add: staleness_node_calls_def staleness_node_def run_simps cong: run_congs)
  then show "run (staleness_sweep_calls e tg stale fd now) = staleness_sweep e tg stale fd now"
    by (simp add: staleness_sweep_calls_def staleness_sweep_def run_simps cong: run_congs)
  show "run (reconciliation_calls e timeout now) = reconciliation_run e timeout now"
    by (simp add: reconciliation_calls_def reconciliation_run_def run_simps cong: run_congs)
qed

text \<open>
  Draining a table ends after some number of batches that is not known beforehand: a run that has
  made at most \<open>n\<close> of them.
\<close>

primrec drain_calls :: "nat \<Rightarrow> (world, exn, int) comp \<Rightarrow> int \<Rightarrow> (world, exn, int) prog" where
  "drain_calls 0 prune deleted_so_far = yields deleted_so_far"
| "drain_calls (Suc n) prune deleted_so_far =
     pbind (call prune) (\<lambda>deleted.
     if 0 < deleted then drain_calls n prune (deleted_so_far + deleted) else yields deleted_so_far)"

definition drain_before_calls ::
    "nat \<Rightarrow> (datetime \<Rightarrow> int \<Rightarrow> (world, exn, int) comp) \<Rightarrow> datetime \<Rightarrow> int \<Rightarrow> int \<Rightarrow> (world, exn, int) prog" where
  "drain_before_calls n prune now days batch_size =
     pbind (Done (days_before now days)) (\<lambda>cutoff. drain_calls n (prune cutoff batch_size) 0)"

definition retention_calls :: "nat \<Rightarrow> env \<Rightarrow> retention_settings \<Rightarrow> datetime \<Rightarrow> (world, exn, retention_stats) prog" where
  "retention_calls n e st now =
     pbind (drain_before_calls n (prune_terminal_before e) now (rs_remediation_actions_days st) (rs_batch_size st)) (\<lambda>a.
     pbind (drain_before_calls n (prune_resolved_before e) now (rs_resolved_alerts_days st) (rs_batch_size st)) (\<lambda>b.
     pbind (drain_before_calls n (prune_samples_before e) now (rs_metrics_days st) (rs_batch_size st)) (\<lambda>c.
     yields \<lparr>rn_actions_deleted = a, rn_alerts_deleted = b, rn_samples_deleted = c\<rparr>)))"

text \<open>When draining returns, some number of batches is enough, and more make no difference.\<close>

lemma run_drain_calls_Suc:
  "run (drain_calls (Suc n) prune k) w =
     (case prune w of
        (Inl x, w') \<Rightarrow> (Inl x, w')
      | (Inr deleted, w') \<Rightarrow>
          if 0 < deleted then run (drain_calls n prune (k + deleted)) w' else (Inr k, w'))"
  by (simp add: run_simps run_defs cong: run_congs split: prod.split sum.split)

lemma drain_calls_enough:
  assumes "drain prune k w = Some r"
  shows "\<exists>n. \<forall>m \<ge> n. run (drain_calls m prune k) w = r"
proof (rule drain.raw_induct [OF _ assms])
  fix rec :: "(world, exn, int) comp \<Rightarrow> int \<Rightarrow> (world, exn, int) pcomp" and prune k w r
  assume IH: "\<And>prune k w r. rec prune k w = Some r \<Longrightarrow> \<exists>n. \<forall>m \<ge> n. run (drain_calls m prune k) w = r"
    and body: "(case prune w of
        (Inl x, w') \<Rightarrow> Some (Inl x, w')
      | (Inr deleted, w') \<Rightarrow> if 0 < deleted then rec prune (k + deleted) w' else Some (Inr k, w')) = Some r"
  show "\<exists>n. \<forall>m \<ge> n. run (drain_calls m prune k) w = r"
  proof (cases "\<exists>deleted w'. prune w = (Inr deleted, w') \<and> 0 < deleted")
    case True
    then obtain deleted w' where p: "prune w = (Inr deleted, w')" "0 < deleted"
      by blast
    then obtain n where n: "\<forall>m \<ge> n. run (drain_calls m prune (k + deleted)) w' = r"
      using IH [of prune "k + deleted" w' r] body by auto
    have "run (drain_calls (Suc m) prune k) w = r" if "n \<le> m" for m
      using p n that by (simp add: run_drain_calls_Suc del: drain_calls.simps)
    then have "\<forall>m \<ge> Suc n. run (drain_calls m prune k) w = r"
      by (metis Suc_le_D Suc_le_mono)
    then show ?thesis by blast
  next
    case False
    then have "run (drain_calls (Suc m) prune k) w = r" for m
      using body by (auto simp: run_drain_calls_Suc simp del: drain_calls.simps split: prod.splits sum.splits if_splits)
    then have "\<forall>m \<ge> Suc 0. run (drain_calls m prune k) w = r"
      by (metis Suc_le_D)
    then show ?thesis by blast
  qed
qed

lemma drain_before_calls_enough:
  assumes "drain_before prune now days b w = Some r"
  shows "\<exists>n. \<forall>m \<ge> n. run (drain_before_calls m prune now days b) w = r"
proof (cases "days_before now days")
  case (Inl x)
  then show ?thesis
    using assms by (simp add: drain_before_def drain_before_calls_def pseq_def total_def run_simps run_defs)
next
  case (Inr cutoff)
  then show ?thesis
    using assms drain_calls_enough [of "prune cutoff b" 0 w r]
    by (simp add: drain_before_def drain_before_calls_def pseq_def total_def run_simps run_defs)
qed

lemma pseq_enough:
  fixes q :: "nat \<Rightarrow> ('s, 'e, 'a) prog"
  assumes "pseq p f w = Some r" and "\<And>w r. p w = Some r \<Longrightarrow> \<exists>n. \<forall>m \<ge> n. run (q m) w = r"
    and "\<And>v w r. f v w = Some r \<Longrightarrow> \<exists>n. \<forall>m \<ge> n. run (g m v) w = r"
  shows "\<exists>n. \<forall>m \<ge> n. run (pbind (q m) (g m)) w = r"
proof -
  obtain y t where p: "p w = Some (y, t)"
    using assms(1) by (auto simp: pseq_def split: option.splits)
  then obtain n where n: "\<And>m. m \<ge> n \<Longrightarrow> run (q m) w = (y, t)"
    using assms(2) [OF p] by auto
  show ?thesis
  proof (cases y)
    case (Inl x)
    then show ?thesis
      using p n assms(1) by (intro exI [of _ n]) (simp add: pseq_def run_simps seq_def)
  next
    case (Inr v)
    then obtain k where "\<forall>m \<ge> k. run (g m v) t = r"
      using p assms(1) assms(3) [of v t r] by (auto simp: pseq_def)
    then show ?thesis
      using n Inr by (intro exI [of _ "n + k"] allI impI) (simp add: run_simps seq_def)
  qed
qed

lemma retention_calls_enough:
  "retention_run e st now w = Some r \<Longrightarrow> \<exists>n. run (retention_calls n e st now) w = r"
proof -
  assume r: "retention_run e st now w = Some r"
  have "\<exists>n. \<forall>m \<ge> n. run (retention_calls m e st now) w = r"
    unfolding retention_calls_def
    by (rule pseq_enough [OF r [unfolded retention_run_def]], erule drain_before_calls_enough,
        erule pseq_enough, erule drain_before_calls_enough, erule pseq_enough, erule drain_before_calls_enough)
      (simp add: total_def run_simps)
  then show ?thesis by blast
qed

end
