(* ===== verification/Interleaving.thy ===== *)
theory Interleaving
  imports Collector_Threads
begin

text \<open>
  The Collector with its threads. Requests and jobs interleave call by call, in any order, under any
  faults of the database. Neither a lock nor a constraint of the tables serialises them, so what
  rests on a row found by one call still being there at the next is lost (\<open>Thread_Properties\<close>); what is
  proved here is what remains: every row stays well formed, and an alert is still only remediated
  after its escalation, because each call keeps this by itself, given what no other call takes back.
\<close>

subsection \<open>What no call takes back\<close>

definition alert_later :: "alert_row \<Rightarrow> alert_row \<Rightarrow> bool" where
  "alert_later a b \<longleftrightarrow> al_id b = al_id a \<and> al_node_id b = al_node_id a \<and> al_rule_key b = al_rule_key a \<and>
     us (al_first_fired_at b) = us (al_first_fired_at a) \<and> (al_escalated_at a \<noteq> None \<longrightarrow> al_escalated_at b \<noteq> None)"

lemma alert_later_refl [simp]: "alert_later a a"
  by (simp add: alert_later_def)

lemma alert_later_self [intro]: "a \<in> S \<Longrightarrow> \<exists>b \<in> S. alert_later b a"
  by (intro bexI [of _ a]) simp_all

lemma alert_later_trans: "alert_later a b \<Longrightarrow> alert_later b c \<Longrightarrow> alert_later a c"
  by (simp add: alert_later_def)

lemma alert_later_record [simp]:
  "alert_later (alert_to_record a) b = alert_later a b" "alert_later a (alert_to_record b) = alert_later a b"
  by (simp_all add: alert_later_def)

text \<open>
  The past that matters is which alert ids have been given out: a sequence of PostgreSQL gives no
  number twice, also after the row is deleted.
\<close>

abbreviation alert_ids :: "world \<Rightarrow> int set" where
  "alert_ids w \<equiv> al_id ` set (alerts (tables w))"

definition new_ids_fresh :: "int set \<Rightarrow> world \<Rightarrow> world \<Rightarrow> bool" where
  "new_ids_fresh h w w' \<longleftrightarrow> (\<forall>i \<in> alert_ids w'. i \<in> alert_ids w \<or> i \<notin> h)"

definition remember_ids :: "int set \<Rightarrow> world \<Rightarrow> int set" where
  "remember_ids h w = h \<union> alert_ids w"

definition later :: "int set \<times> world \<Rightarrow> int set \<times> world \<Rightarrow> bool" where
  "later c d \<longleftrightarrow> fst c \<subseteq> fst d \<and>
     (\<forall>b \<in> set (alerts (tables (snd d))). al_id b \<in> fst c \<longrightarrow>
        (\<exists>a \<in> set (alerts (tables (snd c))). alert_later a b))"

text \<open>The invariant: that of the lifecycle without what needs whole requests.\<close>

definition tables_ok :: "alert_service \<Rightarrow> db \<Rightarrow> bool" where
  "tables_ok sv d \<longleftrightarrow> keys_ok d \<and> refs_ok d \<and> (\<forall>r \<in> set (alerts d). alert_ok sv r) \<and>
     (\<forall>x \<in> set (actions d). action_ok sv x)"

definition pool_ok :: "alert_service \<Rightarrow> int set \<times> world \<Rightarrow> bool" where
  "pool_ok sv c \<longleftrightarrow> tables_ok sv (tables (snd c)) \<and> alert_ids (snd c) \<subseteq> fst c"

interpretation pool: rely later "pool_ok sv" new_ids_fresh remember_ids for sv
proof unfold_locales
  show "later c c" for c
    by (simp add: later_def alert_later_self)
  show "later b d" if bc: "later b c" and cd: "later c d" for b c d
    unfolding later_def
  proof (intro conjI ballI impI)
    show "fst b \<subseteq> fst d"
      using bc cd by (auto simp: later_def)
    fix y
    assume y: "y \<in> set (alerts (tables (snd d)))" "al_id y \<in> fst b"
    then obtain x where x: "x \<in> set (alerts (tables (snd c)))" "alert_later x y"
      using bc cd unfolding later_def by blast
    then have "al_id x \<in> fst b"
      using y(2) by (simp add: alert_later_def)
    then obtain a where "a \<in> set (alerts (tables (snd b)))" "alert_later a x"
      using bc x(1) unfolding later_def by blast
    then show "\<exists>a \<in> set (alerts (tables (snd b))). alert_later a y"
      using alert_later_trans x(2) by blast
  qed
qed

abbreviation ensures ::
    "alert_service \<Rightarrow> (world, exn, 'a) prog \<Rightarrow> ('a \<Rightarrow> int set \<times> world \<Rightarrow> bool) \<Rightarrow> int set \<times> world \<Rightarrow> bool" where
  "ensures sv p P c \<equiv>
     guarantees later (pool_ok sv) new_ids_fresh remember_ids p (\<lambda>r d. \<forall>v. r = Inr v \<longrightarrow> P v d) c"

subsection \<open>What a call does to the tables\<close>

lemma tables_ok_step: "lstep sv ev d d' \<Longrightarrow> tables_ok sv d \<Longrightarrow> tables_ok sv d'"
  using keys_ok_step refs_ok_step alert_ok_step action_ok_step unfolding tables_ok_def by meson

lemma tables_ok_refs: "tables_ok sv d \<Longrightarrow> x \<in> set (actions d) \<Longrightarrow> \<exists>a \<in> set (alerts d). refers x a"
  by (simp add: tables_ok_def refs_ok_def)

lemma tables_ok_opened:
  assumes "tables_ok sv d" and "al_id row \<notin> al_id ` set (alerts d)" and "al_node_id row \<in> nd_node_id ` set (nodes d)"
    and "alert_ok sv row"
  shows "tables_ok sv (d\<lparr>alerts := alerts d @ [row]\<rparr>)"
  using assms by (auto simp: tables_ok_def keys_ok_def refs_ok_def)

lemma tables_ok_changed:
  assumes "tables_ok sv d" and "r \<in> set (alerts d)" and "alert_later r r'" and "alert_ok sv r'"
  shows "tables_ok sv (d\<lparr>alerts := put_row al_id r' (alerts d)\<rparr>)"
proof -
  have put: "put_row al_id r' (alerts d) = map (\<lambda>x. if x = r then r' else x) (alerts d)"
    using assms(1-3) by (intro put_row_unique) (simp_all add: tables_ok_def keys_ok_def alert_later_def)
  have "\<exists>a \<in> set (put_row al_id r' (alerts d)). refers x a" if x: "x \<in> set (actions d)" for x
  proof -
    obtain a where "a \<in> set (alerts d)" "refers x a"
      using tables_ok_refs [OF assms(1) x] by blast
    moreover have "(if a = r then r' else a) \<in> set (put_row al_id r' (alerts d))"
      unfolding put using calculation(1) by simp
    moreover have "refers x (if a = r then r' else a)"
      using calculation(2) assms(3) by (simp add: refers_def alert_later_def)
    ultimately show ?thesis
      by blast
  qed
  moreover have "al_node_id ` set (put_row al_id r' (alerts d)) \<subseteq> nd_node_id ` set (nodes d)"
    using assms(1-3) by (intro image_put_row) (auto simp: tables_ok_def refs_ok_def alert_later_def)
  ultimately show ?thesis
    using assms(1,4) by (auto simp: tables_ok_def keys_ok_def refs_ok_def dest!: mem_put_row)
qed

lemma tables_ok_decided:
  assumes "tables_ok sv d" and "a \<in> set (alerts d)" and "refers row a" and "ac_id row \<notin> ac_id ` set (actions d)"
    and "action_ok sv row"
  shows "tables_ok sv (d\<lparr>actions := actions d @ [row]\<rparr>)"
proof -
  have "ac_node_id row \<in> nd_node_id ` set (nodes d)"
    using assms(1-3) by (auto simp: tables_ok_def refs_ok_def refers_def)
  then show ?thesis
    using assms by (auto simp: tables_ok_def keys_ok_def refs_ok_def)
qed

lemma tables_ok_finished:
  assumes "tables_ok sv d" and "x \<in> set (actions d)" and "st \<in> {EXECUTED, FAILED}"
  shows "tables_ok sv (d\<lparr>actions := put_row ac_id (finished st reason t x) (actions d)\<rparr>)"
proof -
  let ?x = "finished st reason t x"
  have "action_ok sv ?x"
    using assms by (auto simp: tables_ok_def action_ok_def finished_def from_playbook_def)
  moreover have "ac_node_id ` set (put_row ac_id ?x (actions d)) \<subseteq> nd_node_id ` set (nodes d)"
    using assms(1,2) by (intro image_put_row) (auto simp: tables_ok_def refs_ok_def finished_def)
  moreover have "\<exists>a \<in> set (alerts d). refers ?x a"
    using assms(1,2) by (simp add: tables_ok_def refs_ok_def refers_def finished_def)
  ultimately show ?thesis
    using assms(1) by (auto simp: tables_ok_def keys_ok_def refs_ok_def dest!: mem_put_row)
qed

text \<open>
  The effect of a call: the tables stay well formed, and every alert is a later state of one that
  was there or a new one.
\<close>

definition good_call :: "alert_service \<Rightarrow> world \<Rightarrow> world \<Rightarrow> bool" where
  "good_call sv w w' \<longleftrightarrow> tables_ok sv (tables w') \<and>
     (\<forall>b \<in> set (alerts (tables w')). (\<exists>a \<in> set (alerts (tables w)). alert_later a b) \<or> al_id b \<notin> alert_ids w)"

lemma good_call_moves:
  assumes "pool_ok sv (h, w)" and "good_call sv w w'" and "new_ids_fresh h w w'"
  shows "later (h, w) (remember_ids h w', w') \<and> pool_ok sv (remember_ids h w', w')"
proof -
  have "\<exists>a \<in> set (alerts (tables w)). alert_later a b" if "b \<in> set (alerts (tables w'))" "al_id b \<in> h" for b
    using that assms(2,3) unfolding good_call_def new_ids_fresh_def by blast
  then show ?thesis
    using assms(2) by (auto simp: later_def pool_ok_def remember_ids_def good_call_def)
qed

lemma good_call_alerts_same:
  "alerts (tables w') = alerts (tables w) \<Longrightarrow> tables_ok sv (tables w') \<Longrightarrow> good_call sv w w'"
  by (simp add: good_call_def alert_later_self)

lemma good_call_same: "tables w' = tables w \<Longrightarrow> tables_ok sv (tables w) \<Longrightarrow> good_call sv w w'"
  by (simp add: good_call_alerts_same)

lemma good_call_step:
  assumes "lstep sv ev (tables w) (tables w')" and "tables_ok sv (tables w)"
    and "set (alerts (tables w')) \<subseteq> set (alerts (tables w))"
  shows "good_call sv w w'"
  unfolding good_call_def using tables_ok_step [OF assms(1,2)] assms(3) by blast

lemma good_call_opened:
  assumes "tables_ok sv (tables w)" and "tables w' = (tables w)\<lparr>alerts := alerts (tables w) @ [row]\<rparr>"
    and "al_id row \<notin> alert_ids w" and "al_node_id row \<in> nd_node_id ` set (nodes (tables w))" and "alert_ok sv row"
  shows "good_call sv w w'"
  using tables_ok_opened [OF assms(1,3-5)] assms(3) by (auto simp: good_call_def assms(2))

lemma good_call_changed:
  assumes "tables_ok sv (tables w)" and "row_at al_id i (alerts (tables w)) = Some r" and "alert_later r r'" and "alert_ok sv r'"
    and "tables w' = (tables w)\<lparr>alerts := put_row al_id r' (alerts (tables w))\<rparr>"
  shows "good_call sv w w'"
proof -
  have r: "r \<in> set (alerts (tables w))"
    using row_at_SomeD [OF assms(2)] by simp
  have "\<exists>a \<in> set (alerts (tables w)). alert_later a b" if "b \<in> set (put_row al_id r' (alerts (tables w)))" for b
    using mem_put_row [OF that] r assms(3) by blast
  then show ?thesis
    using tables_ok_changed [OF assms(1) r assms(3,4)] by (simp add: good_call_def assms(5))
qed

lemma ensures_op:
  assumes "\<And>h w. later c (h, w) \<Longrightarrow> pool_ok sv (h, w) \<Longrightarrow>
      wp m (\<lambda>v w'. good_call sv w w' \<and> (\<forall>d. later (remember_ids h w', w') d \<longrightarrow> pool_ok sv d \<longrightarrow> P v d))
        (\<lambda>_ w'. good_call sv w w') w"
  shows "ensures sv (call m) P c"
proof (rule pool.ensures_call)
  fix h w
  assume at: "later c (h, w)" "pool_ok sv (h, w)"
  show "wp m (\<lambda>v t. new_ids_fresh h w t \<longrightarrow> later (h, w) (remember_ids h t, t) \<and> pool_ok sv (remember_ids h t, t) \<and>
        (\<forall>d. later (remember_ids h t, t) d \<longrightarrow> pool_ok sv d \<longrightarrow> P v d))
      (\<lambda>_ t. new_ids_fresh h w t \<longrightarrow> later (h, w) (remember_ids h t, t) \<and> pool_ok sv (remember_ids h t, t)) w"
    by (rule wp_mono [OF assms [OF at]]) (use good_call_moves [OF at(2)] in auto)
qed

text \<open>A call of which nothing but its effect matters.\<close>

lemma ensures_any:
  assumes "\<And>w. tables_ok sv (tables w) \<Longrightarrow> wp m (\<lambda>_. good_call sv w) (\<lambda>_. good_call sv w) w"
  shows "ensures sv (call m) (\<lambda>_ _. True) c"
  by (rule ensures_op) (use assms in \<open>auto simp: pool_ok_def\<close>)

subsection \<open>The calls that need no knowledge of the past\<close>

lemma tables_ok_deleted:
  assumes "tables_ok sv d" and "set ks \<inter> ac_alert_id ` set (actions d) = {}"
  shows "tables_ok sv (d\<lparr>alerts := delete_rows al_id ks (alerts d)\<rparr>)"
    and "tables_ok sv (d\<lparr>actions := delete_rows ac_id js (actions d)\<rparr>)"
    and "tables_ok sv (d\<lparr>samples := delete_rows sm_id js (samples d)\<rparr>)"
proof -
  have "\<exists>a \<in> set (delete_rows al_id ks (alerts d)). refers x a" if x: "x \<in> set (actions d)" for x
  proof -
    obtain a where "a \<in> set (alerts d)" "refers x a"
      using tables_ok_refs [OF assms(1) x] by blast
    then show ?thesis
      using imageI [OF x, of ac_alert_id] assms(2)
      by (intro bexI [of _ a]) (auto simp: set_delete_rows refers_def)
  qed
  then show "tables_ok sv (d\<lparr>alerts := delete_rows al_id ks (alerts d)\<rparr>)"
    using assms(1) by (auto simp: tables_ok_def keys_ok_def refs_ok_def set_delete_rows distinct_delete_rows)
qed (use assms(1) in \<open>auto simp: tables_ok_def keys_ok_def refs_ok_def set_delete_rows distinct_delete_rows\<close>)

lemma good_prunes:
  assumes "tables_ok sv (tables w)"
  shows "wp (prune_terminal_before e cutoff b) (\<lambda>_. good_call sv w) (\<lambda>_. good_call sv w) w"
    and "wp (prune_samples_before e cutoff b) (\<lambda>_. good_call sv w) (\<lambda>_. good_call sv w) w"
    and "wp (prune_resolved_before e cutoff b) (\<lambda>_. good_call sv w) (\<lambda>_. good_call sv w) w"
proof -
  note same = good_call_same [OF same_dataD(1) assms]
  note ok = tables_ok_deleted [OF assms]
  show "wp (prune_terminal_before e cutoff b) (\<lambda>_. good_call sv w) (\<lambda>_. good_call sv w) w"
    unfolding prune_terminal_before_def
    by (rule execute_rule) (auto simp: same split: sum.splits intro!: good_call_alerts_same ok(2) [of "[]"])
  show "wp (prune_samples_before e cutoff b) (\<lambda>_. good_call sv w) (\<lambda>_. good_call sv w) w"
    unfolding prune_samples_before_def
    by (rule execute_rule) (auto simp: same split: sum.splits intro!: good_call_alerts_same ok(3) [of "[]"])
  show "wp (prune_resolved_before e cutoff b) (\<lambda>_. good_call sv w) (\<lambda>_. good_call sv w) w"
    unfolding prune_resolved_before_def
  proof (rule execute_rule)
    fix v d and w' :: world
    assume "(case limit_rows b (scan e (stmts w) (map al_id (filter (alert_prunable cutoff (tables w)) (alerts (tables w))))) of
        Inl _ \<Rightarrow> Inl ()
      | Inr doomed \<Rightarrow>
          if set doomed \<inter> ac_alert_id ` set (actions (tables w)) \<noteq> {} then Inl ()
          else Inr (int (length (filter (\<lambda>r. al_id r \<in> set doomed) (alerts (tables w)))),
                    (tables w)\<lparr>alerts := delete_rows al_id doomed (alerts (tables w))\<rparr>)) = Inr (v, d)"
      and w': "tables w' = d"
    then obtain ks where ks: "set ks \<inter> ac_alert_id ` set (actions (tables w)) = {}"
        "d = (tables w)\<lparr>alerts := delete_rows al_id ks (alerts (tables w))\<rparr>"
      by (auto split: sum.splits if_splits)
    then show "good_call sv w w'"
      using ok(1) [OF ks(1)] by (auto simp: good_call_def w' set_delete_rows)
  qed (rule same)
qed

lemma good_record_seen:
  assumes "tables_ok sv (tables w)"
  shows "wp (record_seen e stale i t now) (\<lambda>_. good_call sv w) (\<lambda>_. good_call sv w) w"
  unfolding record_seen_def wp_seq
proof (rule upsert_seen_rule)
  fix r and w' :: world
  assume w': "tables w' = seen_db i t (tables w)"
  then have "lstep sv Quiet (tables w) (tables w')"
    by (simp add: lstep.node_seen)
  then have "good_call sv w w'"
    by (rule good_call_step [OF _ assms]) (simp add: w')
  then show "wp (from_result (node_to_view stale now r)) (\<lambda>_. good_call sv w) (\<lambda>_. good_call sv w) w'"
    by (simp add: wp_from_result split: sum.split)
qed (rule good_call_same [OF same_dataD(1) assms])

lemma good_bulk_insert:
  assumes "tables_ok sv (tables w)"
  shows "wp (bulk_insert e i ss t t') (\<lambda>_. good_call sv w) (\<lambda>_. good_call sv w) w"
proof (rule bulk_insert_rule)
  fix w' :: world
  let ?rows = "sample_rows (next_id e (stmts w) (map sm_id (samples (tables w)))) i ss t t'"
  assume "ss = [] \<or> i \<in> nd_node_id ` set (nodes (tables w))"
    and w': "tables w' = (tables w)\<lparr>samples := samples (tables w) @ ?rows\<rparr>"
  then have "lstep sv Quiet (tables w) (tables w')"
    unfolding w'
    by (intro lstep.samples_inserted [where i = i])
      (use distinct_append_sample_rows in \<open>auto simp: sample_rows_def simp del: map_append\<close>)
  then show "good_call sv w w'"
    by (rule good_call_step [OF _ assms]) (simp add: w')
qed (rule good_call_same [OF same_dataD(1) assms])

lemma good_mark_result:
  assumes "tables_ok sv (tables w)" and "st \<in> {EXECUTED, FAILED}"
  shows "wp (mark_result e i st reason t) (\<lambda>_. good_call sv w) (\<lambda>_. good_call sv w) w"
proof (rule mark_result_rule)
  fix r and w' :: world
  assume r: "row_at ac_id i (actions (tables w)) = Some r"
    and w': "tables w' = (tables w)\<lparr>actions := put_row ac_id
        (r\<lparr>ac_status := st, ac_reason := reason, ac_completed_at := Some t\<rparr>) (actions (tables w))\<rparr>"
  have "r \<in> set (actions (tables w))"
    using row_at_SomeD [OF r] by simp
  from tables_ok_finished [OF assms(1) this assms(2), of reason t] show "good_call sv w w'"
    by (intro good_call_alerts_same) (simp_all add: w' finished_def)
qed (rule good_call_same [OF same_dataD(1) assms(1)])

lemma good_create_alert:
  assumes "tables_ok sv (tables w)" and "kind = STALENESS \<longrightarrow> \<not> engine_key k"
  shows "wp (create_alert e i k kind sev descr v b t) (\<lambda>_. good_call sv w) (\<lambda>_. good_call sv w) w"
proof (rule create_alert_rule)
  fix row and w' :: world
  assume row: "row = new_alert (next_id e (stmts w) (map al_id (alerts (tables w)))) i k kind sev descr v b t"
    and "i \<in> nd_node_id ` set (nodes (tables w))"
    and "tables w' = (tables w)\<lparr>alerts := alerts (tables w) @ [row]\<rparr>"
  then show "good_call sv w w'"
    using assms by (intro good_call_opened [of sv w w' row]) (auto simp: row new_alert_def intro!: new_alert_ok [unfolded new_alert_def])
qed (rule good_call_same [OF same_dataD(1) assms(1)])

text \<open>A change of a row under its key.\<close>

lemma good_change:
  assumes "tables_ok sv (tables w)" and "\<And>r. alert_later r (f r)"
    and "\<And>r. r \<in> set (alerts (tables w)) \<Longrightarrow> al_id r = i \<Longrightarrow> alert_ok sv r \<Longrightarrow> alert_ok sv (f r)"
  shows "wp (seq (alert_get_or_raise e i msg) (\<lambda>row. alert_commit_and_return e (f row) msg))
     (\<lambda>b w'. good_call sv w w' \<and> (\<exists>r \<in> set (alerts (tables w)). al_id r = i \<and> b = alert_to_record (f r) \<and>
        tables w' = (tables w)\<lparr>alerts := put_row al_id (f r) (alerts (tables w))\<rparr>))
     (\<lambda>_. good_call sv w) w"
proof (rule alert_change_rule)
  show "al_id (f r) = al_id r" for r
    using assms(2) by (simp add: alert_later_def)
  fix r and w' :: world
  assume r: "row_at al_id i (alerts (tables w)) = Some r"
    and w': "tables w' = (tables w)\<lparr>alerts := put_row al_id (f r) (alerts (tables w))\<rparr>"
  have mem: "r \<in> set (alerts (tables w))" "al_id r = i"
    using row_at_SomeD [OF r] by simp_all
  then have "alert_ok sv (f r)"
    using assms(1,3) by (simp add: tables_ok_def)
  then have "good_call sv w w'"
    by (rule good_call_changed [OF assms(1) r assms(2) _ w'])
  then show "good_call sv w w' \<and> (\<exists>x \<in> set (alerts (tables w)). al_id x = i \<and>
      alert_to_record (f r) = alert_to_record (f x) \<and>
      tables w' = (tables w)\<lparr>alerts := put_row al_id (f x) (alerts (tables w))\<rparr>)"
    using mem w' by blast
qed (rule good_call_same [OF same_dataD(1) assms(1)])

lemma alert_ok_updates:
  "alert_ok sv r \<Longrightarrow> alert_ok sv (r\<lparr>al_triggering_value := v, al_last_fired_at := t\<rparr>)"
  "alert_ok sv r \<Longrightarrow> alert_ok sv (r\<lparr>al_status := RESOLVED, al_resolved_at := Some t\<rparr>)"
  "alert_ok sv r \<Longrightarrow> alert_ok sv (r\<lparr>al_acknowledged_by := Some b, al_acknowledged_at := Some t\<rparr>)"
  by (simp_all add: alert_ok_def old_enough_def)

lemma good_end_calls:
  assumes "tables_ok sv (tables w)"
  shows "wp (resolve_alert e i t) (\<lambda>_. good_call sv w) (\<lambda>_. good_call sv w) w"
    and "wp (acknowledge_alert e i b t) (\<lambda>_. good_call sv w) (\<lambda>_. good_call sv w) w"
    and "wp (notify e tg m) (\<lambda>_. good_call sv w) (\<lambda>_. good_call sv w) w"
proof -
  show "wp (resolve_alert e i t) (\<lambda>_. good_call sv w) (\<lambda>_. good_call sv w) w"
    unfolding resolve_alert_def
    by (rule wp_mono [OF good_change [OF assms]]) (simp_all add: alert_later_def alert_ok_updates)
  show "wp (acknowledge_alert e i b t) (\<lambda>_. good_call sv w) (\<lambda>_. good_call sv w) w"
    unfolding acknowledge_alert_def
    by (rule wp_mono [OF good_change [OF assms]]) (simp_all add: alert_later_def alert_ok_updates)
  show "wp (notify e tg m) (\<lambda>_. good_call sv w) (\<lambda>_. good_call sv w) w"
    using assms by (simp add: wp_simps good_call_same)
qed

lemma good_read:
  assumes "tables_ok sv (tables w)" and "wp m (\<lambda>_. same_data w) (\<lambda>_. same_data w) w"
  shows "wp m (\<lambda>_. good_call sv w) (\<lambda>_. good_call sv w) w"
  by (rule wp_mono [OF assms(2)]) (rule good_call_same [OF same_dataD(1) assms(1)], assumption)+

subsection \<open>What a request knows of an alert it has read\<close>

definition known :: "alert_row \<Rightarrow> int set \<times> world \<Rightarrow> bool" where
  "known a c \<longleftrightarrow> al_id a \<in> fst c \<and> (\<forall>b \<in> set (alerts (tables (snd c))). al_id b = al_id a \<longrightarrow> alert_later a b)"

lemma known_later:
  assumes "known a c" and "later c d"
  shows "known a d"
  unfolding known_def
proof (intro conjI ballI impI)
  show "al_id a \<in> fst d"
    using assms by (auto simp: known_def later_def)
  fix b
  assume b: "b \<in> set (alerts (tables (snd d)))" "al_id b = al_id a"
  then obtain x where x: "x \<in> set (alerts (tables (snd c)))" "alert_later x b"
    using assms unfolding known_def later_def by force
  then have "alert_later a x"
    using assms(1) b(2) by (simp add: known_def alert_later_def)
  then show "alert_later a b"
    using x(2) by (rule alert_later_trans)
qed

lemma known_stored:
  assumes "tables_ok sv (tables w)" and "r \<in> set (alerts (tables w))"
  shows "known r (remember_ids h w, w)"
  using assms by (auto simp: known_def remember_ids_def tables_ok_def keys_ok_def distinct_map inj_on_def)

lemma ensures_find_open:
  "ensures sv (call (find_open_alert e n k))
     (\<lambda>found d. \<forall>a. found = Some a \<longrightarrow> (\<exists>r. a = alert_to_record r \<and> known r d \<and> is_open n k r)) c"
proof (rule ensures_op)
  fix h w
  assume "pool_ok sv (h, w)"
  then have ok: "tables_ok sv (tables w)"
    by (simp add: pool_ok_def)
  note same = good_call_same [OF same_dataD(1) ok]
  show "wp (find_open_alert e n k) (\<lambda>found w'. good_call sv w w' \<and> (\<forall>d. later (remember_ids h w', w') d \<longrightarrow>
      pool_ok sv d \<longrightarrow> (\<forall>a. found = Some a \<longrightarrow> (\<exists>r. a = alert_to_record r \<and> known r d \<and> is_open n k r))))
    (\<lambda>_. good_call sv w) w"
  proof (rule find_open_alert_rule)
    fix r and w' :: world
    assume w': "same_data w w'" and r: "r \<in> set (alerts (tables w))" "is_open n k r"
    then have "known r (remember_ids h w', w')"
      by (intro known_stored [of sv]) (simp_all add: same_data_def ok)
    then show "good_call sv w w' \<and> (\<forall>d. later (remember_ids h w', w') d \<longrightarrow> pool_ok sv d \<longrightarrow>
        (\<forall>a. Some (alert_to_record r) = Some a \<longrightarrow> (\<exists>r. a = alert_to_record r \<and> known r d \<and> is_open n k r)))"
      using same [OF w'] known_later r(2) by blast
  qed (use same in simp_all)
qed

text \<open>A change of an alert the request knows.\<close>

lemma ensures_change:
  assumes "known a c" and "\<And>r. alert_later r (f r)"
    and "\<And>r. alert_later a r \<Longrightarrow> alert_ok sv r \<Longrightarrow> alert_ok sv (f r)"
  shows "ensures sv (call (seq (alert_get_or_raise e (al_id a) msg) (\<lambda>row. alert_commit_and_return e (f row) msg)))
     (\<lambda>b d. \<exists>r. b = alert_to_record (f r) \<and> known (f r) d \<and> alert_later a (f r)) c"
proof (rule ensures_op)
  fix h w
  assume at: "later c (h, w)" "pool_ok sv (h, w)"
  then have ok: "tables_ok sv (tables w)" and kn: "known a (h, w)"
    using known_later [OF assms(1)] by (simp_all add: pool_ok_def)
  have later: "alert_later a r" if "r \<in> set (alerts (tables w))" "al_id r = al_id a" for r
    using kn that by (simp add: known_def)
  show "wp (seq (alert_get_or_raise e (al_id a) msg) (\<lambda>row. alert_commit_and_return e (f row) msg))
    (\<lambda>b w'. good_call sv w w' \<and> (\<forall>d. later (remember_ids h w', w') d \<longrightarrow> pool_ok sv d \<longrightarrow>
      (\<exists>r. b = alert_to_record (f r) \<and> known (f r) d \<and> alert_later a (f r))))
    (\<lambda>_. good_call sv w) w"
  proof (rule wp_mono [OF good_change [OF ok assms(2)]])
    fix b and w' :: world
    assume "good_call sv w w' \<and> (\<exists>r \<in> set (alerts (tables w)). al_id r = al_id a \<and> b = alert_to_record (f r) \<and>
      tables w' = (tables w)\<lparr>alerts := put_row al_id (f r) (alerts (tables w))\<rparr>)"
    then obtain r where good: "good_call sv w w'" and r: "r \<in> set (alerts (tables w))" "al_id r = al_id a"
        and b: "b = alert_to_record (f r)"
        and w': "tables w' = (tables w)\<lparr>alerts := put_row al_id (f r) (alerts (tables w))\<rparr>"
      by blast
    have "f r \<in> set (alerts (tables w'))"
      using assms(2) [of r] r(1) by (simp add: w' mem_put_own alert_later_def)
    then have "known (f r) (remember_ids h w', w')"
      using good by (intro known_stored [of sv]) (simp_all add: good_call_def)
    moreover have "alert_later a (f r)"
      using later [OF r] assms(2) by (rule alert_later_trans)
    ultimately show "good_call sv w w' \<and> (\<forall>d. later (remember_ids h w', w') d \<longrightarrow> pool_ok sv d \<longrightarrow>
        (\<exists>r. b = alert_to_record (f r) \<and> known (f r) d \<and> alert_later a (f r)))"
      using good b known_later by blast
  qed (use assms(3) later in auto)
qed

subsection \<open>The programs\<close>

lemma ensures_notify:
  assumes "\<And>d. later c d \<Longrightarrow> P v d"
  shows "ensures sv (pbind (call (notify e tg m)) (\<lambda>_. yields v)) P c"
  by (rule pool.ensures_pbind [OF ensures_any [OF good_end_calls(3)] pool.ensures_yields])
    (auto intro: assms pool.later_trans)

text \<open>The reaction to a result, on an alert the request knows.\<close>

lemma should_escalate_record:
  "should_escalate sv (alert_to_record r) t = Inr b \<Longrightarrow>
   b \<longleftrightarrow> al_acknowledged_at r = None \<and> al_escalated_at r = None \<and> old_enough (sv_escalation_after_seconds sv) t r"
  by (auto simp: should_escalate_def dt_sub_def old_enough_def split: if_splits)

lemma should_remediate_record:
  "should_remediate sv (alert_to_record r) t = Inr b \<Longrightarrow> b \<Longrightarrow>
   al_acknowledged_at r = None \<and> old_enough (sv_remediation_after_seconds sv) t r"
  by (auto simp: should_remediate_def dt_sub_def old_enough_def split: if_splits)

lemma old_enough_later: "alert_later a b \<Longrightarrow> old_enough x t b = old_enough x t a"
  by (simp add: old_enough_def alert_later_def)

lemma ensures_maybe_escalate:
  assumes "known r c" and "engine_key (al_rule_key r)"
  shows "ensures sv (maybe_escalate_calls e sv t (alert_to_record r))
     (\<lambda>b d. \<exists>s. b = alert_to_record s \<and> known s d \<and> alert_later r s \<and>
        (al_acknowledged_at s = None \<and> old_enough (sv_escalation_after_seconds sv) t s \<longrightarrow> al_escalated_at s \<noteq> None)) c"
  unfolding maybe_escalate_calls_def
proof (rule pool.ensures_pbind, rule pool.ensures_Done)
  show "should_escalate sv (alert_to_record r) t = Inr v \<Longrightarrow> should_escalate sv (alert_to_record r) t = Inr v" for v .
  fix b d
  assume later: "later c d" and b: "should_escalate sv (alert_to_record r) t = Inr b"
  note esc = should_escalate_record [OF b]
  have kn: "known r d"
    by (rule known_later [OF assms(1) later])
  let ?P = "\<lambda>b d. \<exists>s. b = alert_to_record s \<and> known s d \<and> alert_later r s \<and>
      (al_acknowledged_at s = None \<and> old_enough (sv_escalation_after_seconds sv) t s \<longrightarrow> al_escalated_at s \<noteq> None)"
  have "ensures sv (yields (alert_to_record r)) ?P d" if "\<not> b"
    by (rule pool.ensures_yields) (use that esc known_later [OF kn] in \<open>intro exI [of _ r]; auto\<close>)
  moreover have "ensures sv (pbind (call (escalate_alert e (al_id r) t)) (\<lambda>escalated.
      pbind (call (notify e (sv_notifier sv) (format_escalated escalated))) (\<lambda>_. yields escalated))) ?P d" if b
  proof (rule pool.ensures_pbind)
    show "ensures sv (call (escalate_alert e (al_id r) t)) (\<lambda>b d. \<exists>s. b = alert_to_record (s\<lparr>al_escalated_at := Some t\<rparr>) \<and>
        known (s\<lparr>al_escalated_at := Some t\<rparr>) d \<and> alert_later r (s\<lparr>al_escalated_at := Some t\<rparr>)) d"
      unfolding escalate_alert_def
    proof (rule ensures_change [OF kn])
      show "alert_ok sv (s\<lparr>al_escalated_at := Some t\<rparr>)" if "alert_later r s" "alert_ok sv s" for s
        using \<open>b\<close> esc that assms(2) by (auto simp: alert_ok_def alert_later_def old_enough_def)
    qed (simp add: alert_later_def)
    fix a d'
    assume "\<exists>s. a = alert_to_record (s\<lparr>al_escalated_at := Some t\<rparr>) \<and>
        known (s\<lparr>al_escalated_at := Some t\<rparr>) d' \<and> alert_later r (s\<lparr>al_escalated_at := Some t\<rparr>)"
    then obtain s where s: "a = alert_to_record s" "known s d'" "alert_later r s" "al_escalated_at s \<noteq> None"
      by auto
    show "ensures sv (pbind (call (notify e (sv_notifier sv) (format_escalated a))) (\<lambda>_. yields a)) ?P d'"
      by (rule ensures_notify, rule exI [of _ s]) (use s known_later [OF s(2)] in blast)
  qed
  ultimately show "ensures sv (if \<not> b then yields (alert_to_record r)
      else pbind (call (escalate_alert e (al_id (alert_to_record r)) t)) (\<lambda>escalated.
        pbind (call (notify e (sv_notifier sv) (format_escalated escalated))) (\<lambda>_. yields escalated))) ?P d"
    by simp
qed

text \<open>A program of which only its calls matter.\<close>

definition safe :: "alert_service \<Rightarrow> (world, exn, 'a) prog \<Rightarrow> int set \<times> world \<Rightarrow> bool" where
  "safe sv p c \<longleftrightarrow> ensures sv p (\<lambda>_ _. True) c"

named_theorems safe_intros \<open>programs that keep the tables well formed\<close>

lemma safe_Done [safe_intros]: "safe sv (Done r) c"
  by (simp add: safe_def)

lemma safe_after:
  "ensures sv p P c \<Longrightarrow> (\<And>v d. later c d \<Longrightarrow> P v d \<Longrightarrow> safe sv (f v) d) \<Longrightarrow> safe sv (pbind p f) c"
  unfolding safe_def by (rule pool.ensures_pbind)

lemma safe_pbind [safe_intros]:
  "safe sv p c \<Longrightarrow> (\<And>v d. later c d \<Longrightarrow> safe sv (f v) d) \<Longrightarrow> safe sv (pbind p f) c"
  unfolding safe_def [of sv p] by (rule safe_after)

lemma safe_pbind_Done: "(\<And>v d. r = Inr v \<Longrightarrow> later c d \<Longrightarrow> safe sv (f v) d) \<Longrightarrow> safe sv (pbind (Done r) f) c"
  by (rule safe_after [OF pool.ensures_Done [where P = "\<lambda>v _. r = Inr v"]]) auto

lemma safe_ptry [safe_intros]:
  "safe sv p c \<Longrightarrow> (\<And>x d. later c d \<Longrightarrow> safe sv (h x) d) \<Longrightarrow> safe sv (ptry p h) c"
  unfolding safe_def by (rule pool.ensures_ptry)

lemma safe_pfor [safe_intros]:
  "(\<And>x d. x \<in> set xs \<Longrightarrow> later c d \<Longrightarrow> safe sv (f x) d) \<Longrightarrow> safe sv (pfor f xs) c"
  using pool.ensures_pfor [of xs c sv f "\<lambda>_. True"] by (simp add: safe_def)

lemma safe_call:
  "(\<And>w. tables_ok sv (tables w) \<Longrightarrow> wp m (\<lambda>_. good_call sv w) (\<lambda>_. good_call sv w) w) \<Longrightarrow> safe sv (call m) c"
  unfolding safe_def by (rule ensures_any)

lemma safe_read:
  "(\<And>w. wp m (\<lambda>_. same_data w) (\<lambda>_. same_data w) w) \<Longrightarrow> safe sv (call m) c"
  by (rule safe_call) (rule good_read)

lemma safe_option [safe_intros]:
  "(v = None \<Longrightarrow> safe sv p c) \<Longrightarrow> (\<And>y. v = Some y \<Longrightarrow> safe sv (q y) c) \<Longrightarrow>
   safe sv (case v of None \<Rightarrow> p | Some y \<Rightarrow> q y) c"
  by (cases v) auto

lemma safe_if [safe_intros]:
  "(b \<Longrightarrow> safe sv p c) \<Longrightarrow> (\<not> b \<Longrightarrow> safe sv q c) \<Longrightarrow> safe sv (if b then p else q) c"
  by simp

lemma safe_prod [safe_intros]: "(\<And>x y. v = (x, y) \<Longrightarrow> safe sv (p x y) c) \<Longrightarrow> safe sv (case v of (x, y) \<Rightarrow> p x y) c"
  by (cases v) auto

lemma safe_calls [safe_intros]:
  "safe sv (call (notify e tg m)) c" "safe sv (call (resolve_alert e i t)) c"
  "safe sv (call (acknowledge_alert e i b t)) c" "safe sv (call (record_seen e stale n t now)) c"
  "safe sv (call (bulk_insert e n ss t t')) c"
  by (rule safe_call; erule good_end_calls good_record_seen good_bulk_insert)+

lemma safe_reads [safe_intros]:
  "safe sv (call (find_last_action e n k)) c" "safe sv (call (count_recent_actions e n t)) c"
  "safe sv (call (find_previous_sample e n mt t x)) c" "safe sv (call (list_dispatched_before e t)) c"
  "safe sv (call (node_list_all e)) c" "safe sv (call (get_alert e i)) c" "safe sv (call (get_action e i)) c"
  "safe sv (call (find_open_alert e n k)) c"
         apply (rule safe_read, rule find_last_action_rule; simp)
        apply (rule safe_read, rule count_recent_actions_rule; simp)
       apply (rule safe_read, rule find_previous_sample_rule; simp)
      apply (rule safe_read, rule list_dispatched_before_rule; simp)
     apply (rule safe_read, rule node_list_all_rule; simp)
    apply (rule safe_read, unfold get_alert_def wp_seq, rule alert_get_rule; simp add: wp_simps split: option.split)
   apply (rule safe_read, unfold get_action_def wp_seq, rule action_get_rule; simp add: wp_simps split: option.split)
  apply (rule safe_read, rule find_open_alert_rule; simp)
  done

text \<open>The Safety Limits only read.\<close>

lemma safe_check_safety_limits [safe_intros]: "safe sv (check_safety_limits_calls e eng n pb t) c"
  unfolding check_safety_limits_calls_def check_cooldown_calls_def check_rate_limit_calls_def Let_def
  by (intro safe_intros)

lemma safe_create_action:
  assumes "known r c" and "sv_remediation_engine sv = Some eng" and "en_by_rule_key eng (al_rule_key r) = Some pb"
    and "status = (if reason \<noteq> None then BLOCKED_BY_SAFETY_LIMIT else DISPATCHED)"
  shows "safe sv (call (create_action e (al_node_id r) (al_id r) (al_rule_key r) (pb_playbook_name pb)
     (pb_action_type pb) (pb_parameters pb) status reason t)) c"
  unfolding safe_def
proof (rule ensures_op)
  fix h w
  assume at: "later c (h, w)" "pool_ok sv (h, w)"
  then have ok: "tables_ok sv (tables w)" and kn: "known r (h, w)"
    using known_later [OF assms(1)] by (simp_all add: pool_ok_def)
  show "wp (create_action e (al_node_id r) (al_id r) (al_rule_key r) (pb_playbook_name pb) (pb_action_type pb)
      (pb_parameters pb) status reason t) (\<lambda>v w'. good_call sv w w' \<and> (\<forall>d. later (remember_ids h w', w') d \<longrightarrow>
      pool_ok sv d \<longrightarrow> True)) (\<lambda>_. good_call sv w) w"
  proof (rule create_action_rule)
    fix row and w' :: world
    assume row: "row = new_action (next_id e (stmts w) (map ac_id (actions (tables w)))) (al_node_id r) (al_id r)
        (al_rule_key r) (pb_playbook_name pb) (pb_action_type pb) (pb_parameters pb) status reason t"
      and "al_id r \<in> al_id ` set (alerts (tables w))"
      and w': "tables w' = (tables w)\<lparr>actions := actions (tables w) @ [row]\<rparr>"
    then obtain a where a: "a \<in> set (alerts (tables w))" "al_id a = al_id r"
      by force
    then have "refers row a"
      using kn by (simp add: known_def alert_later_def refers_def row new_action_def)
    moreover have "action_ok sv row"
      using assms(2-4) by (auto simp: action_ok_def from_playbook_def row new_action_def)
    moreover have "ac_id row \<notin> ac_id ` set (actions (tables w))"
      by (simp add: row new_action_def)
    ultimately have "tables_ok sv (tables w')"
      unfolding w' by (intro tables_ok_decided [OF ok a(1)])
    then show "good_call sv w w' \<and> (\<forall>d. later (remember_ids h w', w') d \<longrightarrow> pool_ok sv d \<longrightarrow> True)"
      by (simp add: good_call_alerts_same w')
  qed (rule good_call_same [OF same_dataD(1) ok])
qed

lemma safe_maybe_remediate:
  assumes "known r c" and "engine_key (al_rule_key r)" and "al_rule_key r = rr_rule_key result" and "al_node_id r = n"
    and "al_acknowledged_at r = None \<Longrightarrow> old_enough (sv_escalation_after_seconds sv) t r \<Longrightarrow> al_escalated_at r \<noteq> None"
  shows "safe sv (maybe_remediate_calls e sv n result t (alert_to_record r)) c"
  unfolding maybe_remediate_calls_def
proof (rule safe_pbind_Done)
  fix b d
  assume b: "should_remediate sv (alert_to_record r) t = Inr b" and "later c d"
  then have kn: "known r d"
    using known_later [OF assms(1)] by simp
  have decide: "safe sv (decide_calls e eng n (al_id r) (rr_rule_key result) t) d"
    if "sv_remediation_engine sv = Some eng" for eng
    unfolding decide_calls_def Let_def assms(3) [symmetric] assms(4) [symmetric]
    by (intro safe_intros safe_create_action known_later [OF kn]) (simp_all add: that)
  have mark: "safe sv (call (mark_remediated e (al_id r) t)) d'" if b "later d d'" for d'
    unfolding mark_remediated_def safe_def
  proof (rule pool.ensures_mono [OF ensures_change [OF known_later [OF kn that(2)]]])
    note rem = should_remediate_record [OF b that(1)]
    fix s
    assume s: "alert_later r s" "alert_ok sv s"
    have "al_escalated_at s \<noteq> None" if "fle (sv_escalation_after_seconds sv) (sv_remediation_after_seconds sv)"
    proof -
      have "old_enough (sv_escalation_after_seconds sv) t r"
        using rem fle_trans [OF that] by (simp add: old_enough_def)
      then show ?thesis
        using assms(5) rem s(1) by (simp add: alert_later_def)
    qed
    moreover have "old_enough (sv_remediation_after_seconds sv) t s"
      using rem old_enough_later [OF s(1)] by simp
    ultimately show "alert_ok sv (s\<lparr>al_remediated_at := Some t\<rparr>)"
      using s assms(2) by (simp add: alert_ok_def alert_later_def old_enough_def)
  qed (simp_all add: alert_later_def)
  show "safe sv (case if b then sv_remediation_engine sv else None of
        None \<Rightarrow> yields (alert_to_record r, None)
      | Some eng \<Rightarrow>
          pbind (decide_calls e eng n (al_id (alert_to_record r)) (rr_rule_key result) t) (\<lambda>decision.
          case decision of
            None \<Rightarrow> yields (alert_to_record r, None)
          | Some dec \<Rightarrow>
              pbind (call (mark_remediated e (al_id (alert_to_record r)) t)) (\<lambda>updated.
              yields (updated, if ac_status dec = DISPATCHED then Some dec else None)))) d"
    by (intro safe_intros) (auto split: if_splits intro: decide mark)
qed

text \<open>A result of the engine on a node.\<close>

lemma ensures_evaluate:
  "ensures sv (evaluate_calls e eng n ss t) (\<lambda>rs _. \<forall>r \<in> set rs. engine_result r) c"
  unfolding evaluate_calls_def
proof (rule pool.ensures_pbind, rule pool.ensures_pfor)
  fix s d
  have rate: "ensures sv (evaluate_rate_of_change_calls e n rule s t)
      (\<lambda>r _. \<forall>x. r = Some x \<longrightarrow> engine_result x) d" for rule
    unfolding evaluate_rate_of_change_calls_def
    by (rule pool.ensures_pbind [OF safe_reads(3) [unfolded safe_def]], rule pool.ensures_yields)
      (auto simp: rate_result_def engine_result_def split: option.split)
  show "ensures sv (evaluate_sample_calls e eng n t s) (\<lambda>rs _. \<forall>r \<in> set rs. engine_result r) d"
  proof (cases "re_rate_of_change_rules eng (ms_metric_type s)")
    case None
    then show ?thesis
      by (auto simp: evaluate_sample_calls_def evaluate_threshold_def engine_result_def split: option.split)
  next
    case (Some rule)
    show ?thesis
      unfolding evaluate_sample_calls_def Let_def Some option.case
      by (rule pool.ensures_pbind [OF rate], rule pool.ensures_yields)
        (auto simp: evaluate_threshold_def engine_result_def split: option.split)
  qed
qed auto

lemma engine_result_key: "engine_result r \<Longrightarrow> engine_key (rr_rule_key r) \<and> rr_rule_kind r \<noteq> STALENESS"
  by (auto simp: engine_result_def engine_key_def)

lemma safe_open_alert:
  "rr_rule_kind result \<noteq> STALENESS \<Longrightarrow> safe sv (open_alert_calls e sv n result t) c"
  unfolding open_alert_calls_def by (intro safe_intros safe_call good_create_alert) auto

lemma safe_advance:
  assumes "known r c" and "is_open n (rr_rule_key result) r" and "engine_result result"
  shows "safe sv (open_or_advance_calls e sv n result t (Some (alert_to_record r))) c"
proof -
  let ?f = "\<lambda>r. r\<lparr>al_triggering_value := rr_value result, al_last_fired_at := t\<rparr>"
  have key: "engine_key (rr_rule_key result)"
    using engine_result_key [OF assms(3)] by simp
  have "safe sv (pbind (call (seq (alert_get_or_raise e (al_id r) ''failed to advance alert'')
        (\<lambda>row. alert_commit_and_return e (?f row) ''failed to advance alert''))) (\<lambda>advanced.
      pbind (maybe_escalate_calls e sv t advanced) (\<lambda>escalated.
      maybe_remediate_calls e sv n result t escalated))) c"
  proof (rule safe_after [OF ensures_change [OF assms(1)]])
    fix a d
    assume "\<exists>s. a = alert_to_record (?f s) \<and> known (?f s) d \<and> alert_later r (?f s)"
    then obtain s where s: "a = alert_to_record s" "known s d" "alert_later r s"
      by blast
    then have "engine_key (al_rule_key s)"
      using assms(2) key by (simp add: is_open_def alert_later_def)
    then show "safe sv (pbind (maybe_escalate_calls e sv t a) (\<lambda>escalated.
        maybe_remediate_calls e sv n result t escalated)) d"
      unfolding s(1)
    proof (rule safe_after [OF ensures_maybe_escalate [OF s(2)]])
      fix b d'
      assume "\<exists>u. b = alert_to_record u \<and> known u d' \<and> alert_later s u \<and>
        (al_acknowledged_at u = None \<and> old_enough (sv_escalation_after_seconds sv) t u \<longrightarrow> al_escalated_at u \<noteq> None)"
      then obtain u where u: "b = alert_to_record u" "known u d'" "alert_later r u"
          "al_acknowledged_at u = None \<Longrightarrow> old_enough (sv_escalation_after_seconds sv) t u \<Longrightarrow> al_escalated_at u \<noteq> None"
        using alert_later_trans [OF s(3)] by blast
      then show "safe sv (maybe_remediate_calls e sv n result t b) d'"
        unfolding u(1) using assms(2) key
        by (intro safe_maybe_remediate) (simp_all add: is_open_def alert_later_def)
    qed
  qed (simp_all add: alert_later_def alert_ok_updates)
  then show ?thesis
    by (simp add: open_or_advance_calls_def update_last_fired_def)
qed

lemma safe_apply_result:
  assumes "engine_result result"
  shows "safe sv (apply_result_calls e sv n t result) c"
  unfolding apply_result_calls_def
proof (rule safe_after [OF ensures_find_open])
  fix found d
  assume found: "\<forall>a. found = Some a \<longrightarrow> (\<exists>r. a = alert_to_record r \<and> known r d \<and> is_open n (rr_rule_key result) r)"
  have "safe sv (open_or_advance_calls e sv n result t found) d"
  proof (cases found)
    case None
    then show ?thesis
      using engine_result_key [OF assms]
      by (simp add: open_or_advance_calls_def) (intro safe_intros safe_open_alert; simp)
  next
    case (Some a)
    then obtain r where "a = alert_to_record r" "known r d" "is_open n (rr_rule_key result) r"
      using found by blast
    then show ?thesis
      using safe_advance [OF _ _ assms] Some by simp
  qed
  then show "safe sv (if rr_breached result
      then pbind (open_or_advance_calls e sv n result t found) (\<lambda>(record, dispatched).
        yields (Some (to_view record), dispatched))
      else case found of
          None \<Rightarrow> yields (None, None)
        | Some a \<Rightarrow> pbind (resolve_calls e sv t a) (\<lambda>resolved. yields (Some (to_view resolved), None))) d"
    unfolding resolve_calls_def by (intro safe_intros)
qed

lemma safe_evaluate_and_apply: "safe sv (evaluate_and_apply_calls e sv n ss t) c"
  unfolding evaluate_and_apply_calls_def
  by (rule safe_after [OF ensures_evaluate]) (intro safe_intros safe_apply_result; simp)

lemma safe_create_alert:
  "(kind = STALENESS \<longrightarrow> \<not> engine_key k) \<Longrightarrow> safe sv (call (create_alert e n k kind sev descr v b t)) c"
  by (intro safe_call good_create_alert)

lemma safe_mark_result: "st \<in> {EXECUTED, FAILED} \<Longrightarrow> safe sv (call (mark_result e i st reason t)) c"
  by (intro safe_call good_mark_result)

lemma safe_route_call:
  assumes "\<And>p. req \<noteq> PostMetrics p" and "\<And>i b. req \<noteq> AcknowledgeAlert i b" and "\<And>i r. req \<noteq> ReportActionResult i r"
  shows "safe sv (call (route e app clock req)) c"
proof (cases "\<exists>ping. req = PostHeartbeat ping")
  case True
  then obtain ping where req: "req = PostHeartbeat ping"
    by blast
  show ?thesis
    unfolding req route.simps receive_heartbeat_def
    by (rule safe_call) (simp add: wp_simps good_record_seen)
next
  case False
  have views: "wp (for_each (\<lambda>(i, r). from_result (f i r)) xs) (\<lambda>_. same_data w) (\<lambda>_. same_data w) w'"
    if "same_data w w'" for f :: "nat \<Rightarrow> node_row \<Rightarrow> exn + node_view" and xs w w'
  proof -
    have "wp (for_each (\<lambda>(i, r). from_result (f i r)) xs) (\<lambda>_. same_data w') (\<lambda>_. same_data w') w'"
      by (rule wp_for_each_rel) (auto simp: wp_simps intro: same_data_trans split: sum.split)
    then show ?thesis
      by (rule wp_mono) (rule same_data_trans [OF that], assumption)+
  qed
  have "wp (route e app clock req) (\<lambda>_. same_data w) (\<lambda>_. same_data w) w" for w
    using assms False
    by (cases req) (auto simp: route_defs healthz_def get_alert_def get_action_def list_alerts_def list_actions_def
        get_node_def list_nodes_def alert_list_def action_list_def wp_simps split: option.splits sum.splits
        intro!: query_rule alert_get_rule action_get_rule node_get_rule node_list_all_rule views)
  then show ?thesis
    by (rule safe_read)
qed

lemma safe_handle: "safe (service app) (handle_calls e app clock credentials req) c"
proof -
  have route: "safe (service app) (route_calls e app clock req) c" for c
  proof (cases req)
    case (PostMetrics p)
    show ?thesis
      unfolding PostMetrics route_calls.simps ingest_calls_def evaluate_rules_best_effort_calls_def option.case
      by (intro safe_intros safe_evaluate_and_apply)
  next
    case (AcknowledgeAlert i b)
    show ?thesis
      unfolding AcknowledgeAlert route_calls.simps acknowledge_calls_def by (intro safe_intros)
  next
    case (ReportActionResult i result)
    show ?thesis
      unfolding ReportActionResult route_calls.simps report_result_calls_def
      by (intro safe_intros safe_mark_result) (cases "ar_status result"; simp)
  qed (simp_all add: safe_route_call del: route.simps)
  show ?thesis
    unfolding handle_calls_def sum.case_eq_if by (intro safe_intros route)
qed

lemma safe_jobs:
  "safe sv (staleness_sweep_calls e tg stale fd now) c" "safe sv (reconciliation_calls e timeout now) c"
  "safe sv (retention_calls n e st now) c"
proof -
  show "safe sv (staleness_sweep_calls e tg stale fd now) c"
    unfolding staleness_sweep_calls_def staleness_node_calls_def staleness_react_calls_def
    by (intro safe_intros safe_create_alert) (simp add: staleness_key)
  show "safe sv (reconciliation_calls e timeout now) c"
    unfolding reconciliation_calls_def by (intro safe_intros safe_mark_result) simp
  have drain: "safe sv (drain_calls n (prune cutoff b) k) c"
    if "\<And>c. safe sv (call (prune cutoff b)) c" for prune :: "datetime \<Rightarrow> int \<Rightarrow> (world, exn, int) comp" and cutoff b k c
    by (induction n arbitrary: k c) (auto intro!: safe_intros that)
  show "safe sv (retention_calls n e st now) c"
    unfolding retention_calls_def drain_before_calls_def
    by (intro safe_intros drain safe_call; erule good_prunes)
qed

subsection \<open>The Collector with its threads\<close>

text \<open>
  The threads of a Collector: a request from anyone at any time, and the runs of its jobs. Whether the
  first sweep of the process is over is left open, and how many batches a retention run makes.
\<close>

definition thread :: "(world, exn, 'a) prog \<Rightarrow> (world, exn, unit) prog" where
  "thread p = pbind p (\<lambda>_. yields ())"

inductive collector_thread :: "env \<Rightarrow> collector_app \<Rightarrow> (world, exn, unit) prog \<Rightarrow> bool" for e app where
  request: "collector_thread e app (thread (handle_calls e app clock credentials req))"
| staleness: "collector_thread e app (thread (staleness_sweep_calls e (ap_notifier app)
    (cs_heartbeat_stale_after_seconds (ap_settings app)) first_run_done (utc now)))"
| reconciliation: "collector_thread e app (thread (reconciliation_calls e
    (cs_remediation_dispatch_timeout_seconds (ap_settings app)) (utc now)))"
| retention: "collector_thread e app (thread (retention_calls n e (retention_settings_of (ap_settings app)) (utc now)))"

abbreviation collector_steps ::
    "env \<Rightarrow> collector_app \<Rightarrow> (int set \<times> world) \<times> (world, exn, unit) prog list \<Rightarrow>
     (int set \<times> world) \<times> (world, exn, unit) prog list \<Rightarrow> bool" where
  "collector_steps e app \<equiv> (interleave (collector_thread e app) new_ids_fresh remember_ids)\<^sup>*\<^sup>*"

definition interleaved :: "env \<Rightarrow> collector_app \<Rightarrow> world \<Rightarrow> bool" where
  "interleaved e app w \<longleftrightarrow> (\<exists>h ps. collector_steps e app (({}, init_world), []) ((h, w), ps))"

lemma interleaved_tables_ok:
  assumes "interleaved e app w"
  shows "tables_ok (service app) (tables w)"
proof -
  obtain h ps where "collector_steps e app (({}, init_world), []) ((h, w), ps)"
    using assms by (auto simp: interleaved_def)
  then have "pool_ok (service app) (h, w)"
  proof (rule pool.interleave_safe)
    show "pool_ok (service app) ({}, init_world)"
      using db_inv_init [of "service app"] by (simp add: pool_ok_def tables_ok_def db_inv_def init_world_def init_db_def)
    show "ensures (service app) p (\<lambda>_ _. True) c" if "collector_thread e app p" for p c
      using that unfolding safe_def [symmetric]
      by cases (auto simp: thread_def intro: safe_intros safe_handle safe_jobs)
  qed
  then show ?thesis
    by (simp add: pool_ok_def)
qed

end
