(* ===== verification/Thread_Properties.thy ===== *)
theory Thread_Properties
  imports Interleaving Example_Run
begin

text \<open>
  What holds of a Collector whose requests and jobs interleave, and runs that show what does not.
  A schedule lists which thread makes the next call.
\<close>

subsection \<open>Schedules\<close>

fun schedule :: "nat list \<Rightarrow> world \<times> (world, exn, unit) prog list \<Rightarrow> (world \<times> (world, exn, unit) prog list) option" where
  "schedule [] c = Some c"
| "schedule (i # is) (w, ps) =
     (if i < length ps
      then case ps ! i of
             Done r \<Rightarrow> schedule is (w, ps)
           | Call g \<Rightarrow>
               (case g w of (p, t) \<Rightarrow>
                  if set (map al_id (alerts (tables w))) \<subseteq> set (map al_id (alerts (tables t)))
                  then schedule is (t, ps[i := p]) else None)
      else None)"

text \<open>While no alert is deleted, every schedule is a run of the threads.\<close>

lemma schedule_steps:
  "schedule is (w, ps) = Some (w', ps') \<Longrightarrow>
   collector_steps e app ((alert_ids w, w), ps) ((alert_ids w', w'), ps')"
proof (induction "is" "(w, ps)" arbitrary: w ps rule: schedule.induct)
  case (2 i "is" w ps)
  show ?case
  proof (cases "ps ! i")
    case (Done r)
    then show ?thesis
      using 2 by (auto split: if_splits)
  next
    case (Call g)
    obtain p t where g: "g w = (p, t)"
      by fastforce
    have i: "i < length ps" and ids: "alert_ids w \<subseteq> alert_ids t"
      and rest: "schedule is (t, ps[i := p]) = Some (w', ps')"
      using 2(3) Call g by (auto split: if_splits)
    have "interleave (collector_thread e app) new_ids_fresh remember_ids ((alert_ids w, w), ps)
        ((remember_ids (alert_ids w) t, t), ps[i := p])"
      by (rule interleave.turn [OF i Call g]) (auto simp: new_ids_fresh_def)
    moreover have "remember_ids (alert_ids w) t = alert_ids t"
      using ids by (auto simp: remember_ids_def)
    moreover have "collector_steps e app ((alert_ids t, t), ps[i := p]) ((alert_ids w', w'), ps')"
      using 2(2) [OF i Call g [symmetric]] ids rest by simp
    ultimately show ?thesis
      by (simp add: converse_rtranclp_into_rtranclp)
  qed
qed simp

lemma arrive_all:
  "\<forall>q \<in> set qs. collector_thread e app q \<Longrightarrow> collector_steps e app (c, ps) (c, ps @ qs)"
proof (induction qs arbitrary: ps)
  case (Cons q qs)
  have "interleave (collector_thread e app) new_ids_fresh remember_ids (c, ps) (c, ps @ [q])"
    using Cons.prems by (intro interleave.arrive) simp
  moreover have "collector_steps e app (c, ps @ [q]) (c, (ps @ [q]) @ qs)"
    by (rule Cons.IH) (use Cons.prems in simp)
  ultimately show ?case
    by (simp add: converse_rtranclp_into_rtranclp)
qed simp

lemma schedule_interleaved:
  assumes "\<forall>q \<in> set qs. collector_thread e app q" and "schedule is (init_world, qs) = Some (w, ps)"
  shows "interleaved e app w"
proof -
  have "collector_steps e app (({}, init_world), []) (({}, init_world), qs)"
    using arrive_all [OF assms(1), of _ "[]"] by simp
  moreover have "collector_steps e app (({}, init_world), qs) ((alert_ids w, w), ps)"
    using schedule_steps [OF assms(2), of e app] by (simp add: init_world_def init_db_def)
  ultimately show ?thesis
    unfolding interleaved_def by (meson rtranclp_trans)
qed

subsection \<open>Two requests side by side\<close>

definition ex_thread :: "int \<Rightarrow> rat \<Rightarrow> (world, exn, unit) prog" where
  "ex_thread sec v = thread (handle_calls ex_env ex_app (\<lambda>_. at_sec sec) None (ex_push sec v))"

lemma ex_thread_collector: "collector_thread ex_env ex_app (ex_thread sec v)"
  unfolding ex_thread_def by (rule collector_thread.request)

text \<open>Pushes of the example node, each in a thread of its own, under a schedule.\<close>

definition ex_pool :: "nat list \<Rightarrow> (int \<times> rat) list \<Rightarrow> (world \<times> (world, exn, unit) prog list) option" where
  "ex_pool is pushes = schedule is (init_world, map (\<lambda>(sec, v). ex_thread sec v) pushes)"

lemma ex_pool_interleaved:
  "ex_pool is pushes = Some (w, ps) \<Longrightarrow> interleaved ex_env ex_app w"
  unfolding ex_pool_def by (erule schedule_interleaved [rotated]) (auto intro: ex_thread_collector)

text \<open>
  Two requests report the same breach and both look for an open alert before either opens one; a
  third, later, escalates and remediates the alert it finds.
\<close>

definition look_first :: "nat list" where
  "look_first = [0, 0, 1, 1, 0, 1, 0, 0, 1, 1] @ replicate 12 2"

definition ex_concurrent :: "world option" where
  "ex_concurrent = map_option fst (ex_pool look_first [(0, 95), (0, 95), (2000, 97)])"

definition ex_firing :: "alert_row \<Rightarrow> bool \<times> alert_status \<times> bool \<times> datetime option" where
  "ex_firing r = (al_node_id r = ''web-1'' \<and> al_rule_key r = ''threshold:cpu.usage_percent'', al_status r,
     al_escalated_at r \<noteq> None, al_remediated_at r)"

lemma ex_concurrent_run:
  "map_option (\<lambda>w. map ex_firing (alerts (tables w))) ex_concurrent =
     Some [(True, FIRING, True, Some (utc (at_sec 2000))), (True, FIRING, False, None)]"
  by code_simp

lemma ex_concurrent_world:
  obtains w where "ex_concurrent = Some w" and "interleaved ex_env ex_app w"
    and "map ex_firing (alerts (tables w)) = [(True, FIRING, True, Some (utc (at_sec 2000))), (True, FIRING, False, None)]"
proof -
  obtain w where w: "ex_concurrent = Some w"
      "map ex_firing (alerts (tables w)) = [(True, FIRING, True, Some (utc (at_sec 2000))), (True, FIRING, False, None)]"
    using ex_concurrent_run by auto
  then obtain ps where "ex_pool look_first [(0, 95), (0, 95), (2000, 97)] = Some (w, ps)"
    by (auto simp: ex_concurrent_def)
  then have "interleaved ex_env ex_app w"
    by (rule ex_pool_interleaved)
  with w show ?thesis
    by (intro that)
qed

section \<open>Interleaved requests and jobs\<close>

text \<open>
  C19. Whatever requests and jobs run at the same time, however their calls of the repositories
  interleave and whichever statements fail, the tables stay well formed: primary keys are unique,
  every row belongs to a registered node, an alert is unresolved exactly while it fires and has an
  acknowledger exactly when it has an acknowledgement time, an audit row belongs to an alert of its
  node and rule and is complete exactly when a result or a time-out was recorded; and, with
  remediation on, an alert is remediated only after it was escalated.
\<close>

theorem interleaving_keeps_tables_well_formed:
  assumes "interleaved e app w" and "settings_ok (ap_settings app)" and "cs_remediation_enabled (ap_settings app)"
    and "d = tables w"
  shows "distinct (map nd_node_id (nodes d)) \<and> distinct (map sm_id (samples d)) \<and>
     distinct (map al_id (alerts d)) \<and> distinct (map ac_id (actions d)) \<and>
     sm_node_id ` set (samples d) \<union> al_node_id ` set (alerts d) \<union> ac_node_id ` set (actions d)
       \<subseteq> nd_node_id ` set (nodes d) \<and>
     list_all (\<lambda>r. (al_status r = FIRING \<longleftrightarrow> al_resolved_at r = None) \<and>
       (al_acknowledged_by r = None \<longleftrightarrow> al_acknowledged_at r = None) \<and>
       (al_remediated_at r \<noteq> None \<longrightarrow> al_escalated_at r \<noteq> None \<and> al_rule_kind r \<noteq> STALENESS)) (alerts d) \<and>
     list_all (\<lambda>x. list_ex (\<lambda>a. al_id a = ac_alert_id x \<and> al_node_id a = ac_node_id x \<and>
         al_rule_key a = ac_rule_key x) (alerts d) \<and>
       (ac_completed_at x = None \<longleftrightarrow> ac_status x \<in> {BLOCKED_BY_SAFETY_LIMIT, DISPATCHED})) (actions d)"
proof -
  have ok: "tables_ok (service app) d"
    unfolding assms(4) by (rule interleaved_tables_ok [OF assms(1)])
  have "fle (cs_escalation_after_seconds (ap_settings app)) (cs_remediation_after_seconds (ap_settings app))"
    using assms(2,3) by (simp add: settings_ok_def)
  then have "list_all (\<lambda>r. (al_status r = FIRING \<longleftrightarrow> al_resolved_at r = None) \<and>
       (al_acknowledged_by r = None \<longleftrightarrow> al_acknowledged_at r = None) \<and>
       (al_remediated_at r \<noteq> None \<longrightarrow> al_escalated_at r \<noteq> None \<and> al_rule_kind r \<noteq> STALENESS)) (alerts d)"
    using ok by (fastforce simp: tables_ok_def alert_ok_def list_all_iff)
  moreover have "list_ex (\<lambda>a. al_id a = ac_alert_id x \<and> al_node_id a = ac_node_id x \<and> al_rule_key a = ac_rule_key x) (alerts d)"
    if "x \<in> set (actions d)" for x
    using tables_ok_refs [OF ok that] by (auto simp: list_ex_iff refers_def)
  ultimately show ?thesis
    using ok by (simp add: tables_ok_def keys_ok_def refs_ok_def list_all_iff action_ok_def)
qed

theorem interleaving_keeps_tables_well_formed_witness:
  "\<exists>w. ex_concurrent = Some w \<and>
     list_all (\<lambda>r. al_remediated_at r \<noteq> None \<longrightarrow> al_escalated_at r \<noteq> None) (alerts (tables w)) \<and>
     map (\<lambda>r. al_remediated_at r \<noteq> None) (alerts (tables w)) = [True, False]"
proof -
  obtain w where w: "ex_concurrent = Some w" "interleaved ex_env ex_app w"
      "map ex_firing (alerts (tables w)) = [(True, FIRING, True, Some (utc (at_sec 2000))), (True, FIRING, False, None)]"
    by (rule ex_concurrent_world)
  have "list_all (\<lambda>r. al_remediated_at r \<noteq> None \<longrightarrow> al_escalated_at r \<noteq> None) (alerts (tables w))"
    using interleaving_keeps_tables_well_formed [OF w(2) ex_app_ok refl] by (simp add: list_all_iff)
  moreover have "map (\<lambda>r. al_remediated_at r \<noteq> None) (alerts (tables w)) = [True, False]"
    using w(3) by (auto simp: ex_firing_def map_eq_Cons_conv)
  ultimately show ?thesis
    using w(1) by (intro exI [of _ w] conjI)
qed

section \<open>What interleaving breaks\<close>

text \<open>
  \<open>_apply\<close> looks for an open alert and then opens one: two requests that both look first leave two
  firing alerts of one rule and node.
\<close>

lemma interleaved_requests_open_two_alerts:
  "\<exists>w. interleaved ex_env ex_app w \<and> map al_status (alerts (tables w)) = [FIRING, FIRING] \<and>
     list_all (\<lambda>r. al_node_id r = ''web-1'' \<and> al_rule_key r = ''threshold:cpu.usage_percent'') (alerts (tables w))"
proof -
  obtain w where w: "interleaved ex_env ex_app w"
      "map ex_firing (alerts (tables w)) = [(True, FIRING, True, Some (utc (at_sec 2000))), (True, FIRING, False, None)]"
    by (rule ex_concurrent_world)
  then show ?thesis
    by (intro exI [of _ w]) (auto simp: ex_firing_def map_eq_Cons_conv)
qed

text \<open>
  The cooldown and the hourly cap are checked before an action is recorded: two requests that both
  check first dispatch the Playbook of one alert twice at the same time.
\<close>

definition check_first :: "nat list" where
  "check_first = replicate 5 0 @ replicate 8 1 @ replicate 6 2 @ [1, 2, 1, 2]"

definition ex_dispatch :: "action_row \<Rightarrow> int \<times> action_status \<times> datetime" where
  "ex_dispatch a = (ac_alert_id a, ac_status a, ac_created_at a)"

lemma ex_double_run:
  "map_option (\<lambda>(w, ps). map ex_dispatch (actions (tables w))) (ex_pool check_first [(0, 95), (2000, 97), (2000, 97)]) =
   Some [(1, DISPATCHED, utc (at_sec 2000)), (1, DISPATCHED, utc (at_sec 2000))]"
  by code_simp

lemma interleaved_requests_break_cooldown:
  "\<exists>w. interleaved ex_env ex_app w \<and>
     map ex_dispatch (actions (tables w)) = [(1, DISPATCHED, utc (at_sec 2000)), (1, DISPATCHED, utc (at_sec 2000))]"
proof -
  obtain w ps where "ex_pool check_first [(0, 95), (2000, 97), (2000, 97)] = Some (w, ps)"
      and "map ex_dispatch (actions (tables w)) =
        [(1, DISPATCHED, utc (at_sec 2000)), (1, DISPATCHED, utc (at_sec 2000))]"
    using ex_double_run by auto
  then show ?thesis
    by (intro exI [of _ w] conjI) (rule ex_pool_interleaved)
qed

end
