(* ===== verification/Policy_Properties.thy ===== *)
theory Policy_Properties
  imports Example_Process Ingestion_Healthy
begin

text \<open>
  The configuration and what it governs: when a Collector starts, which remediation policies are
  accepted and what they let into the audit log, the well-formedness of the tables, the decision
  of the engine, and the results of the rules.
\<close>

section \<open>Start-up\<close>




section \<open>The remediation policy\<close>

text \<open>
  C23. A remediation policy is accepted exactly if no two Playbooks answer the same rule, none
  restarts a service and every one that clears a directory names a path that is not blank; the
  engine then answers a rule with the Playbook configured for it and no other.
\<close>

theorem policy_accepted_iff:
  "(validate_playbooks pbs = Inr pbs \<longleftrightarrow>
     distinct (map pb_rule_key pbs) \<and>
     list_all (\<lambda>pb. pb_action_type pb \<noteq> RESTART_SERVICE \<and>
       (pb_action_type pb = CLEAR_DIRECTORY \<longrightarrow> strip (dict_get (pb_parameters pb) ''path'' []) \<noteq> [])) pbs) \<and>
   (validate_playbooks pbs = Inr pbs \<longrightarrow>
     en_by_rule_key (RemediationEngine pbs enabled max_actions cooldown) k = Some pb \<longleftrightarrow>
       pb \<in> set pbs \<and> pb_rule_key pb = k)"
proof -
  have "validate_action_parameters pb = Inr () \<longleftrightarrow> pb_action_type pb \<noteq> RESTART_SERVICE \<and>
      (pb_action_type pb = CLEAR_DIRECTORY \<longrightarrow> strip (dict_get (pb_parameters pb) ''path'' []) \<noteq> [])" for pb
    by (auto simp: validate_action_parameters_def)
  then show ?thesis
    by (auto simp: validate_playbooks_ok list_all_iff RemediationEngine_def map_of_rev_key)
qed

theorem policy_accepted_iff_witness:
  "en_by_rule_key (RemediationEngine ex_policy True 3 (Fin 1800)) ''threshold:cpu.usage_percent'' = Some (hd ex_policy)"
proof -
  have "validate_playbooks ex_policy = Inr ex_policy"
    by code_simp
  moreover have "hd ex_policy \<in> set ex_policy" "pb_rule_key (hd ex_policy) = ''threshold:cpu.usage_percent''"
    by (simp_all add: ex_policy_def)
  ultimately show ?thesis
    using policy_accepted_iff [of ex_policy True 3 "Fin 1800" "''threshold:cpu.usage_percent''" "hd ex_policy"] by blast
qed

text \<open>
  C24. Under an accepted policy every row of the audit log, in every reachable state, comes from a
  configured Playbook for its rule, so no service restart and no unnamed directory is ever
  dispatched, and it belongs to an alert that still exists, of the same node and rule; it is
  complete exactly when a result or a time-out was recorded.
\<close>

theorem audit_rows_come_from_policy:
  assumes "reachable e app p" and "settings_ok (ap_settings app)"
    and "validate_playbooks (ap_remediation_policy app) = Inr (ap_remediation_policy app)"
    and "x \<in> set (actions (tables (pr_world p)))"
  shows "(\<exists>pb \<in> set (ap_remediation_policy app). pb_rule_key pb = ac_rule_key x \<and>
      ac_playbook_name x = pb_playbook_name pb \<and> ac_action_type x = pb_action_type pb \<and>
      ac_parameters x = pb_parameters pb) \<and>
    ac_action_type x \<noteq> RESTART_SERVICE \<and>
    (ac_action_type x = CLEAR_DIRECTORY \<longrightarrow> strip (dict_get (ac_parameters x) ''path'' []) \<noteq> []) \<and>
    (\<exists>a \<in> set (alerts (tables (pr_world p))). al_id a = ac_alert_id x \<and> al_node_id a = ac_node_id x \<and>
      al_rule_key a = ac_rule_key x) \<and>
    (ac_completed_at x = None \<longleftrightarrow> ac_status x \<in> {BLOCKED_BY_SAFETY_LIMIT, DISPATCHED})"
proof -
  have inv: "db_inv (service app) (tables (pr_world p))"
    using assms(1,2) by (rule reachable_inv)
  then have x: "action_ok (service app) x" "\<exists>a \<in> set (alerts (tables (pr_world p))). refers x a"
    using assms(4) by (auto simp: db_inv_def refs_ok_def)
  have pol: "distinct (map pb_rule_key (ap_remediation_policy app))"
      "\<And>pb. pb \<in> set (ap_remediation_policy app) \<Longrightarrow> validate_action_parameters pb = Inr ()"
    using assms(3) by (simp_all add: validate_playbooks_ok)
  obtain pb where pb: "pb \<in> set (ap_remediation_policy app)" "pb_rule_key pb = ac_rule_key x"
      "ac_playbook_name x = pb_playbook_name pb" "ac_action_type x = pb_action_type pb"
      "ac_parameters x = pb_parameters pb"
    using x(1) pol(1)
    by (auto simp: action_ok_def from_playbook_def get_remediation_engine_def RemediationEngine_def map_of_rev_key)
  moreover have "pb_action_type pb \<noteq> RESTART_SERVICE"
      "pb_action_type pb = CLEAR_DIRECTORY \<longrightarrow> strip (dict_get (pb_parameters pb) ''path'' []) \<noteq> []"
    using pol(2) [OF pb(1)] by (auto simp: validate_action_parameters_def split: if_splits)
  ultimately show ?thesis
    using x by (auto simp: action_ok_def refers_def)
qed

theorem audit_rows_come_from_policy_witness:
  "list_all (\<lambda>x. ac_action_type x \<noteq> RESTART_SERVICE) (actions (tables (pr_world ex_process)))"
proof -
  have "validate_playbooks (ap_remediation_policy ex_app) = Inr (ap_remediation_policy ex_app)"
    by code_simp
  then show ?thesis
    using audit_rows_come_from_policy [OF ex_process_reachable ex_app_ok(1)] by (auto simp: list_all_iff)
qed

text \<open>
  C25. The tables are well formed in every reachable state: primary keys are unique, every sample,
  alert and action belongs to a registered node, an alert is unresolved exactly while it fires,
  and it has an acknowledger exactly when it has an acknowledgement time.
\<close>

theorem tables_well_formed:
  assumes "reachable e app p" and "settings_ok (ap_settings app)" and "d = tables (pr_world p)"
  shows "distinct (map nd_node_id (nodes d)) \<and> distinct (map sm_id (samples d)) \<and>
     distinct (map al_id (alerts d)) \<and> distinct (map ac_id (actions d)) \<and>
     sm_node_id ` set (samples d) \<union> al_node_id ` set (alerts d) \<union> ac_node_id ` set (actions d)
       \<subseteq> nd_node_id ` set (nodes d) \<and>
     list_all (\<lambda>r. (al_status r = FIRING \<longleftrightarrow> al_resolved_at r = None) \<and>
       (al_acknowledged_by r = None \<longleftrightarrow> al_acknowledged_at r = None)) (alerts d)"
  using reachable_inv [OF assms(1,2)] unfolding assms(3)
  by (auto simp: db_inv_def keys_ok_def refs_ok_def alert_ok_def list_all_iff)

theorem tables_well_formed_witness:
  "distinct (map al_id (alerts (tables (pr_world ex_process))))"
  using tables_well_formed [OF ex_process_reachable ex_app_ok(1) refl] by blast

text \<open>
  C26. A decision, when remediation is on, a Playbook answers the rule, node and alert exist and
  no statement fails: one row is added to the audit log, made from that Playbook, and it is a
  dispatch exactly if every earlier action of the node and Playbook is at least a cooldown old and
  fewer than the maximum of the node's actions lie in the last hour; otherwise it is recorded as
  blocked with its reason.
\<close>

theorem dispatch_iff_safe:
  assumes "no_faults e" and "ready now" and "en_enabled eng" and "en_by_rule_key eng k = Some pb"
    and "n \<in> nd_node_id ` set (nodes (tables w))" and "i \<in> al_id ` set (alerts (tables w))"
  shows "\<exists>row w'. decide (sql_action_repository e) eng n i k now w = (Inr (Some (action_to_record row)), w') \<and>
     tables w' = (tables w)\<lparr>actions := actions (tables w) @ [row]\<rparr> \<and> outbox w' = outbox w \<and>
     ac_node_id row = n \<and> ac_alert_id row = i \<and> ac_playbook_name row = pb_playbook_name pb \<and>
     ac_action_type row = pb_action_type pb \<and> ac_parameters row = pb_parameters pb \<and>
     ac_created_at row = now \<and> ac_status row \<in> {DISPATCHED, BLOCKED_BY_SAFETY_LIMIT} \<and>
     (ac_reason row = None \<longleftrightarrow> ac_status row = DISPATCHED) \<and>
     (ac_status row = DISPATCHED \<longleftrightarrow>
        list_all (\<lambda>r. ac_node_id r = n \<and> ac_playbook_name r = pb_playbook_name pb \<longrightarrow>
          \<not> flt (total_seconds (us now - us (ac_created_at r))) (en_cooldown_seconds eng)) (actions (tables w)) \<and>
        int (length (filter (\<lambda>r. ac_node_id r = n \<and> us now - one_hour \<le> us (ac_created_at r)) (actions (tables w))))
          < en_max_actions_per_node_per_hour eng)"
proof -
  have "wp (decide (sql_action_repository e) eng n i k now)
     (\<lambda>v w'. \<exists>row. v = Some (action_to_record row) \<and>
       tables w' = (tables w)\<lparr>actions := actions (tables w) @ [row]\<rparr> \<and> outbox w' = outbox w \<and>
       ac_node_id row = n \<and> ac_alert_id row = i \<and> ac_playbook_name row = pb_playbook_name pb \<and>
       ac_action_type row = pb_action_type pb \<and> ac_parameters row = pb_parameters pb \<and>
       ac_created_at row = now \<and> ac_status row \<in> {DISPATCHED, BLOCKED_BY_SAFETY_LIMIT} \<and>
       (ac_reason row = None \<longleftrightarrow> ac_status row = DISPATCHED) \<and>
       (ac_status row = DISPATCHED \<longleftrightarrow> safe_to_dispatch eng n (pb_playbook_name pb) now (actions (tables w))))
     (\<lambda>_ _. False) w"
    by (rule sql_log.decide_rule) (use assms in \<open>auto simp: new_action_def\<close>)
  then show ?thesis
    unfolding wp_def safe_to_dispatch_def cooldown_clear_def hour_clear_def list_all_iff
    by (simp split: prod.splits sum.splits)
qed

theorem dispatch_iff_safe_witness:
  "\<exists>row w'. decide (sql_action_repository ex_env) (get_remediation_engine ex_app) ''web-1'' 1 ex_key (utc (at_sec 1800))
     (pr_world ex_first) = (Inr (Some (action_to_record row)), w') \<and> ac_playbook_name row = ''cpu_noop''"
proof -
  have facts: "map nd_node_id (nodes (tables (pr_world ex_first))) = [''web-1'']"
      "map al_id (alerts (tables (pr_world ex_first))) = [1]"
    by code_simp+
  then have "''web-1'' \<in> nd_node_id ` set (nodes (tables (pr_world ex_first)))"
      "1 \<in> al_id ` set (alerts (tables (pr_world ex_first)))"
    by (metis list.set_intros(1) list.set_map)+
  moreover have "ready (utc (at_sec 1800))"
    by (simp add: ready_def at_sec_def one_hour_def max_us_def)
  moreover have "en_enabled (get_remediation_engine ex_app)" "en_by_rule_key (get_remediation_engine ex_app) ex_key = Some (hd ex_policy)"
    by (simp_all add: get_remediation_engine_def RemediationEngine_def ex_app_def ex_settings_def ex_policy_def ex_key_def)
  ultimately show ?thesis
    using dispatch_iff_safe [OF ex_no_faults, of "utc (at_sec 1800)" "get_remediation_engine ex_app" ex_key "hd ex_policy"
        "''web-1''" "pr_world ex_first" 1] by (fastforce simp: ex_policy_def)
qed

section \<open>Rule evaluation\<close>



lemma sm_value_record [simp]: "sm_value (sample_to_record r) = sm_value r"
  by (simp add: sample_to_record_def)




section \<open>Two notions of silence\<close>



end
