(* ===== verification/Agent_World.thy ===== *)
theory Agent_World
  imports Domain
begin

text \<open>
  What an Agent process acts on. Its state holds the buffer file and its temporary neighbour, the
  directories of the node, a counter of file operations, one of psutil calls and one of clock
  readings, and the network with whatever lies behind it, a type parameter. Everything the
  operating system, the network, psutil, pydantic and tenacity decide is in the record
  \<open>agent_env\<close>; nothing is assumed of these choices here.
\<close>

text \<open>The contents of a file: text, as its UTF-8 encoding, or bytes that are not UTF-8.\<close>

datatype stored = Utf8 string | NotUtf8

text \<open>An entry of the file system; a link carries the resolved path it leads to.\<close>

datatype fnode = FileNode | DirNode | LinkNode string

type_synonym file_system = "(string \<times> fnode) list"

text \<open>The requests the Agent makes: where, with which headers, and the body before it is encoded.\<close>

datatype json_body = PayloadBody payload | ResultBody action_result

record http_request =
  rq_base_url :: string
  rq_endpoint :: string
  rq_headers :: dict
  rq_body :: json_body

record 'n agent =
  ag_buffer :: "stored option"
  ag_tmp :: "stored option"
  ag_fs :: file_system
  ag_io :: nat
  ag_psutil :: nat
  ag_ticks :: nat
  ag_net :: 'n

text \<open>What psutil reports: percentages are floats, sizes and counters are ints.\<close>

record memory_info =
  vm_percent :: pyfloat
  vm_used :: int
  vm_available :: int

record disk_info =
  du_percent :: pyfloat
  du_used :: int
  du_free :: int

record net_info =
  ni_bytes_sent :: int
  ni_bytes_recv :: int

text \<open>
  \<open>io_fails n\<close>: the \<open>n\<close>-th file operation raises an \<open>OSError\<close>; \<open>torn n\<close>: what a write that fails
  then leaves in the file; \<open>spared n\<close>: which entries below a directory a recursive removal that
  fails then leaves. \<open>dump_json\<close> and \<open>parse_json\<close> are pydantic's for a payload, \<open>parse_ack\<close> for an
  acknowledgement, \<open>None\<close> being its \<open>ValidationError\<close>. \<open>http_post\<close> is one exchange on the network.
  The two \<open>retry\<close> fields are tenacity's wrapper with the policy of the constructor, applied to the
  number of attempts and the call.
\<close>

record 'n agent_env =
  io_fails :: "nat \<Rightarrow> bool"
  torn :: "nat \<Rightarrow> stored"
  spared :: "nat \<Rightarrow> string \<Rightarrow> bool"
  dump_json :: "payload \<Rightarrow> string"
  parse_json :: "string \<Rightarrow> payload option"
  parse_ack :: "string \<Rightarrow> ack option"
  http_post :: "http_request \<Rightarrow> 'n \<Rightarrow> http_outcome \<times> 'n"
  retry_send :: "int \<Rightarrow> ('n agent, exn, ack) comp \<Rightarrow> ('n agent, exn, ack) comp"
  retry_report :: "int \<Rightarrow> ('n agent, exn, unit) comp \<Rightarrow> ('n agent, exn, unit) comp"
  cpu_percent :: "nat \<Rightarrow> exn + pyfloat"
  virtual_memory :: "nat \<Rightarrow> exn + memory_info"
  disk_usage :: "nat \<Rightarrow> string \<Rightarrow> exn + disk_info"
  net_io_counters :: "nat \<Rightarrow> exn + net_info"
  wall_clock :: "nat \<Rightarrow> int"
  exn_str :: "exn \<Rightarrow> string"

text \<open>A file operation: it raises, or has its effect and result.\<close>

definition file_op :: "'n agent_env \<Rightarrow> ('n agent \<Rightarrow> 'n agent) \<Rightarrow> ('n agent \<Rightarrow> (exn + 'a) \<times> 'n agent) \<Rightarrow> ('n agent, exn, 'a) comp" where
  "file_op e broken act = (\<lambda>s.
     let n = ag_io s; s' = s\<lparr>ag_io := Suc n\<rparr>
     in if io_fails e n then (Inl (OSErr ''input/output error''), broken s') else act s')"

definition is_os_error :: "exn \<Rightarrow> bool" where
  "is_os_error x \<longleftrightarrow> (\<exists>m. x = OSErr m)"

lemma is_os_error_simps [simp]: "is_os_error (OSErr m)" "\<not> is_os_error UnicodeDecodeErr"
  by (simp_all add: is_os_error_def)

definition no_io_faults :: "'n agent_env \<Rightarrow> bool" where
  "no_io_faults e \<longleftrightarrow> (\<forall>n. \<not> io_fails e n)"

lemma wp_file_op:
  "wp (file_op e broken act) Q E s =
     (if io_fails e (ag_io s) then E (OSErr ''input/output error'') (broken (s\<lparr>ag_io := Suc (ag_io s)\<rparr>))
      else case act (s\<lparr>ag_io := Suc (ag_io s)\<rparr>) of (Inl x, t) \<Rightarrow> E x t | (Inr v, t) \<Rightarrow> Q v t)"
  by (simp add: wp_def file_op_def Let_def)

end
