(* ===== verification/File_Buffer.thy ===== *)
theory File_Buffer
  imports Agent_World
begin

text \<open>
  \<open>agent/buffer.py\<close>: the bounded buffer of payloads in a file of one JSON document per line. The
  locale \<open>metrics_buffer\<close> is what the Agent's scheduler may rely on (the Protocol of
  \<open>shared/protocols.py\<close>): a bounded queue, oldest first, that loses its oldest entries when it is
  full. The file buffer provides it as long as file operations succeed and pydantic's documents
  come back as they were; what it does when file operations fail is stated separately.
\<close>

record file_buffer =
  fb_max_entries :: int

definition read_text :: "'n agent_env \<Rightarrow> ('n agent, exn, string) comp" where
  "read_text e = file_op e id (\<lambda>s.
     case ag_buffer s of
       None \<Rightarrow> (Inl (OSErr ''no such file''), s)
     | Some NotUtf8 \<Rightarrow> (Inl UnicodeDecodeErr, s)
     | Some (Utf8 t) \<Rightarrow> (Inr t, s))"

text \<open>The loop over the lines: blank lines and lines that do not parse are skipped.\<close>

fun parse_lines :: "'n agent_env \<Rightarrow> string list \<Rightarrow> payload list" where
  "parse_lines e [] = []"
| "parse_lines e (line # lines) =
     (if strip line = [] then parse_lines e lines
      else case parse_json e line of
             None \<Rightarrow> parse_lines e lines
           | Some p \<Rightarrow> p # parse_lines e lines)"

definition read_all :: "'n agent_env \<Rightarrow> ('n agent, exn, payload list) comp" where
  "read_all e =
     seq (attempt (seq (read_text e) (\<lambda>t. ret (Some (splitlines t))))
            (\<lambda>x. if is_os_error x then ret None else raise x)) (\<lambda>lines.
     case lines of None \<Rightarrow> ret [] | Some ls \<Rightarrow> ret (parse_lines e ls))"

text \<open>The serialisation, and the two file operations of \<open>_write_all\<close>.\<close>

fun join_lines :: "string list \<Rightarrow> string" where
  "join_lines [] = []"
| "join_lines [x] = x"
| "join_lines (x # y # ys) = x @ CHR 0x0A # join_lines (y # ys)"

definition serialize :: "'n agent_env \<Rightarrow> payload list \<Rightarrow> string" where
  "serialize e entries = join_lines (map (dump_json e) entries) @ (if entries \<noteq> [] then [CHR 0x0A] else [])"

definition write_tmp :: "'n agent_env \<Rightarrow> string \<Rightarrow> ('n agent, exn, unit) comp" where
  "write_tmp e content = (\<lambda>s.
     file_op e (\<lambda>s'. s'\<lparr>ag_tmp := Some (torn e (ag_io s))\<rparr>)
       (\<lambda>s'. (Inr (), s'\<lparr>ag_tmp := Some (Utf8 content)\<rparr>)) s)"

definition replace_buffer :: "'n agent_env \<Rightarrow> ('n agent, exn, unit) comp" where
  "replace_buffer e = file_op e id (\<lambda>s.
     case ag_tmp s of
       None \<Rightarrow> (Inl (OSErr ''no such file''), s)
     | Some f \<Rightarrow> (Inr (), s\<lparr>ag_buffer := Some f, ag_tmp := None\<rparr>))"

definition write_all :: "'n agent_env \<Rightarrow> payload list \<Rightarrow> ('n agent, exn, unit) comp" where
  "write_all e entries =
     attempt (seq (write_tmp e (serialize e entries)) (\<lambda>_. replace_buffer e))
       (\<lambda>x. if is_os_error x then ret () else raise x)"

definition enqueue :: "'n agent_env \<Rightarrow> file_buffer \<Rightarrow> payload \<Rightarrow> ('n agent, exn, unit) comp" where
  "enqueue e b p =
     seq (read_all e) (\<lambda>old.
     let entries = old @ [p];
         kept = (if fb_max_entries b < int (length entries)
                 then drop (nat (int (length entries) - fb_max_entries b)) entries else entries)
     in write_all e kept)"

definition drain_buffer_file :: "'n agent_env \<Rightarrow> int \<Rightarrow> ('n agent, exn, payload list) comp" where
  "drain_buffer_file e max_items =
     seq (read_all e) (\<lambda>entries.
     seq (write_all e (py_drop max_items entries)) (\<lambda>_. ret (py_take max_items entries)))"

definition buffer_len :: "'n agent_env \<Rightarrow> ('n agent, exn, int) comp" where
  "buffer_len e = seq (read_all e) (\<lambda>entries. ret (int (length entries)))"

text \<open>The constructor: the parent directory is made, and the file if it is not there.\<close>

definition FileBuffer :: "'n agent_env \<Rightarrow> int \<Rightarrow> ('n agent, exn, file_buffer) comp" where
  "FileBuffer e max_entries =
     seq (file_op e id (\<lambda>s. (Inr (), s))) (\<lambda>_.
     seq (reads (\<lambda>s. ag_buffer s = None)) (\<lambda>missing.
     seq (if missing then file_op e id (\<lambda>s. (Inr (), s\<lparr>ag_buffer := Some (Utf8 [])\<rparr>)) else ret ()) (\<lambda>_.
     ret \<lparr>fb_max_entries = max_entries\<rparr>)))"

subsection \<open>Lines come back\<close>

lemma join_lines_newline:
  "join_lines xs @ (if xs \<noteq> [] then [CHR 0x0A] else []) = concat (map (\<lambda>x. x @ [CHR 0x0A]) xs)"
  by (induction xs rule: join_lines.induct) auto

lemma serialize_lines: "serialize e entries = concat (map (\<lambda>p. dump_json e p @ [CHR 0x0A]) entries)"
  using join_lines_newline [of "map (dump_json e) entries"] by (simp add: serialize_def comp_def)

text \<open>
  What the buffer needs of pydantic for a payload: the document is read back as the payload, it is
  an object, and it contains none of the characters at which \<open>splitlines\<close> would break it.
\<close>

definition comes_back :: "'n agent_env \<Rightarrow> payload \<Rightarrow> bool" where
  "comes_back e p \<longleftrightarrow> parse_json e (dump_json e p) = Some p \<and> CHR ''{'' \<in> set (dump_json e p) \<and>
     unbroken (dump_json e p)"

lemma parse_lines_dump:
  "list_all (comes_back e) ps \<Longrightarrow> parse_lines e (map (dump_json e) ps) = ps"
  by (induction ps) (auto simp: comes_back_def strip_nonblank)

lemma serialize_comes_back:
  assumes "list_all (comes_back e) ps"
  shows "parse_lines e (splitlines (serialize e ps)) = ps"
proof -
  have "list_all unbroken (map (dump_json e) ps)"
    using assms by (auto simp: list_all_iff comes_back_def)
  then have "splitlines (concat (map (\<lambda>x. x @ [CHR 0x0A]) (map (dump_json e) ps))) = map (dump_json e) ps"
    by (rule splitlines_lines)
  then show ?thesis
    using parse_lines_dump [OF assms] by (simp add: serialize_lines comp_def)
qed

subsection \<open>The interface\<close>

text \<open>The newest \<open>n\<close> entries, the oldest of them first.\<close>

definition newest :: "nat \<Rightarrow> 'a list \<Rightarrow> 'a list" where
  "newest n xs = drop (length xs - n) xs"

lemma length_newest [simp]: "length (newest n xs) = min n (length xs)"
  by (simp add: newest_def)

lemma newest_all: "length xs \<le> n \<Longrightarrow> newest n xs = xs"
  by (simp add: newest_def)

lemma newest_append: "newest n (newest n xs @ ys) = newest n (xs @ ys)"
proof (cases "length xs \<le> n")
  case False
  then have "newest n (newest n xs @ ys) = drop (length ys) (drop (length xs - n) (xs @ ys))"
    by (simp add: newest_def)
  also have "\<dots> = newest n (xs @ ys)"
    using False by (simp add: newest_def drop_drop add.commute)
  finally show ?thesis .
qed (simp add: newest_all)

lemma set_newest: "set (newest n xs) \<subseteq> set xs"
  by (auto simp: newest_def dest: in_set_dropD)

lemma drop_excess: "drop (nat (int (length xs) - m)) xs = newest (nat m) xs"
  by (cases "0 \<le> m") (auto simp: newest_def nat_diff_distrib')

text \<open>
  What a client asks of a buffer, one operation after the other, and what a bounded queue answers:
  the payloads each operation returns, and the queue at the end.
\<close>

datatype buffer_op = Enqueue payload | Drain int

primrec spec_op :: "nat \<Rightarrow> buffer_op \<Rightarrow> payload list \<Rightarrow> payload list \<times> payload list" where
  "spec_op cap (Enqueue p) q = ([], newest cap (q @ [p]))"
| "spec_op cap (Drain k) q = (take (nat k) q, drop (nat k) q)"

fun spec_ops :: "nat \<Rightarrow> buffer_op list \<Rightarrow> payload list \<Rightarrow> payload list list \<times> payload list" where
  "spec_ops cap [] q = ([], q)"
| "spec_ops cap (a # as) q =
     (case spec_op cap a q of (v, q1) \<Rightarrow> (case spec_ops cap as q1 of (vs, q2) \<Rightarrow> (v # vs, q2)))"

primrec op_fits :: "(payload \<Rightarrow> bool) \<Rightarrow> buffer_op \<Rightarrow> bool" where
  "op_fits fits (Enqueue p) = fits p"
| "op_fits fits (Drain k) = (0 \<le> k)"

primrec run_op ::
    "(payload \<Rightarrow> ('s, exn, unit) comp) \<Rightarrow> (int \<Rightarrow> ('s, exn, payload list) comp) \<Rightarrow> buffer_op \<Rightarrow>
     ('s, exn, payload list) comp" where
  "run_op enq drn (Enqueue p) = seq (enq p) (\<lambda>_. ret [])"
| "run_op enq drn (Drain k) = drn k"

lemma length_spec_ops: "length (snd (spec_ops cap as q)) \<le> max cap (length q)"
proof (induction as arbitrary: q)
  case (Cons a as)
  show ?case
    using Cons [of "snd (spec_op cap a q)"] by (cases a) (auto split: prod.splits)
qed simp

locale metrics_buffer =
  fixes enq :: "payload \<Rightarrow> ('s, exn, unit) comp"
    and drn :: "int \<Rightarrow> ('s, exn, payload list) comp"
    and cap :: nat
    and ok :: "'s \<Rightarrow> bool"
    and fits :: "payload \<Rightarrow> bool"
    and queued :: "'s \<Rightarrow> payload list"
    and rest :: "'s \<Rightarrow> 'r"
  assumes enq_law: "ok s \<Longrightarrow> fits p \<Longrightarrow>
      wp (enq p) (\<lambda>_ t. ok t \<and> rest t = rest s \<and>
          queued t = newest cap (queued s @ [p])) (\<lambda>_ _. False) s"
    and drn_law: "ok s \<Longrightarrow> 0 \<le> k \<Longrightarrow>
      wp (drn k) (\<lambda>v t. ok t \<and> rest t = rest s \<and> v = take (nat k) (queued s) \<and>
          queued t = drop (nat k) (queued s)) (\<lambda>_ _. False) s"
    and queued_fit: "ok s \<Longrightarrow> list_all fits (queued s)"
begin

text \<open>Any sequence of operations is answered as the bounded queue answers it.\<close>

lemma ops_law:
  assumes "ok s" and "list_all (op_fits fits) as"
  shows "wp (for_each (run_op enq drn) as)
     (\<lambda>vs t. ok t \<and> rest t = rest s \<and> spec_ops cap as (queued s) = (vs, queued t)) (\<lambda>_ _. False) s"
  using assms
proof (induction as arbitrary: s)
  case Nil
  then show ?case by (simp add: wp_simps)
next
  case (Cons a as)
  have one: "wp (run_op enq drn a) (\<lambda>v t. ok t \<and> rest t = rest s \<and> spec_op cap a (queued s) = (v, queued t)) (\<lambda>_ _. False) s"
    using Cons.prems by (cases a) (auto simp: wp_simps intro!: wp_mono [OF enq_law] wp_mono [OF drn_law])
  show ?case
    unfolding for_each.simps wp_seq wp_ret
  proof (rule wp_mono [OF one])
    fix v t
    assume t: "ok t \<and> rest t = rest s \<and> spec_op cap a (queued s) = (v, queued t)"
    then show "wp (for_each (run_op enq drn) as) (\<lambda>vs u. ok u \<and> rest u = rest s \<and>
        spec_ops cap (a # as) (queued s) = (v # vs, queued u)) (\<lambda>_ _. False) t"
      using Cons.prems by (intro wp_mono [OF Cons.IH]) auto
  qed simp
qed

text \<open>Putting several payloads in: the newest of all of them stay.\<close>

lemma enq_all:
  assumes "ok s" and "list_all fits ps" and "ps \<noteq> [] \<or> length (queued s) \<le> cap"
  shows "wp (for_each enq ps) (\<lambda>_ t. ok t \<and> rest t = rest s \<and> queued t = newest cap (queued s @ ps)) (\<lambda>_ _. False) s"
  using assms
proof (induction ps arbitrary: s)
  case Nil
  then show ?case by (simp add: wp_simps newest_all)
next
  case (Cons p ps)
  have p: "fits p" "list_all fits ps"
    using Cons.prems(2) by simp_all
  show ?case
    unfolding for_each.simps wp_seq wp_ret
  proof (rule wp_mono [OF enq_law [OF Cons.prems(1) p(1)]])
    fix t
    assume t: "ok t \<and> rest t = rest s \<and> queued t = newest cap (queued s @ [p])"
    then show "wp (for_each enq ps) (\<lambda>_ u. ok u \<and> rest u = rest s \<and>
        queued u = newest cap (queued s @ p # ps)) (\<lambda>_ _. False) t"
      using Cons.IH [of t] p(2) newest_append [of cap "queued s @ [p]" ps] by simp
  qed simp
qed

end

subsection \<open>The file buffer provides it\<close>

text \<open>What the file holds, as the buffer reads it.\<close>

definition entries :: "'n agent_env \<Rightarrow> 'n agent \<Rightarrow> payload list" where
  "entries e s = (case ag_buffer s of Some (Utf8 t) \<Rightarrow> parse_lines e (splitlines t) | _ \<Rightarrow> [])"

definition sound :: "'n agent_env \<Rightarrow> 'n agent \<Rightarrow> bool" where
  "sound e s \<longleftrightarrow> no_io_faults e \<and> (\<exists>t. ag_buffer s = Some (Utf8 t)) \<and> list_all (comes_back e) (entries e s)"

definition besides :: "'n agent \<Rightarrow> file_system \<times> nat \<times> nat \<times> 'n" where
  "besides s = (ag_fs s, ag_psutil s, ag_ticks s, ag_net s)"

lemma read_all_sound:
  assumes "sound e s"
  shows "read_all e s = (Inr (entries e s), s\<lparr>ag_io := Suc (ag_io s)\<rparr>)"
  using assms by (auto simp: sound_def no_io_faults_def read_all_def read_text_def file_op_def entries_def run_defs Let_def)

lemma write_all_sound:
  assumes "no_io_faults e" and "list_all (comes_back e) ps"
  shows "\<exists>t. write_all e ps s = (Inr (), t) \<and> sound e t \<and> entries e t = ps \<and> besides t = besides s"
  using assms serialize_comes_back [OF assms(2)]
  by (auto simp: no_io_faults_def write_all_def write_tmp_def replace_buffer_def file_op_def run_defs Let_def
      sound_def entries_def besides_def)

lemma sound_io [simp]: "sound e (s\<lparr>ag_io := n\<rparr>) = sound e s" "entries e (s\<lparr>ag_io := n\<rparr>) = entries e s"
    "besides (s\<lparr>ag_io := n\<rparr>) = besides s"
  by (simp_all add: sound_def entries_def besides_def)

lemma enqueue_sound:
  assumes "sound e s" and "comes_back e p"
  shows "\<exists>t. enqueue e b p s = (Inr (), t) \<and> sound e t \<and>
     entries e t = newest (nat (fb_max_entries b)) (entries e s @ [p]) \<and> besides t = besides s"
proof -
  let ?all = "entries e s @ [p]"
  let ?kept = "if fb_max_entries b < int (length ?all) then drop (nat (int (length ?all) - fb_max_entries b)) ?all else ?all"
  have kept: "?kept = newest (nat (fb_max_entries b)) ?all"
    unfolding drop_excess by (auto simp: newest_all)
  have "list_all (comes_back e) (newest (nat (fb_max_entries b)) ?all)"
    using assms set_newest [of "nat (fb_max_entries b)" ?all] by (auto simp: sound_def list_all_iff)
  moreover have "enqueue e b p s = write_all e ?kept (s\<lparr>ag_io := Suc (ag_io s)\<rparr>)"
    unfolding enqueue_def using read_all_sound [OF assms(1)] by (simp add: seq_def Let_def)
  ultimately show ?thesis
    using write_all_sound [of e "newest (nat (fb_max_entries b)) ?all" "s\<lparr>ag_io := Suc (ag_io s)\<rparr>"] assms(1)
    unfolding kept by (auto simp: sound_def [of e s])
qed

lemma drain_sound:
  assumes "sound e s" and "0 \<le> k"
  shows "\<exists>t. drain_buffer_file e k s = (Inr (take (nat k) (entries e s)), t) \<and> sound e t \<and>
     entries e t = drop (nat k) (entries e s) \<and> besides t = besides s"
proof -
  have "list_all (comes_back e) (drop (nat k) (entries e s))"
    using assms(1) by (auto simp: sound_def list_all_iff dest: in_set_dropD)
  then obtain t where "write_all e (drop (nat k) (entries e s)) (s\<lparr>ag_io := Suc (ag_io s)\<rparr>) = (Inr (), t)"
      "sound e t" "entries e t = drop (nat k) (entries e s)" "besides t = besides s"
    using write_all_sound [of e _ "s\<lparr>ag_io := Suc (ag_io s)\<rparr>"] assms(1) by (fastforce simp: sound_def [of e s])
  then show ?thesis
    using read_all_sound [OF assms(1)] assms(2) by (simp add: drain_buffer_file_def seq_def ret_def)
qed

interpretation file_queue: metrics_buffer "enqueue e b" "drain_buffer_file e" "nat (fb_max_entries b)"
    "sound e" "comes_back e" "entries e" besides
  for e b
proof unfold_locales
  fix s p
  assume "sound e s" "comes_back e p"
  then show "wp (enqueue e b p) (\<lambda>_ t. sound e t \<and> besides t = besides s \<and>
      entries e t = newest (nat (fb_max_entries b)) (entries e s @ [p])) (\<lambda>_ _. False) s"
    using enqueue_sound [of e s p b] by (auto simp: wp_def)
next
  fix s and k :: int
  assume "sound e s" "0 \<le> k"
  then show "wp (drain_buffer_file e k) (\<lambda>v t. sound e t \<and> besides t = besides s \<and>
      v = take (nat k) (entries e s) \<and> entries e t = drop (nat k) (entries e s)) (\<lambda>_ _. False) s"
    using drain_sound [of e s k] by (auto simp: wp_def)
qed (simp add: sound_def)

subsection \<open>What failing file operations can do\<close>

text \<open>
  The buffer file is only ever replaced as a whole: after any write, whichever operations failed,
  it is what it was or the complete new document list.
\<close>

lemma write_all_atomic:
  "wp (write_all e ps) (\<lambda>_ t. ag_buffer t \<in> {ag_buffer s, Some (Utf8 (serialize e ps))} \<and> besides t = besides s)
     (\<lambda>_ _. False) s"
  by (auto simp: write_all_def write_tmp_def replace_buffer_def wp_def run_defs file_op_def Let_def besides_def)

lemma read_all_rule:
  "wp (read_all e) (\<lambda>v t. ag_buffer t = ag_buffer s \<and> besides t = besides s \<and> v \<in> {entries e s, []})
     (\<lambda>x t. ag_buffer t = ag_buffer s \<and> besides t = besides s \<and> x = UnicodeDecodeErr \<and> ag_buffer s = Some NotUtf8) s"
  by (auto simp: read_all_def read_text_def wp_def run_defs file_op_def Let_def besides_def entries_def
      split: option.splits stored.splits)

end
