(* ===== verification/Http_Transport.thy ===== *)
theory Http_Transport
  imports Agent_World
begin

text \<open>
  \<open>agent/transport/http_client.py\<close>: one POST with its failures sorted into retryable and fatal, and
  the two calls built on it, wrapped by tenacity's retry. The wrapper is a parameter; what its
  documentation says of the policy the constructor asks for is the predicate \<open>documented_retry\<close>.
\<close>

record http_transport =
  ht_base_url :: string
  ht_headers :: dict
  ht_retry_attempts :: int

definition HttpTransport :: "string \<Rightarrow> int \<Rightarrow> string option \<Rightarrow> http_transport" where
  "HttpTransport base_url retry_attempts auth_token =
     \<lparr>ht_base_url = base_url,
      ht_headers = (case auth_token of
          None \<Rightarrow> []
        | Some t \<Rightarrow> if t = [] then [] else [(''Authorization'', ''Bearer '' @ t)]),
      ht_retry_attempts = retry_attempts\<rparr>"

definition METRICS_ENDPOINT :: string where
  "METRICS_ENDPOINT = ''/api/v1/metrics''"

definition REMEDIATION_ACTIONS_ENDPOINT :: string where
  "REMEDIATION_ACTIONS_ENDPOINT = ''/api/v1/remediation-actions''"

definition HTTP_CLIENT_ERROR_THRESHOLD :: nat where
  "HTTP_CLIENT_ERROR_THRESHOLD = 400"

definition HTTP_SERVER_ERROR_THRESHOLD :: nat where
  "HTTP_SERVER_ERROR_THRESHOLD = 500"

text \<open>\<open>_post\<close>: the text of an accepted response, or the exception for what happened instead.\<close>

definition classify :: "http_outcome \<Rightarrow> exn + string" where
  "classify outcome =
     (case outcome of
        TimeoutException \<Rightarrow> Inl (RetryableTransportError ''collector request timed out'')
      | ConnectError \<Rightarrow> Inl (RetryableTransportError ''collector connection failed'')
      | OtherHttpError \<Rightarrow> Inl (HttpxError ''transport failure'')
      | Response status_code t \<Rightarrow>
          if HTTP_SERVER_ERROR_THRESHOLD \<le> status_code
          then Inl (RetryableTransportError ''collector returned a server error'')
          else if HTTP_CLIENT_ERROR_THRESHOLD \<le> status_code
          then Inl (FatalTransportError ''collector rejected the payload'')
          else Inr t)"

definition request_to :: "http_transport \<Rightarrow> string \<Rightarrow> json_body \<Rightarrow> http_request" where
  "request_to tr endpoint body =
     \<lparr>rq_base_url = ht_base_url tr, rq_endpoint = endpoint, rq_headers = ht_headers tr, rq_body = body\<rparr>"

definition post :: "'n agent_env \<Rightarrow> http_transport \<Rightarrow> string \<Rightarrow> json_body \<Rightarrow> ('n agent, exn, string) comp" where
  "post e tr endpoint body = (\<lambda>s.
     case http_post e (request_to tr endpoint body) (ag_net s) of
       (outcome, n) \<Rightarrow> (classify outcome, s\<lparr>ag_net := n\<rparr>))"

definition send_once :: "'n agent_env \<Rightarrow> http_transport \<Rightarrow> payload \<Rightarrow> ('n agent, exn, ack) comp" where
  "send_once e tr p =
     seq (post e tr METRICS_ENDPOINT (PayloadBody p)) (\<lambda>t.
     case parse_ack e t of None \<Rightarrow> raise ValueErr | Some a \<Rightarrow> ret a)"

definition report_action_result_once ::
    "'n agent_env \<Rightarrow> http_transport \<Rightarrow> int \<Rightarrow> action_result \<Rightarrow> ('n agent, exn, unit) comp" where
  "report_action_result_once e tr action_id result =
     seq (post e tr (REMEDIATION_ACTIONS_ENDPOINT @ ''/'' @ show_int action_id @ ''/result'') (ResultBody result))
       (\<lambda>_. ret ())"

definition send :: "'n agent_env \<Rightarrow> http_transport \<Rightarrow> payload \<Rightarrow> ('n agent, exn, ack) comp" where
  "send e tr p = retry_send e (ht_retry_attempts tr) (send_once e tr p)"

definition report_action_result ::
    "'n agent_env \<Rightarrow> http_transport \<Rightarrow> int \<Rightarrow> action_result \<Rightarrow> ('n agent, exn, unit) comp" where
  "report_action_result e tr action_id result =
     retry_report e (ht_retry_attempts tr) (report_action_result_once e tr action_id result)"

subsection \<open>The documented retry\<close>

text \<open>
  \<open>retry(reraise=True, stop=stop_after_attempt(n), retry=retry_if_exception_type(Retryable...))\<close>:
  the call is made once, and again after each retryable failure until \<open>n\<close> calls were made; the
  last outcome is the outcome. The waits between calls do not show in the state.
\<close>

primrec again :: "nat \<Rightarrow> ('s, exn, 'a) comp \<Rightarrow> ('s, exn, 'a) comp" where
  "again 0 m = m"
| "again (Suc k) m = (\<lambda>s. case m s of
       (Inl (RetryableTransportError x), t) \<Rightarrow> again k m t
     | r \<Rightarrow> r)"

definition documented_retry :: "(int \<Rightarrow> ('s, exn, 'a) comp \<Rightarrow> ('s, exn, 'a) comp) \<Rightarrow> bool" where
  "documented_retry retry \<longleftrightarrow> (\<forall>n m. retry n m = again (nat n - 1) m)"

text \<open>
  A rule for the retried call: what holds after a call that ends the retrying, and what every
  retryable failure keeps.
\<close>

lemma wp_again:
  assumes "I k s"
    and "\<And>k s. I k s \<Longrightarrow> wp m Q (\<lambda>x t. (\<forall>y. x \<noteq> RetryableTransportError y) \<and> E x t \<or>
           (\<exists>y. x = RetryableTransportError y) \<and> (k = 0 \<longrightarrow> E x t) \<and> (\<forall>j. k = Suc j \<longrightarrow> I j t)) s"
  shows "wp (again k m) Q E s"
  using assms(1)
proof (induction k arbitrary: s)
  case 0
  from assms(2) [OF 0] show ?case
    unfolding again.simps by (rule wp_mono) auto
next
  case (Suc k)
  have body: "wp m Q (\<lambda>x t. (\<forall>y. x \<noteq> RetryableTransportError y) \<and> E x t \<or>
      (\<exists>y. x = RetryableTransportError y) \<and> wp (again k m) Q E t) s"
    by (rule wp_mono [OF assms(2) [OF Suc.prems]]) (auto intro: Suc.IH)
  show ?case
  proof (cases "m s")
    case (Pair r t)
    show ?thesis
    proof (cases r)
      case (Inl x)
      then show ?thesis
        using body Pair by (cases x) (auto simp: wp_def)
    next
      case (Inr v)
      then show ?thesis
        using body Pair by (simp add: wp_def)
    qed
  qed
qed

text \<open>The transport leaves everything of the Agent but the network alone.\<close>

definition only_net :: "'n agent \<Rightarrow> 'n agent \<Rightarrow> bool" where
  "only_net s t \<longleftrightarrow> t = s\<lparr>ag_net := ag_net t\<rparr>"

lemma only_net_refl [simp]: "only_net s s"
  by (simp add: only_net_def)

lemma only_net_trans: "only_net s t \<Longrightarrow> only_net t u \<Longrightarrow> only_net s u"
  unfolding only_net_def by (metis (no_types, lifting) agent.select_convs(7) agent.surjective agent.update_convs(7))

lemma only_net_post [simp]: "only_net s (s\<lparr>ag_net := n\<rparr>)"
  by (simp add: only_net_def)

lemma send_once_cases:
  assumes "http_post e (request_to tr METRICS_ENDPOINT (PayloadBody p)) (ag_net s) = (outcome, n)"
  shows "send_once e tr p s = (case classify outcome of
      Inl x \<Rightarrow> (Inl x, s\<lparr>ag_net := n\<rparr>)
    | Inr t \<Rightarrow> (case parse_ack e t of None \<Rightarrow> (Inl ValueErr, s\<lparr>ag_net := n\<rparr>) | Some a \<Rightarrow> (Inr a, s\<lparr>ag_net := n\<rparr>)))"
  using assms by (simp add: send_once_def post_def run_defs split: sum.splits option.splits)

lemma send_once_only_net: "wp (send_once e tr p) (\<lambda>_. only_net s) (\<lambda>_. only_net s) s"
  by (auto simp: wp_def send_once_def post_def run_defs split: prod.splits sum.splits option.splits)

lemma report_once_only_net: "wp (report_action_result_once e tr i r) (\<lambda>_. only_net s) (\<lambda>_. only_net s) s"
  by (auto simp: wp_def report_action_result_once_def post_def run_defs split: prod.splits sum.splits)

lemma again_only_net:
  assumes "\<And>s. wp m (\<lambda>_. only_net s) (\<lambda>_. only_net s) s"
  shows "wp (again k m) (\<lambda>_. only_net s) (\<lambda>_. only_net s) s"
  by (rule wp_again [where I = "\<lambda>_. only_net s"])
    (auto intro!: wp_mono [OF assms] intro: only_net_trans)

lemma send_only_net:
  "documented_retry (retry_send e) \<Longrightarrow> wp (send e tr p) (\<lambda>_. only_net s) (\<lambda>_. only_net s) s"
  unfolding send_def documented_retry_def by (simp add: again_only_net send_once_only_net)

lemma report_only_net:
  "documented_retry (retry_report e) \<Longrightarrow> wp (report_action_result e tr i r) (\<lambda>_. only_net s) (\<lambda>_. only_net s) s"
  unfolding report_action_result_def documented_retry_def by (simp add: again_only_net report_once_only_net)

text \<open>
  How a delivery ends, with a meter on the network that every exchange advances by one: at most
  the configured number of exchanges take place, a retryable failure comes out only when all of
  them did, and an acknowledgement or a rejection is what some exchange answered.
\<close>

definition answered :: "'n agent_env \<Rightarrow> http_request \<Rightarrow> http_outcome \<Rightarrow> bool" where
  "answered e rq outcome \<longleftrightarrow> (\<exists>n n'. http_post e rq n = (outcome, n'))"

definition delivery ::
    "'n agent_env \<Rightarrow> http_transport \<Rightarrow> payload \<Rightarrow> ('n \<Rightarrow> nat) \<Rightarrow> nat \<Rightarrow> nat \<Rightarrow> exn + ack \<Rightarrow> 'n \<Rightarrow> bool" where
  "delivery e tr p meter start limit r n \<longleftrightarrow>
     start < meter n \<and> meter n \<le> start + limit \<and>
     (case r of
        Inr a \<Rightarrow> \<exists>c t. c < 400 \<and> answered e (request_to tr METRICS_ENDPOINT (PayloadBody p)) (Response c t) \<and> parse_ack e t = Some a
      | Inl (FatalTransportError m) \<Rightarrow>
          \<exists>c t. 400 \<le> c \<and> c < 500 \<and> answered e (request_to tr METRICS_ENDPOINT (PayloadBody p)) (Response c t)
      | Inl (RetryableTransportError m) \<Rightarrow> meter n = start + limit
      | Inl ValueErr \<Rightarrow>
          \<exists>c t. c < 400 \<and> answered e (request_to tr METRICS_ENDPOINT (PayloadBody p)) (Response c t) \<and> parse_ack e t = None
      | Inl x \<Rightarrow> answered e (request_to tr METRICS_ENDPOINT (PayloadBody p)) OtherHttpError)"

lemma send_delivery:
  fixes e :: "'n agent_env"
  assumes retry: "documented_retry (retry_send e)"
    and meter: "\<And>rq n outcome n'. http_post e rq n = (outcome, n') \<Longrightarrow> meter n' = Suc (meter n)"
  shows "wp (send e tr p)
     (\<lambda>a t. delivery e tr p meter (meter (ag_net s)) (max 1 (nat (ht_retry_attempts tr))) (Inr a) (ag_net t))
     (\<lambda>x t. delivery e tr p meter (meter (ag_net s)) (max 1 (nat (ht_retry_attempts tr))) (Inl x) (ag_net t)) s"
proof -
  let ?n = "max 1 (nat (ht_retry_attempts tr))" and ?rq = "request_to tr METRICS_ENDPOINT (PayloadBody p)"
  have "wp (again (nat (ht_retry_attempts tr) - 1) (send_once e tr p))
     (\<lambda>a t. delivery e tr p meter (meter (ag_net s)) ?n (Inr a) (ag_net t))
     (\<lambda>x t. delivery e tr p meter (meter (ag_net s)) ?n (Inl x) (ag_net t)) s"
  proof (rule wp_again [where I = "\<lambda>k t. k < ?n \<and> meter (ag_net t) = meter (ag_net s) + (?n - Suc k)"])
    fix k and t :: "'n agent"
    assume I: "k < ?n \<and> meter (ag_net t) = meter (ag_net s) + (?n - Suc k)"
    obtain outcome n where h: "http_post e ?rq (ag_net t) = (outcome, n)"
      by fastforce
    have m: "meter n = meter (ag_net s) + (?n - k)"
      using meter [OF h] I by linarith
    have used: "meter (ag_net s) < meter n" "meter n \<le> meter (ag_net s) + ?n"
        "k = 0 \<longrightarrow> meter n = meter (ag_net s) + ?n"
        "\<forall>j. k = Suc j \<longrightarrow> j < ?n \<and> meter n = meter (ag_net s) + (?n - Suc j)"
      using I m by linarith+
    have ans: "answered e ?rq outcome"
      using h by (auto simp: answered_def)
    show "wp (send_once e tr p)
       (\<lambda>a t. delivery e tr p meter (meter (ag_net s)) ?n (Inr a) (ag_net t))
       (\<lambda>x u. (\<forall>y. x \<noteq> RetryableTransportError y) \<and> delivery e tr p meter (meter (ag_net s)) ?n (Inl x) (ag_net u) \<or>
         (\<exists>y. x = RetryableTransportError y) \<and>
         (k = 0 \<longrightarrow> delivery e tr p meter (meter (ag_net s)) ?n (Inl x) (ag_net u)) \<and>
         (\<forall>j. k = Suc j \<longrightarrow> j < ?n \<and> meter (ag_net u) = meter (ag_net s) + (?n - Suc j))) t"
      using used ans
      by (auto simp: wp_def send_once_cases [OF h] classify_def delivery_def HTTP_SERVER_ERROR_THRESHOLD_def
          HTTP_CLIENT_ERROR_THRESHOLD_def not_le split: http_outcome.splits option.splits)
  qed auto
  then show ?thesis
    using retry by (simp add: send_def documented_retry_def)
qed

subsection \<open>The delivery as a function of the network\<close>

text \<open>What an outcome of the metrics request amounts to, and the retried request on the network alone.\<close>

definition answer :: "'n agent_env \<Rightarrow> http_outcome \<Rightarrow> exn + ack" where
  "answer e outcome =
     (case classify outcome of
        Inl x \<Rightarrow> Inl x
      | Inr t \<Rightarrow> (case parse_ack e t of None \<Rightarrow> Inl ValueErr | Some a \<Rightarrow> Inr a))"

primrec exchanges :: "'n agent_env \<Rightarrow> http_request \<Rightarrow> nat \<Rightarrow> 'n \<Rightarrow> (exn + ack) \<times> 'n" where
  "exchanges e rq 0 n = map_prod (answer e) id (http_post e rq n)"
| "exchanges e rq (Suc k) n =
     (case map_prod (answer e) id (http_post e rq n) of
        (Inl (RetryableTransportError m), n') \<Rightarrow> exchanges e rq k n'
      | r \<Rightarrow> r)"

definition deliver_over :: "'n agent_env \<Rightarrow> http_transport \<Rightarrow> payload \<Rightarrow> 'n \<Rightarrow> (exn + ack) \<times> 'n" where
  "deliver_over e tr p =
     exchanges e (request_to tr METRICS_ENDPOINT (PayloadBody p)) (nat (ht_retry_attempts tr) - 1)"

lemma send_once_answer:
  "send_once e tr p s =
     (case http_post e (request_to tr METRICS_ENDPOINT (PayloadBody p)) (ag_net s) of
        (outcome, n) \<Rightarrow> (answer e outcome, s\<lparr>ag_net := n\<rparr>))"
  by (auto simp: send_once_def post_def answer_def run_defs split: prod.splits sum.splits option.splits)

lemma again_exchanges:
  "again k (send_once e tr p) s =
     (case exchanges e (request_to tr METRICS_ENDPOINT (PayloadBody p)) k (ag_net s) of
        (r, n) \<Rightarrow> (r, s\<lparr>ag_net := n\<rparr>))"
proof (induction k arbitrary: s)
  case 0
  then show ?case
    by (simp add: send_once_answer split: prod.splits)
next
  case (Suc k)
  obtain outcome n where h: "http_post e (request_to tr METRICS_ENDPOINT (PayloadBody p)) (ag_net s) = (outcome, n)"
    by fastforce
  show ?case
    using Suc.IH [of "s\<lparr>ag_net := n\<rparr>"] h
    by (cases "answer e outcome") (auto simp: send_once_answer split: prod.splits exn.splits)
qed

lemma send_deliver_over:
  "documented_retry (retry_send e) \<Longrightarrow> send e tr p s = (case deliver_over e tr p (ag_net s) of (r, n) \<Rightarrow> (r, s\<lparr>ag_net := n\<rparr>))"
  by (simp add: send_def documented_retry_def deliver_over_def again_exchanges)

text \<open>The networks that exchanges of the Agent lead to.\<close>

definition net_later :: "'n agent_env \<Rightarrow> 'n \<Rightarrow> 'n \<Rightarrow> bool" where
  "net_later e n n' \<longleftrightarrow> (\<exists>rqs. n' = foldl (\<lambda>n rq. snd (http_post e rq n)) n rqs)"

lemma net_later_refl [simp]: "net_later e n n"
  unfolding net_later_def by (rule exI [where x = "[]"]) simp

lemma net_later_trans: "net_later e n n1 \<Longrightarrow> net_later e n1 n2 \<Longrightarrow> net_later e n n2"
  unfolding net_later_def by (metis foldl_append)

lemma net_later_post: "http_post e rq n = (outcome, n') \<Longrightarrow> net_later e n n'"
  unfolding net_later_def by (rule exI [where x = "[rq]"]) simp

lemma exchanges_later: "exchanges e rq k n = (r, n') \<Longrightarrow> net_later e n n'"
proof (induction k arbitrary: n)
  case 0
  then show ?case
    by (auto simp: map_prod_def split: prod.splits intro: net_later_post)
next
  case (Suc k)
  obtain outcome n1 where h: "http_post e rq n = (outcome, n1)" by fastforce
  have "exchanges e rq k n1 = (r, n') \<or> n' = n1"
    using Suc.prems h by (cases "answer e outcome") (auto split: exn.splits)
  then show ?case
    using Suc.IH [of n1] net_later_post [OF h] by (auto intro: net_later_trans)
qed

text \<open>A report only moves the network on.\<close>

definition net_moved :: "'n agent_env \<Rightarrow> 'n agent \<Rightarrow> 'n agent \<Rightarrow> bool" where
  "net_moved e s t \<longleftrightarrow> only_net s t \<and> net_later e (ag_net s) (ag_net t)"

lemma report_once_moves: "wp (report_action_result_once e tr i r) (\<lambda>_. net_moved e s) (\<lambda>_. net_moved e s) s"
  by (auto simp: wp_def report_action_result_once_def post_def run_defs net_moved_def
      split: prod.splits sum.splits intro: net_later_post)

lemma report_moves:
  assumes "documented_retry (retry_report e)"
  shows "wp (report_action_result e tr i r) (\<lambda>_. net_moved e s) (\<lambda>_. net_moved e s) s"
proof -
  have "wp (again k (report_action_result_once e tr i r)) (\<lambda>_. net_moved e s) (\<lambda>_. net_moved e s) s" for k
    by (rule wp_again [where I = "\<lambda>_. net_moved e s"])
      (auto simp: net_moved_def intro!: wp_mono [OF report_once_moves] intro: only_net_trans net_later_trans)
  then show ?thesis
    using assms by (simp add: report_action_result_def documented_retry_def)
qed

end
