(* ===== verification/Agent_Scheduler.thy ===== *)
theory Agent_Scheduler
  imports File_Buffer Http_Transport
begin

text \<open>
  \<open>agent/scheduler.py\<close>: one collection-and-delivery cycle after the other. The scheduler is written
  against its ports, as the class is against the Protocols of \<open>shared/protocols.py\<close>: the record
  \<open>scheduler\<close> holds the operations of the buffer, of the transport, of the collectors and of the
  executor, over any state.
\<close>

record 's scheduler =
  sc_node_id :: string
  sc_collectors :: "(string \<times> ('s, exn, metric_sample list) comp) list"
  sc_send :: "payload \<Rightarrow> ('s, exn, ack) comp"
  sc_report :: "int \<Rightarrow> action_result \<Rightarrow> ('s, exn, unit) comp"
  sc_enqueue :: "payload \<Rightarrow> ('s, exn, unit) comp"
  sc_drain :: "int \<Rightarrow> ('s, exn, payload list) comp"
  sc_interval_seconds :: pyfloat
  sc_execute :: "(pending_action \<Rightarrow> ('s, exn, action_result) comp) option"
  sc_now :: "('s, exn, datetime) comp"
  sc_str :: "exn \<Rightarrow> string"

definition DEFAULT_BUFFER_DRAIN_BATCH_SIZE :: int where
  "DEFAULT_BUFFER_DRAIN_BATCH_SIZE = 50"

text \<open>
  The loop of \<open>_drain_buffer\<close>: a rejected payload is dropped, the first other failure of the
  transport puts this payload and the ones after it back and ends the loop.
\<close>

fun redeliver :: "'s scheduler \<Rightarrow> payload list \<Rightarrow> ('s, exn, unit) comp" where
  "redeliver sched [] = ret ()"
| "redeliver sched (p # ps) =
     seq (attempt (seq (sc_send sched p) (\<lambda>_. ret True)) (\<lambda>x.
            case x of
              FatalTransportError m \<Rightarrow> ret True
            | _ \<Rightarrow> if is_transport_error x
                   then seq (for_each (sc_enqueue sched) (p # ps)) (\<lambda>_. ret False)
                   else raise x)) (\<lambda>go_on.
     if go_on then redeliver sched ps else ret ())"

definition drain_buffer :: "'s scheduler \<Rightarrow> ('s, exn, unit) comp" where
  "drain_buffer sched =
     seq (sc_drain sched DEFAULT_BUFFER_DRAIN_BATCH_SIZE) (\<lambda>drained. redeliver sched drained)"

fun run_collectors ::
    "'s scheduler \<Rightarrow> (string \<times> ('s, exn, metric_sample list) comp) list \<Rightarrow>
     metric_sample list \<Rightarrow> string list \<Rightarrow> ('s, exn, metric_sample list \<times> string list) comp" where
  "run_collectors sched [] samples errors = ret (samples, errors)"
| "run_collectors sched ((name, collect) # cs) samples errors =
     seq (attempt (seq collect (\<lambda>xs. ret (samples @ xs, errors)))
            (\<lambda>x. ret (samples, errors @ [name @ '': '' @ sc_str sched x]))) (\<lambda>(samples', errors').
     run_collectors sched cs samples' errors')"

definition collect :: "'s scheduler \<Rightarrow> ('s, exn, payload) comp" where
  "collect sched =
     seq (run_collectors sched (sc_collectors sched) [] []) (\<lambda>(samples, errors).
     seq (sc_now sched) (\<lambda>now.
     ret \<lparr>pl_node_id = sc_node_id sched, pl_collected_at = now, pl_samples = samples,
          pl_collection_errors = errors\<rparr>))"

definition scheduler_report_action_result :: "'s scheduler \<Rightarrow> int \<Rightarrow> action_result \<Rightarrow> ('s, exn, unit) comp" where
  "scheduler_report_action_result sched action_id result =
     attempt (sc_report sched action_id result) (\<lambda>x. if is_transport_error x then ret () else raise x)"

definition execute_pending_actions :: "'s scheduler \<Rightarrow> ack \<Rightarrow> ('s, exn, unit) comp" where
  "execute_pending_actions sched ack =
     (case sc_execute sched of
        None \<Rightarrow> ret ()
      | Some execute \<Rightarrow>
          seq (for_each (\<lambda>action.
                 seq (execute action) (\<lambda>result.
                 scheduler_report_action_result sched (pa_action_id action) result))
               (ack_pending_actions ack)) (\<lambda>_. ret ()))"

definition deliver :: "'s scheduler \<Rightarrow> payload \<Rightarrow> ('s, exn, unit) comp" where
  "deliver sched p =
     seq (attempt (seq (sc_send sched p) (\<lambda>ack. ret (Some ack))) (\<lambda>x.
            case x of
              FatalTransportError m \<Rightarrow> ret None
            | _ \<Rightarrow> if is_transport_error x
                   then seq (sc_enqueue sched p) (\<lambda>_. ret None)
                   else raise x)) (\<lambda>answer.
     case answer of None \<Rightarrow> ret () | Some ack \<Rightarrow> execute_pending_actions sched ack)"

definition run_once :: "'s scheduler \<Rightarrow> ('s, exn, unit) comp" where
  "run_once sched =
     seq (drain_buffer sched) (\<lambda>_.
     seq (collect sched) (\<lambda>p.
     deliver sched p))"

text \<open>
  \<open>time.sleep\<close>: the duration in nanoseconds has to fit a signed 64-bit integer and must not be
  negative; it is rounded away from zero.
\<close>

definition round_away :: "rat \<Rightarrow> int" where
  "round_away q = (if 0 \<le> q then \<lceil>q\<rceil> else \<lfloor>q\<rfloor>)"

fun time_sleep :: "pyfloat \<Rightarrow> exn + unit" where
  "time_sleep (Fin q) =
     (case round_double (q * 1000000000) of
        Fin r \<Rightarrow> if r < - (2 ^ 63) \<or> 2 ^ 63 \<le> r then Inl OverflowErr
                 else if round_away r < 0 then Inl ValueErr else Inr ()
      | _ \<Rightarrow> Inl OverflowErr)"
| "time_sleep NaN = Inl ValueErr"
| "time_sleep PInf = Inl OverflowErr"
| "time_sleep NInf = Inl OverflowErr"

text \<open>
  The main loop. \<open>should_stop\<close> is asked before every cycle; \<open>should_stop k\<close> is its answer when it
  is asked for the \<open>k\<close>-th time. A loop that goes on for ever is \<open>None\<close>.
\<close>

partial_function (option) run_forever ::
    "'s scheduler \<Rightarrow> (nat \<Rightarrow> bool) \<Rightarrow> nat \<Rightarrow> 's \<Rightarrow> ((exn + unit) \<times> 's) option" where
  "run_forever sched should_stop k s =
     (if should_stop k then Some (Inr (), s)
      else case run_once sched s of
             (Inl x, t) \<Rightarrow> Some (Inl x, t)
           | (Inr u, t) \<Rightarrow>
               (case time_sleep (sc_interval_seconds sched) of
                  Inl x \<Rightarrow> Some (Inl x, t)
                | Inr v \<Rightarrow> run_forever sched should_stop (Suc k) t))"

subsection \<open>What a cycle promises\<close>

text \<open>
  Sending several payloads one after the other, with an exchange that turns the rest of the world
  into an outcome and a new rest: each of them acknowledged or rejected, or not all of them.
\<close>

fun settled :: "(payload \<Rightarrow> 'r \<Rightarrow> (exn + ack) \<times> 'r) \<Rightarrow> payload list \<Rightarrow> 'r \<Rightarrow> 'r option" where
  "settled exchange [] r = Some r"
| "settled exchange (p # ps) r =
     (case exchange p r of
        (Inr a, r') \<Rightarrow> settled exchange ps r'
      | (Inl (FatalTransportError m), r') \<Rightarrow> settled exchange ps r'
      | _ \<Rightarrow> None)"

text \<open>
  The contract of a redelivery of \<open>ps\<close> with \<open>q\<close> in the buffer: some first part is settled, and the
  rest, which starts with a payload whose delivery failed, is in the buffer behind \<open>q\<close>.
\<close>

definition redelivered ::
    "(payload \<Rightarrow> 'r \<Rightarrow> (exn + ack) \<times> 'r) \<Rightarrow> nat \<Rightarrow> payload list \<Rightarrow> payload list \<Rightarrow> 'r \<Rightarrow> payload list \<Rightarrow> 'r \<Rightarrow> bool" where
  "redelivered exchange cap ps q r q' r' \<longleftrightarrow>
     settled exchange ps r = Some r' \<and> q' = q \<or>
     (\<exists>sent p kept r1 m. ps = sent @ p # kept \<and> settled exchange sent r = Some r1 \<and>
        exchange p r1 = (Inl (RetryableTransportError m), r') \<and> q' = newest cap (q @ p # kept))"

text \<open>When an exception comes out of it, the payloads from the failing one on are lost.\<close>

definition redelivery_broken ::
    "(payload \<Rightarrow> 'r \<Rightarrow> (exn + ack) \<times> 'r) \<Rightarrow> payload list \<Rightarrow> payload list \<Rightarrow> 'r \<Rightarrow> exn \<Rightarrow> payload list \<Rightarrow> 'r \<Rightarrow> bool" where
  "redelivery_broken exchange ps q r x q' r' \<longleftrightarrow> \<not> is_transport_error x \<and> q' = q \<and>
     (\<exists>sent p lost r1. ps = sent @ p # lost \<and> settled exchange sent r = Some r1 \<and> exchange p r1 = (Inl x, r'))"

lemma redelivered_Cons:
  assumes "exchange p r = (Inr a, r1) \<or> exchange p r = (Inl (FatalTransportError m), r1)"
  shows "redelivered exchange cap ps q r1 q' r' \<Longrightarrow> redelivered exchange cap (p # ps) q r q' r'"
    and "redelivery_broken exchange ps q r1 x q' r' \<Longrightarrow> redelivery_broken exchange (p # ps) q r x q' r'"
proof -
  have step: "settled exchange (p # xs) r = settled exchange xs r1" for xs
    using assms by auto
  show "redelivered exchange cap ps q r1 q' r' \<Longrightarrow> redelivered exchange cap (p # ps) q r q' r'"
    unfolding redelivered_def by (metis append_Cons step)
  show "redelivery_broken exchange ps q r1 x q' r' \<Longrightarrow> redelivery_broken exchange (p # ps) q r x q' r'"
    unfolding redelivery_broken_def by (metis append_Cons step)
qed

text \<open>
  Nothing is lost by a redelivery that returns, as long as the buffer has room for what it held:
  what was in the buffer is settled now or is still there.
\<close>

lemma redelivered_conserves:
  assumes "redelivered exchange cap (take k q) (drop k q) r q' r'" and "length q \<le> cap"
  shows "\<exists>sent r1. settled exchange sent r = Some r1 \<and> mset q = mset sent + mset q'"
proof -
  consider "settled exchange (take k q) r = Some r'" "q' = drop k q"
    | sent p kept r1 where "take k q = sent @ p # kept" "settled exchange sent r = Some r1"
        "q' = newest cap (drop k q @ p # kept)"
    using assms(1) unfolding redelivered_def by blast
  then show ?thesis
  proof cases
    case 1
    then show ?thesis
      by (metis append_take_drop_id mset_append)
  next
    case 2
    have "length (drop k q) + length (take k q) = length q"
      by simp
    then have "length (drop k q @ p # kept) \<le> cap"
      using 2(1) assms(2) by simp
    then have "q' = drop k q @ p # kept"
      using 2(3) by (simp add: newest_all)
    moreover have "mset q = mset (sent @ p # kept) + mset (drop k q)"
      using 2(1) by (metis append_take_drop_id mset_append)
    ultimately have "mset q = mset sent + mset q'"
      by simp
    then show ?thesis
      using 2(2) by blast
  qed
qed

text \<open>The ports of a scheduler over a buffer that keeps its promises and a transport.\<close>

locale agent_ports = metrics_buffer +
  fixes snd :: "payload \<Rightarrow> ('a, exn, ack) comp"
    and exchange :: "payload \<Rightarrow> 'b \<Rightarrow> (exn + ack) \<times> 'b"
    and sched :: "'a scheduler"
  assumes ports: "sc_send sched = snd" "sc_enqueue sched = enq" "sc_drain sched = drn"
    and snd_law: "ok s \<Longrightarrow>
      wp (snd p) (\<lambda>a t. ok t \<and> queued t = queued s \<and> exchange p (rest s) = (Inr a, rest t))
        (\<lambda>x t. ok t \<and> queued t = queued s \<and> exchange p (rest s) = (Inl x, rest t)) s"
begin

lemma redeliver_law:
  assumes "ok s" and "list_all fits ps"
  shows "wp (redeliver sched ps)
     (\<lambda>_ t. ok t \<and> redelivered exchange cap ps (queued s) (rest s) (queued t) (rest t))
     (\<lambda>x t. ok t \<and> redelivery_broken exchange ps (queued s) (rest s) x (queued t) (rest t)) s"
  using assms
proof (induction ps arbitrary: s)
  case Nil
  then show ?case by (simp add: wp_simps redelivered_def)
next
  case (Cons p ps)
  let ?Q = "\<lambda>_ t. ok t \<and> redelivered exchange cap (p # ps) (queued s) (rest s) (queued t) (rest t)"
  let ?E = "\<lambda>x t. ok t \<and> redelivery_broken exchange (p # ps) (queued s) (rest s) x (queued t) (rest t)"
  have goes_on: "wp (redeliver sched ps) ?Q ?E t"
    if "ok t" "queued t = queued s"
      "exchange p (rest s) = (Inr a, rest t) \<or> exchange p (rest s) = (Inl (FatalTransportError m), rest t)" for t a m
    using Cons.prems(2) that by (intro wp_mono [OF Cons.IH]) (auto intro: redelivered_Cons)
  have put_back: "wp (for_each enq (p # ps)) ?Q (\<lambda>_ _. False) t"
    if "ok t" "queued t = queued s" "exchange p (rest s) = (Inl (RetryableTransportError m), rest t)" for t m
    by (rule wp_mono [OF enq_all [OF that(1) Cons.prems(2)]])
      (use that in \<open>auto simp: redelivered_def intro!: exI [where x = "[]"]\<close>)
  show ?case
    unfolding redeliver.simps wp_seq wp_attempt wp_ret ports
  proof (rule wp_mono [OF snd_law [OF Cons.prems(1), of p]])
    fix x t
    assume t: "ok t \<and> queued t = queued s \<and> exchange p (rest s) = (Inl x, rest t)"
    show "wp (case x of FatalTransportError m \<Rightarrow> ret True
          | _ \<Rightarrow> if is_transport_error x then seq (for_each enq (p # ps)) (\<lambda>_. ret False) else raise x)
        (\<lambda>v. wp (if v then redeliver sched ps else ret ()) ?Q ?E) ?E t"
      using t goes_on [of t] put_back [of t]
      by (cases x) (auto simp: wp_simps redelivery_broken_def simp del: for_each.simps
          intro!: exI [where x = "[]"] elim!: wp_mono)
  qed (auto simp: wp_simps intro: goes_on)
qed

lemma drain_buffer_law:
  assumes "ok s"
  shows "wp (drain_buffer sched)
     (\<lambda>_ t. ok t \<and> redelivered exchange cap (take 50 (queued s)) (drop 50 (queued s)) (rest s) (queued t) (rest t))
     (\<lambda>x t. ok t \<and> redelivery_broken exchange (take 50 (queued s)) (drop 50 (queued s)) (rest s) x (queued t) (rest t)) s"
proof -
  have fit: "list_all fits (take 50 (queued s))"
    using queued_fit [OF assms] by (auto simp: list_all_iff dest: in_set_takeD)
  show ?thesis
    unfolding drain_buffer_def wp_seq ports
    by (rule wp_mono [OF drn_law [OF assms]])
      (auto simp: DEFAULT_BUFFER_DRAIN_BATCH_SIZE_def intro: wp_mono [OF redeliver_law [OF _ fit]])
qed

end

subsection \<open>The whole cycle\<close>

text \<open>How the delivery of the cycle's own payload ends when no exception comes out of it.\<close>

definition delivered ::
    "(payload \<Rightarrow> 'r \<Rightarrow> (exn + ack) \<times> 'r) \<Rightarrow> nat \<Rightarrow> payload \<Rightarrow> payload list \<Rightarrow> 'r \<Rightarrow> payload list \<Rightarrow> 'r \<Rightarrow> bool" where
  "delivered exchange cap p q r q' r' \<longleftrightarrow>
     (\<exists>a. exchange p r = (Inr a, r') \<and> q' = q) \<or>
     (\<exists>m. exchange p r = (Inl (FatalTransportError m), r') \<and> q' = q) \<or>
     (\<exists>m. exchange p r = (Inl (RetryableTransportError m), r') \<and> q' = newest cap (q @ [p]))"

text \<open>
  What one cycle does to the buffer and the rest of the world: the redelivery of the oldest fifty
  payloads, then the delivery of a fresh one, then whatever the reports of executed actions do.
\<close>

definition cycle_done ::
    "(payload \<Rightarrow> 'r \<Rightarrow> (exn + ack) \<times> 'r) \<Rightarrow> nat \<Rightarrow> ('r \<Rightarrow> 'r \<Rightarrow> bool) \<Rightarrow> string \<Rightarrow>
     payload list \<Rightarrow> 'r \<Rightarrow> payload list \<Rightarrow> 'r \<Rightarrow> bool" where
  "cycle_done exchange cap later node q r q' r' \<longleftrightarrow>
     (\<exists>q1 r1 p r2. redelivered exchange cap (take 50 q) (drop 50 q) r q1 r1 \<and> pl_node_id p = node \<and>
        delivered exchange cap p q1 r1 q' r2 \<and> later r2 r')"

text \<open>
  The three places where an exception leaves a cycle: the redelivery, the delivery of the fresh
  payload, and a report; never one of the transport's own two kinds.
\<close>

definition cycle_broken ::
    "(payload \<Rightarrow> 'r \<Rightarrow> (exn + ack) \<times> 'r) \<Rightarrow> nat \<Rightarrow> ('r \<Rightarrow> 'r \<Rightarrow> bool) \<Rightarrow> string \<Rightarrow>
     payload list \<Rightarrow> 'r \<Rightarrow> exn \<Rightarrow> payload list \<Rightarrow> 'r \<Rightarrow> bool" where
  "cycle_broken exchange cap later node q r x q' r' \<longleftrightarrow> \<not> is_transport_error x \<and>
     (redelivery_broken exchange (take 50 q) (drop 50 q) r x q' r' \<or>
      (\<exists>r1 p. redelivered exchange cap (take 50 q) (drop 50 q) r q' r1 \<and> pl_node_id p = node \<and>
         exchange p r1 = (Inl x, r')) \<or>
      cycle_done exchange cap later node q r q' r')"

lemma wp_run_collectors:
  assumes "I s" and "list_all P samples" and "list_all R errors"
    and "\<And>name c t. (name, c) \<in> set cs \<Longrightarrow> I t \<Longrightarrow>
           wp c (\<lambda>xs u. I u \<and> list_all P xs) (\<lambda>x u. I u \<and> R (name @ '': '' @ sc_str sched x)) t"
  shows "wp (run_collectors sched cs samples errors)
     (\<lambda>(xs, es) t. I t \<and> list_all P xs \<and> list_all R es) (\<lambda>_ _. False) s"
  using assms
proof (induction cs arbitrary: s samples errors)
  case Nil
  then show ?case by (simp add: wp_simps)
next
  case (Cons c cs)
  obtain name f where c: "c = (name, f)" by fastforce
  have tail: "wp (run_collectors sched cs xs es) (\<lambda>(xs, es) t. I t \<and> list_all P xs \<and> list_all R es) (\<lambda>_ _. False) t"
    if "I t" "list_all P xs" "list_all R es" for xs es t
    by (rule Cons.IH [OF that]) (use Cons.prems(4) in auto)
  have "wp f (\<lambda>xs u. I u \<and> list_all P xs) (\<lambda>x u. I u \<and> R (name @ '': '' @ sc_str sched x)) s"
    using c by (intro Cons.prems(4)) (simp_all add: Cons.prems(1))
  then show ?case
    using Cons.prems(2,3) unfolding c by (auto simp: wp_simps intro!: tail elim!: wp_mono)
qed

locale agent_cycle = agent_ports +
  fixes later :: "'b \<Rightarrow> 'b \<Rightarrow> bool"
  assumes collect_law: "ok s \<Longrightarrow>
      wp (collect sched) (\<lambda>p t. ok t \<and> queued t = queued s \<and> rest t = rest s \<and> fits p \<and>
        pl_node_id p = sc_node_id sched) (\<lambda>_ _. False) s"
    and execute_law: "sc_execute sched = Some f \<Longrightarrow> ok s \<Longrightarrow>
      wp (f a) (\<lambda>_ t. ok t \<and> queued t = queued s \<and> rest t = rest s) (\<lambda>_ _. False) s"
    and report_law: "ok s \<Longrightarrow>
      wp (sc_report sched i v) (\<lambda>_ t. ok t \<and> queued t = queued s \<and> later (rest s) (rest t))
        (\<lambda>_ t. ok t \<and> queued t = queued s \<and> later (rest s) (rest t)) s"
    and later_refl: "later r r"
    and later_trans: "later r r1 \<Longrightarrow> later r1 r2 \<Longrightarrow> later r r2"
begin

lemma pending_law:
  assumes "ok s"
  shows "wp (execute_pending_actions sched a)
     (\<lambda>_ t. ok t \<and> queued t = queued s \<and> later (rest s) (rest t))
     (\<lambda>x t. ok t \<and> queued t = queued s \<and> later (rest s) (rest t) \<and> \<not> is_transport_error x) s"
proof (cases "sc_execute sched")
  case None
  then show ?thesis
    using assms later_refl by (simp add: execute_pending_actions_def wp_simps)
next
  case (Some f)
  let ?I = "\<lambda>t. ok t \<and> queued t = queued s \<and> later (rest s) (rest t)"
  let ?body = "\<lambda>action. seq (f action) (\<lambda>result. scheduler_report_action_result sched (pa_action_id action) result)"
  have body: "wp (?body action) (\<lambda>_ u. ?I u \<and> True) (\<lambda>x u. ?I u \<and> \<not> is_transport_error x) t"
    if "?I t" for action t
  proof -
    have report: "wp (scheduler_report_action_result sched i v) (\<lambda>_ u. ?I u \<and> True)
        (\<lambda>x u. ?I u \<and> \<not> is_transport_error x) u" if "?I u" for i v u
      unfolding scheduler_report_action_result_def wp_attempt
      by (rule wp_mono [OF report_law]) (use that in \<open>auto simp: wp_simps intro: later_trans\<close>)
    show ?thesis
      unfolding wp_seq by (rule wp_mono [OF execute_law [OF Some]]) (use that report in auto)
  qed
  have "wp (for_each ?body (ack_pending_actions a)) (\<lambda>ys u. ?I u \<and> (\<forall>y \<in> set ys. True))
      (\<lambda>x u. ?I u \<and> \<not> is_transport_error x) s"
    using assms later_refl body by (intro wp_for_each_inv) simp_all
  then show ?thesis
    using Some by (auto simp: execute_pending_actions_def wp_simps elim!: wp_mono)
qed

lemma deliver_law:
  assumes "ok s" and "fits p"
  shows "wp (deliver sched p)
     (\<lambda>_ t. ok t \<and> (\<exists>r2. delivered exchange cap p (queued s) (rest s) (queued t) r2 \<and> later r2 (rest t)))
     (\<lambda>x t. ok t \<and> \<not> is_transport_error x \<and>
        (queued t = queued s \<and> exchange p (rest s) = (Inl x, rest t) \<or>
         (\<exists>r2. delivered exchange cap p (queued s) (rest s) (queued t) r2 \<and> later r2 (rest t)))) s"
    (is "wp _ ?Q ?E s")
  unfolding deliver_def wp_seq wp_attempt wp_ret ports
proof (rule wp_mono [OF snd_law [OF assms(1)]])
  fix a t
  assume "ok t \<and> queued t = queued s \<and> exchange p (rest s) = (Inr a, rest t)"
  then show "wp (case Some a of None \<Rightarrow> ret () | Some ack \<Rightarrow> execute_pending_actions sched ack) ?Q ?E t"
    by (auto simp: delivered_def intro!: wp_mono [OF pending_law])
next
  fix x t
  assume t: "ok t \<and> queued t = queued s \<and> exchange p (rest s) = (Inl x, rest t)"
  then have "wp (enq p) ?Q (\<lambda>_ _. False) t" if "x = RetryableTransportError m" for m
    using that assms(2) by (auto simp: delivered_def intro!: wp_mono [OF enq_law] later_refl)
  with t show "wp (case x of FatalTransportError m \<Rightarrow> ret None
        | _ \<Rightarrow> if is_transport_error x then seq (enq p) (\<lambda>_. ret None) else raise x)
      (\<lambda>v. wp (case v of None \<Rightarrow> ret () | Some ack \<Rightarrow> execute_pending_actions sched ack) ?Q ?E) ?E t"
    by (cases x) (auto simp: wp_simps delivered_def intro: later_refl elim!: wp_mono)
qed

lemma cycle_law:
  assumes "ok s"
  shows "wp (run_once sched)
     (\<lambda>_ t. ok t \<and> cycle_done exchange cap later (sc_node_id sched) (queued s) (rest s) (queued t) (rest t))
     (\<lambda>x t. ok t \<and> cycle_broken exchange cap later (sc_node_id sched) (queued s) (rest s) x (queued t) (rest t)) s"
    (is "wp _ ?Q ?E s")
  unfolding run_once_def wp_seq
proof (rule wp_mono [OF drain_buffer_law [OF assms]])
  fix u t
  assume t: "ok t \<and> redelivered exchange cap (take 50 (queued s)) (drop 50 (queued s)) (rest s) (queued t) (rest t)"
  show "wp (collect sched) (\<lambda>p. wp (deliver sched p) ?Q ?E) ?E t"
  proof (rule wp_mono [OF collect_law])
    fix p t1
    assume p: "ok t1 \<and> queued t1 = queued t \<and> rest t1 = rest t \<and> fits p \<and> pl_node_id p = sc_node_id sched"
    then have "wp (deliver sched p)
        (\<lambda>_ u. ok u \<and> (\<exists>r2. delivered exchange cap p (queued t) (rest t) (queued u) r2 \<and> later r2 (rest u)))
        (\<lambda>x u. ok u \<and> \<not> is_transport_error x \<and>
           (queued u = queued t \<and> exchange p (rest t) = (Inl x, rest u) \<or>
            (\<exists>r2. delivered exchange cap p (queued t) (rest t) (queued u) r2 \<and> later r2 (rest u)))) t1"
      using deliver_law [of t1 p] by simp
    then show "wp (deliver sched p) ?Q ?E t1"
    proof (rule wp_mono)
      fix v u
      assume "ok u \<and> (\<exists>r2. delivered exchange cap p (queued t) (rest t) (queued u) r2 \<and> later r2 (rest u))"
      then show "?Q v u"
        using t p unfolding cycle_done_def by blast
    next
      fix x u
      assume u: "ok u \<and> \<not> is_transport_error x \<and>
         (queued u = queued t \<and> exchange p (rest t) = (Inl x, rest u) \<or>
          (\<exists>r2. delivered exchange cap p (queued t) (rest t) (queued u) r2 \<and> later r2 (rest u)))"
      then consider "queued u = queued t" "exchange p (rest t) = (Inl x, rest u)"
        | r2 where "delivered exchange cap p (queued t) (rest t) (queued u) r2" "later r2 (rest u)"
        by blast
      then show "?E x u"
      proof cases
        case 1
        then show ?thesis
          using t p u unfolding cycle_broken_def by metis
      next
        case 2
        then have "cycle_done exchange cap later (sc_node_id sched) (queued s) (rest s) (queued u) (rest u)"
          using t p unfolding cycle_done_def by blast
        then show ?thesis
          using u unfolding cycle_broken_def by blast
      qed
    qed
  qed (use t in auto)
qed (auto simp: cycle_broken_def redelivery_broken_def)

end

subsection \<open>Collection\<close>

text \<open>A collector whose exception is a value, and all of them in turn.\<close>

definition observe :: "string \<times> ('s, exn, 'a) comp \<Rightarrow> ('s, exn, string \<times> (exn + 'a)) comp" where
  "observe c = (\<lambda>s. case snd c s of (r, t) \<Rightarrow> (Inr (fst c, r), t))"

fun samples_of :: "(string \<times> (exn + metric_sample list)) list \<Rightarrow> metric_sample list" where
  "samples_of [] = []"
| "samples_of ((name, Inr xs) # rs) = xs @ samples_of rs"
| "samples_of ((name, Inl x) # rs) = samples_of rs"

fun errors_of :: "(exn \<Rightarrow> string) \<Rightarrow> (string \<times> (exn + metric_sample list)) list \<Rightarrow> string list" where
  "errors_of str [] = []"
| "errors_of str ((name, Inr xs) # rs) = errors_of str rs"
| "errors_of str ((name, Inl x) # rs) = (name @ '': '' @ str x) # errors_of str rs"

lemma observe_all: "\<exists>rs t. for_each observe cs s = (Inr rs, t) \<and> map fst rs = map fst cs"
proof (induction cs arbitrary: s)
  case (Cons c cs)
  obtain r t where "snd c s = (r, t)" by fastforce
  then have "observe c s = (Inr (fst c, r), t)"
    by (simp add: observe_def)
  moreover obtain rs u where "for_each observe cs t = (Inr rs, u)" "map fst rs = map fst cs"
    using Cons.IH [of t] by blast
  ultimately show ?case
    by (simp add: run_defs)
qed (simp add: ret_def)

lemma run_collectors_observe:
  "run_collectors sched cs xs es s =
     seq (for_each observe cs) (\<lambda>rs. ret (xs @ samples_of rs, es @ errors_of (sc_str sched) rs)) s"
proof (induction cs arbitrary: xs es s)
  case Nil
  then show ?case by (simp add: run_defs)
next
  case (Cons c cs)
  obtain name f where c: "c = (name, f)" by fastforce
  obtain r t where f: "f s = (r, t)" by fastforce
  obtain rs u where rs: "for_each observe cs t = (Inr rs, u)"
    using observe_all [of cs t] by blast
  have "observe (name, f) s = (Inr (name, r), t)"
    using f by (simp add: observe_def)
  then show ?case
    using f rs by (cases r) (simp_all add: c run_defs Cons.IH)
qed

subsection \<open>What every port keeps, a cycle keeps\<close>

definition keeps :: "('s \<Rightarrow> bool) \<Rightarrow> ('s, exn, 'a) comp \<Rightarrow> bool" where
  "keeps I m \<longleftrightarrow> (\<forall>s. I s \<longrightarrow> wp m (\<lambda>_. I) (\<lambda>_. I) s)"

lemma keeps_ret: "keeps I (ret x)" and keeps_raise: "keeps I (raise y)"
  by (simp_all add: keeps_def wp_simps)

lemma keeps_seq: "keeps I m \<Longrightarrow> (\<And>v. keeps I (f v)) \<Longrightarrow> keeps I (seq m f)"
  unfolding keeps_def wp_seq by (blast intro: wp_mono)

lemma keeps_attempt: "keeps I m \<Longrightarrow> (\<And>x. keeps I (h x)) \<Longrightarrow> keeps I (attempt m h)"
  unfolding keeps_def wp_attempt by (blast intro: wp_mono)

lemma keeps_for_each: "(\<And>x. keeps I (f x)) \<Longrightarrow> keeps I (for_each f xs)"
  by (induction xs) (simp_all add: keeps_ret keeps_seq)

lemmas keeps_intros = keeps_ret keeps_raise keeps_seq keeps_attempt keeps_for_each

definition ports_keep :: "('s \<Rightarrow> bool) \<Rightarrow> 's scheduler \<Rightarrow> bool" where
  "ports_keep I sched \<longleftrightarrow> (\<forall>p. keeps I (sc_send sched p)) \<and> (\<forall>i r. keeps I (sc_report sched i r)) \<and>
     (\<forall>p. keeps I (sc_enqueue sched p)) \<and> (\<forall>k. keeps I (sc_drain sched k)) \<and> keeps I (sc_now sched) \<and>
     (\<forall>(name, c) \<in> set (sc_collectors sched). keeps I c) \<and>
     (\<forall>f a. sc_execute sched = Some f \<longrightarrow> keeps I (f a))"

lemma run_collectors_keeps:
  "(\<And>name c. (name, c) \<in> set cs \<Longrightarrow> keeps I c) \<Longrightarrow> keeps I (run_collectors sched cs xs es)"
proof (induction cs arbitrary: xs es)
  case (Cons c cs)
  obtain name f where "c = (name, f)" by fastforce
  then show ?case
    using Cons by (auto simp: split_beta intro!: keeps_intros)
qed (simp add: keeps_ret)

lemma redeliver_keeps:
  "(\<And>p. keeps I (sc_send sched p)) \<Longrightarrow> (\<And>p. keeps I (sc_enqueue sched p)) \<Longrightarrow> keeps I (redeliver sched ps)"
  by (induction ps) (auto simp del: for_each.simps split: exn.splits intro!: keeps_intros)

lemma run_once_keeps:
  assumes "ports_keep I sched"
  shows "keeps I (run_once sched)"
proof -
  note ports = assms [unfolded ports_keep_def]
  have "keeps I (drain_buffer sched)"
    using ports unfolding drain_buffer_def by (intro keeps_seq redeliver_keeps) auto
  moreover have "keeps I (collect sched)"
    using ports unfolding collect_def by (auto simp: split_beta intro!: keeps_intros run_collectors_keeps)
  moreover have "keeps I (execute_pending_actions sched a)" for a
    using ports unfolding execute_pending_actions_def scheduler_report_action_result_def
    by (auto split: option.splits intro!: keeps_intros)
  then have "keeps I (deliver sched p)" for p
    using ports unfolding deliver_def by (auto split: option.splits exn.splits intro!: keeps_intros)
  ultimately show ?thesis
    unfolding run_once_def by (intro keeps_seq)
qed

subsection \<open>The main loop\<close>

text \<open>
  As soon as a stop is asked for the loop ends after the cycles made until then, or with the first
  exception that leaves one of them.
\<close>

lemma run_forever_cycles:
  assumes "time_sleep (sc_interval_seconds sched) = Inr ()"
    and "should_stop (k + n)" and "\<And>i. i < n \<Longrightarrow> \<not> should_stop (k + i)"
  shows "run_forever sched should_stop k s =
     Some (seq (for_each (\<lambda>_. run_once sched) [0..<n]) (\<lambda>_. ret ()) s)"
  using assms(2,3)
proof (induction n arbitrary: k s)
  case 0
  then show ?case
    by (subst run_forever.simps) (simp add: run_defs)
next
  case (Suc n)
  have stop: "should_stop (Suc k + n)" "\<And>i. i < n \<Longrightarrow> \<not> should_stop (Suc k + i)"
    using Suc.prems(1) Suc.prems(2) [of "Suc i" for i] by auto
  have shift: "for_each (\<lambda>_. run_once sched) [0..<Suc n] =
      seq (run_once sched) (\<lambda>y. seq (for_each (\<lambda>_. run_once sched) [0..<n]) (\<lambda>ys. ret (y # ys)))"
  proof -
    have "for_each (\<lambda>_. run_once sched) (map Suc xs) = for_each (\<lambda>_. run_once sched) xs" for xs
      by (induction xs) simp_all
    then show ?thesis
      by (simp add: upt_conv_Cons map_Suc_upt [symmetric] del: upt_Suc)
  qed
  have "\<not> should_stop k"
    using Suc.prems(2) [of 0] by simp
  then show ?case
    unfolding shift using Suc.IH [OF stop] assms(1)
    by (subst run_forever.simps) (auto simp: run_defs split: prod.splits sum.splits)
qed

end
