(* ===== verification/Agent_Collectors.thy ===== *)
theory Agent_Collectors
  imports Agent_World
begin

text \<open>
  \<open>agent/collectors\<close>: the four collectors over psutil. A call of psutil may raise, and what it
  returns may differ from call to call, so the state counts the calls. Percentages are taken over
  as they come; sizes and counters are ints that \<open>float\<close> converts, with an \<open>OverflowError\<close> for
  one beyond the range of a double.
\<close>

definition psutil_call :: "(nat \<Rightarrow> exn + 'a) \<Rightarrow> ('n agent, exn, 'a) comp" where
  "psutil_call f = (\<lambda>s. (f (ag_psutil s), s\<lparr>ag_psutil := Suc (ag_psutil s)\<rparr>))"

definition float_of_int :: "int \<Rightarrow> exn + pyfloat" where
  "float_of_int i = (case round_double (of_int i) of Fin q \<Rightarrow> Inr (Fin q) | _ \<Rightarrow> Inl OverflowErr)"

definition MetricSample :: "metric_type \<Rightarrow> pyfloat \<Rightarrow> string \<Rightarrow> dict \<Rightarrow> metric_sample" where
  "MetricSample t v u ls = \<lparr>ms_metric_type = t, ms_value = v, ms_unit = u, ms_labels = ls\<rparr>"

text \<open>\<open>CpuCollector()\<close> makes the first, meaningless reading.\<close>

definition CpuCollector :: "'n agent_env \<Rightarrow> ('n agent, exn, unit) comp" where
  "CpuCollector e = seq (psutil_call (cpu_percent e)) (\<lambda>_. ret ())"

definition cpu_collect :: "'n agent_env \<Rightarrow> ('n agent, exn, metric_sample list) comp" where
  "cpu_collect e =
     seq (psutil_call (cpu_percent e)) (\<lambda>usage_percent.
     ret [MetricSample CPU_USAGE_PERCENT usage_percent ''percent'' []])"

definition memory_collect :: "'n agent_env \<Rightarrow> ('n agent, exn, metric_sample list) comp" where
  "memory_collect e =
     seq (psutil_call (virtual_memory e)) (\<lambda>vm.
     seq (from_result (float_of_int (vm_used vm))) (\<lambda>used.
     seq (from_result (float_of_int (vm_available vm))) (\<lambda>available.
     ret [MetricSample MEMORY_USAGE_PERCENT (vm_percent vm) ''percent'' [],
          MetricSample MEMORY_USED_BYTES used ''bytes'' [],
          MetricSample MEMORY_AVAILABLE_BYTES available ''bytes'' []])))"

definition DEFAULT_DISK_MOUNT_PATH :: string where
  "DEFAULT_DISK_MOUNT_PATH = ''/''"

definition disk_collect :: "'n agent_env \<Rightarrow> string \<Rightarrow> ('n agent, exn, metric_sample list) comp" where
  "disk_collect e mount_path =
     seq (psutil_call (\<lambda>k. disk_usage e k mount_path)) (\<lambda>usage.
     let labels = [(''mount_point'', mount_path)] in
     seq (from_result (float_of_int (du_used usage))) (\<lambda>used.
     seq (from_result (float_of_int (du_free usage))) (\<lambda>free.
     ret [MetricSample DISK_USAGE_PERCENT (du_percent usage) ''percent'' labels,
          MetricSample DISK_USED_BYTES used ''bytes'' labels,
          MetricSample DISK_FREE_BYTES free ''bytes'' labels])))"

definition network_collect :: "'n agent_env \<Rightarrow> ('n agent, exn, metric_sample list) comp" where
  "network_collect e =
     seq (psutil_call (net_io_counters e)) (\<lambda>counters.
     seq (from_result (float_of_int (ni_bytes_sent counters))) (\<lambda>sent.
     seq (from_result (float_of_int (ni_bytes_recv counters))) (\<lambda>received.
     ret [MetricSample NETWORK_BYTES_SENT sent ''bytes'' [],
          MetricSample NETWORK_BYTES_RECV received ''bytes'' []])))"

subsection \<open>What a collection leaves alone\<close>

definition only_psutil :: "'n agent \<Rightarrow> 'n agent \<Rightarrow> bool" where
  "only_psutil s t \<longleftrightarrow> t = s\<lparr>ag_psutil := Suc (ag_psutil s)\<rparr>"

lemmas collect_defs = cpu_collect_def memory_collect_def disk_collect_def network_collect_def CpuCollector_def

lemma collect_only_psutil:
  "wp (CpuCollector e) (\<lambda>_. only_psutil s) (\<lambda>_. only_psutil s) s"
  "wp (cpu_collect e) (\<lambda>_. only_psutil s) (\<lambda>_. only_psutil s) s"
  "wp (memory_collect e) (\<lambda>_. only_psutil s) (\<lambda>_. only_psutil s) s"
  "wp (disk_collect e m) (\<lambda>_. only_psutil s) (\<lambda>_. only_psutil s) s"
  "wp (network_collect e) (\<lambda>_. only_psutil s) (\<lambda>_. only_psutil s) s"
  by (simp_all add: collect_defs wp_simps Let_def)
    (auto simp: wp_def psutil_call_def only_psutil_def split: sum.splits)

text \<open>The conversion is exact for sizes and counters below 2 to the 53rd.\<close>

lemma float_of_int_exact: "\<bar>i\<bar> < 2 ^ 53 \<Longrightarrow> float_of_int i = Inr (Fin (of_int i))"
  by (simp add: float_of_int_def round_double_int)

end
