(* ===== verification/Playbook_Executor.thy ===== *)
theory Playbook_Executor
  imports Agent_World "HOL-Library.Sublist"
begin

text \<open>
  \<open>agent/remediation\<close>: the executor of dispatched actions with its two handlers. The file system is
  the list of its entries under their absolute paths; a path is followed through a symbolic link
  at its end, and the entries of a directory may be links. The lemmas say what an execution may
  touch, whatever file operations fail, and what it achieves when none does.
\<close>

subsection \<open>The file system\<close>

definition slashed :: "string \<Rightarrow> string" where
  "slashed d = (if d \<noteq> [] \<and> last d = CHR ''/'' then d else d @ ''/'')"

definition os_path_join :: "string \<Rightarrow> string \<Rightarrow> string" where
  "os_path_join path entry = slashed path @ entry"

text \<open>The path without slashes at its end, and where it leads.\<close>

definition canonical :: "string \<Rightarrow> string" where
  "canonical path = (let p = rev (dropWhile (\<lambda>c. c = CHR ''/'') (rev path)) in if p = [] then ''/'' else p)"

definition follow :: "file_system \<Rightarrow> string \<Rightarrow> string" where
  "follow fs path = (case map_of fs (canonical path) of Some (LinkNode t) \<Rightarrow> t | _ \<Rightarrow> canonical path)"

definition below :: "string \<Rightarrow> string \<Rightarrow> bool" where
  "below d q \<longleftrightarrow> strict_prefix (slashed d) q"

definition child_name :: "string \<Rightarrow> string \<Rightarrow> string option" where
  "child_name d q =
     (let n = drop (length (slashed d)) q
      in if below d q \<and> CHR ''/'' \<notin> set n then Some n else None)"

definition children :: "file_system \<Rightarrow> string \<Rightarrow> string list" where
  "children fs d = List.map_filter (\<lambda>(q, k). child_name d q) fs"

definition keep_paths :: "(string \<Rightarrow> bool) \<Rightarrow> file_system \<Rightarrow> file_system" where
  "keep_paths P fs = filter (\<lambda>(q, k). P q) fs"

definition os_listdir :: "'n agent_env \<Rightarrow> string \<Rightarrow> ('n agent, exn, string list) comp" where
  "os_listdir e path = file_op e id (\<lambda>s.
     let d = follow (ag_fs s) path
     in case map_of (ag_fs s) d of
          Some DirNode \<Rightarrow> (Inr (children (ag_fs s) d), s)
        | _ \<Rightarrow> (Inl (OSErr ''not a directory''), s))"

definition os_isdir :: "file_system \<Rightarrow> string \<Rightarrow> bool" where
  "os_isdir fs p = (case map_of fs p of
       Some DirNode \<Rightarrow> True
     | Some (LinkNode t) \<Rightarrow> map_of fs t = Some DirNode
     | _ \<Rightarrow> False)"

definition os_islink :: "file_system \<Rightarrow> string \<Rightarrow> bool" where
  "os_islink fs p = (case map_of fs p of Some (LinkNode t) \<Rightarrow> True | _ \<Rightarrow> False)"

definition shutil_rmtree :: "'n agent_env \<Rightarrow> string \<Rightarrow> ('n agent, exn, unit) comp" where
  "shutil_rmtree e p = (\<lambda>s.
     file_op e (\<lambda>s'. s'\<lparr>ag_fs := keep_paths (\<lambda>q. \<not> below p q \<or> spared e (ag_io s) q) (ag_fs s')\<rparr>)
       (\<lambda>s'. (Inr (), s'\<lparr>ag_fs := keep_paths (\<lambda>q. q \<noteq> p \<and> \<not> below p q) (ag_fs s')\<rparr>)) s)"

definition os_remove :: "'n agent_env \<Rightarrow> string \<Rightarrow> ('n agent, exn, unit) comp" where
  "os_remove e p = file_op e id (\<lambda>s.
     if map_of (ag_fs s) p = None then (Inl (OSErr ''no such file''), s)
     else (Inr (), s\<lparr>ag_fs := keep_paths (\<lambda>q. q \<noteq> p) (ag_fs s)\<rparr>))"

subsection \<open>The handlers and the executor\<close>

definition execute_noop :: action_result where
  "execute_noop = \<lparr>ar_status = RESULT_EXECUTED, ar_message = Some ''noop''\<rparr>"

definition clear_entry :: "'n agent_env \<Rightarrow> string \<Rightarrow> string \<Rightarrow> ('n agent, exn, unit) comp" where
  "clear_entry e path entry =
     seq (reads ag_fs) (\<lambda>fs.
     let entry_path = os_path_join (follow fs path) entry
     in if os_isdir fs entry_path \<and> \<not> os_islink fs entry_path
        then shutil_rmtree e entry_path
        else os_remove e entry_path)"

definition clear_directory_contents :: "'n agent_env \<Rightarrow> string \<Rightarrow> ('n agent, exn, int) comp" where
  "clear_directory_contents e path =
     seq (os_listdir e path) (\<lambda>entries.
     seq (for_each (clear_entry e path) entries) (\<lambda>_.
     ret (int (length entries))))"

definition execute_clear_directory ::
    "'n agent_env \<Rightarrow> dict \<Rightarrow> string list \<Rightarrow> ('n agent, exn, action_result) comp" where
  "execute_clear_directory e parameters allowed_directories =
     (let path = dict_get parameters ''path'' []
      in if path = [] \<or> path \<notin> set allowed_directories
         then raise (RemediationSafetyError (''path '' @ py_repr path @ '' is not in this Agent'' @ [CHR 0x27] @
                ''s remediation_allowed_directories allowlist''))
         else seq (clear_directory_contents e path) (\<lambda>removed.
              ret \<lparr>ar_status = RESULT_EXECUTED,
                   ar_message = Some (''removed '' @ show_int removed @ '' entries from '' @ path)\<rparr>))"

definition dispatch :: "'n agent_env \<Rightarrow> string list \<Rightarrow> pending_action \<Rightarrow> ('n agent, exn, action_result) comp" where
  "dispatch e allowed_directories action =
     (if pa_action_type action = NOOP then ret execute_noop
      else if pa_action_type action = CLEAR_DIRECTORY
      then execute_clear_directory e (pa_parameters action) allowed_directories
      else raise (RemediationSafetyError (''action_type '' @ py_repr (action_type_value (pa_action_type action)) @
             '' is not supported by this Agent'' @ [CHR 0x27] @ ''s executor'')))"

text \<open>\<open>str(exc)\<close>: a ClusterPulse error is its message.\<close>

fun exn_message :: "'n agent_env \<Rightarrow> exn \<Rightarrow> string" where
  "exn_message e (RemediationSafetyError m) = m"
| "exn_message e x = exn_str e x"

fun caught_by_executor :: "exn \<Rightarrow> bool" where
  "caught_by_executor (RemediationSafetyError m) = True"
| "caught_by_executor (OSErr m) = True"
| "caught_by_executor x = False"

definition execute_action ::
    "'n agent_env \<Rightarrow> string list \<Rightarrow> pending_action \<Rightarrow> ('n agent, exn, action_result) comp" where
  "execute_action e allowed_directories action =
     attempt (dispatch e allowed_directories action) (\<lambda>x.
       if caught_by_executor x
       then ret \<lparr>ar_status = RESULT_FAILED, ar_message = Some (exn_message e x)\<rparr>
       else raise x)"

subsection \<open>Paths\<close>

lemma map_of_keep: "map_of (keep_paths P fs) q = (if P q then map_of fs q else None)"
  by (induction fs) (auto simp: keep_paths_def)

lemma slashed_last: "slashed d \<noteq> [] \<and> last (slashed d) = CHR ''/''"
  by (simp add: slashed_def)

lemma below_join: "n \<noteq> [] \<Longrightarrow> below d (os_path_join d n)"
  by (auto simp: below_def os_path_join_def strict_prefix_def prefix_def)

lemma below_below: "below d p \<Longrightarrow> below p q \<Longrightarrow> below d q"
  by (auto simp: below_def slashed_def split: if_splits dest: prefix_order.less_trans)
    (metis append_prefixD prefix_order.dual_order.strict_trans1 strict_prefix_def)+

lemma below_irrefl: "\<not> below d d"
  by (auto simp: below_def slashed_def strict_prefix_def dest: prefix_length_le)

lemma child_name_SomeD:
  "child_name d q = Some n \<Longrightarrow> q = os_path_join d n \<and> n \<noteq> [] \<and> CHR ''/'' \<notin> set n"
  by (auto simp: child_name_def Let_def below_def os_path_join_def strict_prefix_def prefix_def split: if_splits)

lemma children_mem: "n \<in> set (children fs d) \<longleftrightarrow> (\<exists>q \<in> fst ` set fs. child_name d q = Some n)"
  by (force simp: children_def map_filter_def)

subsection \<open>What an execution may touch\<close>

text \<open>
  Nothing appears; what disappears is below one of the two given directories; the rest of the
  Agent is left alone.
\<close>

definition same_elsewhere :: "'n agent \<Rightarrow> 'n agent \<Rightarrow> bool" where
  "same_elsewhere s t \<longleftrightarrow> t = s\<lparr>ag_fs := ag_fs t, ag_io := ag_io t\<rparr>"

definition only_removed :: "string set \<Rightarrow> file_system \<Rightarrow> file_system \<Rightarrow> bool" where
  "only_removed D fs fs' \<longleftrightarrow> (\<forall>q. map_of fs' q = map_of fs q \<or> map_of fs' q = None \<and> (\<exists>d \<in> D. below d q))"

definition removed_below :: "string set \<Rightarrow> 'n agent \<Rightarrow> 'n agent \<Rightarrow> bool" where
  "removed_below D s t \<longleftrightarrow> same_elsewhere s t \<and> only_removed D (ag_fs s) (ag_fs t)"

lemma only_removed_refl [simp]: "only_removed D fs fs"
  by (simp add: only_removed_def)

lemma only_removed_trans: "only_removed D fs1 fs2 \<Longrightarrow> only_removed D fs2 fs3 \<Longrightarrow> only_removed D fs1 fs3"
  unfolding only_removed_def by metis

lemma only_removed_mono: "only_removed D fs fs' \<Longrightarrow> D \<subseteq> D' \<Longrightarrow> only_removed D' fs fs'"
  unfolding only_removed_def by blast

lemma follow_only_removed: "only_removed D fs fs' \<Longrightarrow> follow fs' path \<in> {follow fs path, canonical path}"
  unfolding only_removed_def follow_def by (metis (no_types, lifting) insertCI option.simps(4))

lemma same_elsewhere_trans: "same_elsewhere s t \<Longrightarrow> same_elsewhere t u \<Longrightarrow> same_elsewhere s u"
  by (cases s, cases t, cases u) (simp add: same_elsewhere_def)

lemma removed_below_refl [simp]: "removed_below D s s"
  by (simp add: removed_below_def same_elsewhere_def)

lemma removed_below_trans: "removed_below D s t \<Longrightarrow> removed_below D t u \<Longrightarrow> removed_below D s u"
  unfolding removed_below_def by (metis same_elsewhere_trans only_removed_trans)

lemma removed_below_io [simp]: "removed_below D s (s\<lparr>ag_io := n\<rparr>)"
  by (simp add: removed_below_def same_elsewhere_def)

lemma removed_below_keep:
  "(\<And>q. \<not> P q \<Longrightarrow> \<exists>d \<in> D. below d q) \<Longrightarrow> removed_below D s (s\<lparr>ag_io := n, ag_fs := keep_paths P (ag_fs s)\<rparr>)"
  by (auto simp: removed_below_def same_elsewhere_def only_removed_def map_of_keep)

lemma follow_removed:
  "removed_below D s t \<Longrightarrow> follow (ag_fs t) path \<in> {follow (ag_fs s) path, canonical path}"
  unfolding removed_below_def by (blast dest: follow_only_removed)

lemma clear_entry_removes:
  assumes "entry \<noteq> []" and "follow (ag_fs s) path \<in> D"
  shows "wp (clear_entry e path entry) (\<lambda>_. removed_below D s) (\<lambda>_. removed_below D s) s"
proof -
  let ?p = "os_path_join (follow (ag_fs s) path) entry"
  have below: "\<exists>d \<in> D. below d q" if "q = ?p \<or> below ?p q" for q
    using assms below_join below_below that by blast
  have gone: "removed_below D s (s\<lparr>ag_io := n, ag_fs := keep_paths P (ag_fs s)\<rparr>)"
    if "\<And>q. \<not> P q \<Longrightarrow> q = ?p \<or> below ?p q" for n P
    using below that by (intro removed_below_keep) blast
  show ?thesis
    by (auto simp: clear_entry_def wp_def run_defs shutil_rmtree_def os_remove_def file_op_def Let_def intro!: gone)
qed

lemma clear_directory_removes:
  assumes "D = {follow (ag_fs s) path, canonical path}"
  shows "wp (clear_directory_contents e path) (\<lambda>_. removed_below D s) (\<lambda>_. removed_below D s) s"
  unfolding clear_directory_contents_def wp_seq wp_ret os_listdir_def wp_file_op
proof (simp add: Let_def split: option.splits fnode.splits, intro impI)
  let ?s = "s\<lparr>ag_io := Suc (ag_io s)\<rparr>" and ?d = "follow (ag_fs s) path"
  have nonempty: "n \<noteq> []" if "n \<in> set (children (ag_fs s) ?d)" for n
    using that child_name_SomeD by (fastforce simp: children_mem)
  have "wp (for_each (clear_entry e path) (children (ag_fs s) ?d))
      (\<lambda>_ t. removed_below D s t) (\<lambda>_ t. removed_below D s t) ?s"
  proof -
    have "wp (for_each (clear_entry e path) (children (ag_fs s) ?d))
        (\<lambda>ys t. removed_below D s t \<and> (\<forall>y \<in> set ys. True)) (\<lambda>_ t. removed_below D s t) ?s"
    proof (rule wp_for_each_inv)
      fix n t
      assume "n \<in> set (children (ag_fs s) ?d)" and t: "removed_below D s t"
      then have "wp (clear_entry e path n) (\<lambda>_. removed_below D t) (\<lambda>_. removed_below D t) t"
        using follow_removed [OF t] assms nonempty by (intro clear_entry_removes) auto
      then show "wp (clear_entry e path n) (\<lambda>y u. removed_below D s u \<and> True) (\<lambda>_ u. removed_below D s u) t"
        by (rule wp_mono) (auto intro: removed_below_trans [OF t])
    qed simp
    then show ?thesis
      by (rule wp_mono) auto
  qed
  then show "wp (for_each (clear_entry e path) (children (ag_fs s) ?d))
      (\<lambda>_. removed_below D s) (\<lambda>_. removed_below D s) ?s"
    by simp
qed

lemma clear_directory_raises:
  "wp (clear_directory_contents e path) (\<lambda>_ _. True) (\<lambda>x _. is_os_error x) s"
proof -
  have "wp (clear_entry e path n) (\<lambda>_ _. True \<and> True) (\<lambda>x _. is_os_error x) t" for n t
    by (auto simp: clear_entry_def wp_def run_defs shutil_rmtree_def os_remove_def file_op_def Let_def)
  then have "wp (for_each (clear_entry e path) ns) (\<lambda>ys t. True \<and> (\<forall>y \<in> set ys. True)) (\<lambda>x _. is_os_error x) t" for ns t
    by (intro wp_for_each_inv) simp_all
  then show ?thesis
    by (auto simp: clear_directory_contents_def os_listdir_def wp_simps wp_file_op Let_def
        split: option.splits fnode.splits)
qed

text \<open>
  One action: no exception comes out, and only the named directory's contents may be touched, and
  only if it is a directory the Agent allows.
\<close>

definition may_clear :: "string list \<Rightarrow> pending_action \<Rightarrow> file_system \<Rightarrow> string set" where
  "may_clear allowed action fs =
     (let path = dict_get (pa_parameters action) ''path'' []
      in if pa_action_type action = CLEAR_DIRECTORY \<and> path \<noteq> [] \<and> path \<in> set allowed
         then {follow fs path, canonical path} else {})"

lemma execute_action_touches:
  "wp (execute_action e allowed action) (\<lambda>_. removed_below (may_clear allowed action (ag_fs s)) s) (\<lambda>_ _. False) s"
proof -
  let ?path = "dict_get (pa_parameters action) ''path'' []"
  have clear: "wp (clear_directory_contents e ?path)
      (\<lambda>_. removed_below {follow (ag_fs s) ?path, canonical ?path} s)
      (\<lambda>x t. removed_below {follow (ag_fs s) ?path, canonical ?path} s t \<and> is_os_error x) s"
    by (rule wp_mono [OF wp_conj [OF clear_directory_removes [OF refl] clear_directory_raises]]) auto
  show ?thesis
  proof (cases "pa_action_type action = CLEAR_DIRECTORY \<and> ?path \<noteq> [] \<and> ?path \<in> set allowed")
    case True
    then have D: "may_clear allowed action (ag_fs s) = {follow (ag_fs s) ?path, canonical ?path}"
      by (simp add: may_clear_def Let_def)
    have "dispatch e allowed action = seq (clear_directory_contents e ?path) (\<lambda>removed.
        ret \<lparr>ar_status = RESULT_EXECUTED, ar_message = Some (''removed '' @ show_int removed @ '' entries from '' @ ?path)\<rparr>)"
      using True by (simp add: dispatch_def execute_clear_directory_def Let_def)
    then show ?thesis
      unfolding execute_action_def wp_attempt D
      using clear by (simp add: wp_seq wp_ret) (erule wp_mono; auto simp: wp_simps is_os_error_def)
  next
    case False
    then have "may_clear allowed action (ag_fs s) = {}"
      by (auto simp: may_clear_def Let_def)
    with False show ?thesis
      by (auto simp: execute_action_def dispatch_def execute_clear_directory_def wp_simps Let_def)
  qed
qed

subsection \<open>What clearing achieves\<close>

text \<open>
  A directory whose entries form a tree: whatever is below it is an entry of it or below an entry
  that is a directory.
\<close>

definition tree_below :: "file_system \<Rightarrow> string \<Rightarrow> bool" where
  "tree_below fs d \<longleftrightarrow> (\<forall>q \<in> fst ` set fs. below d q \<longrightarrow>
     (\<exists>n \<in> set (children fs d). q = os_path_join d n \<or>
        (map_of fs (os_path_join d n) = Some DirNode \<and> below (os_path_join d n) q)))"

lemma join_below_join:
  assumes "CHR ''/'' \<notin> set n" and "n \<noteq> []" and "CHR ''/'' \<notin> set m" and "m \<noteq> []"
  shows "\<not> below (os_path_join d n) (os_path_join d m)"
proof
  assume "below (os_path_join d n) (os_path_join d m)"
  moreover have "last n \<noteq> CHR ''/''"
    using assms(1) last_in_set [OF assms(2)] by metis
  then have "slashed (os_path_join d n) = slashed d @ n @ ''/''"
    using assms(2) by (simp add: slashed_def [of "slashed d @ n"] os_path_join_def)
  ultimately obtain r where "m = n @ ''/'' @ r"
    by (auto simp: below_def os_path_join_def strict_prefix_def prefix_def)
  then show False
    using assms(3) by simp
qed

text \<open>One entry of a plain directory, when no operation fails.\<close>

definition gone :: "string \<Rightarrow> string \<Rightarrow> file_system \<Rightarrow> file_system" where
  "gone d n fs = (let p = os_path_join d n in
     keep_paths (\<lambda>q. q \<noteq> p \<and> \<not> (map_of fs p = Some DirNode \<and> below p q)) fs)"

lemma clear_entry_done:
  assumes "no_io_faults e" and "map_of (ag_fs s) (canonical path) = Some DirNode"
    and "map_of (ag_fs s) (os_path_join (canonical path) n) \<noteq> None"
  shows "clear_entry e path n s = (Inr (), s\<lparr>ag_io := Suc (ag_io s), ag_fs := gone (canonical path) n (ag_fs s)\<rparr>)"
proof -
  have "follow (ag_fs s) path = canonical path"
    using assms(2) by (simp add: follow_def)
  then show ?thesis
    using assms
    by (auto simp: clear_entry_def run_defs shutil_rmtree_def os_remove_def file_op_def Let_def no_io_faults_def
        gone_def os_isdir_def os_islink_def split: option.splits fnode.splits)
qed

lemma map_of_gone:
  "map_of (gone d n fs) q = (if q = os_path_join d n \<or>
     (map_of fs (os_path_join d n) = Some DirNode \<and> below (os_path_join d n) q) then None else map_of fs q)"
  by (auto simp: gone_def Let_def map_of_keep)

text \<open>The paths that clearing the given entries removes.\<close>

definition cleared :: "string \<Rightarrow> string list \<Rightarrow> file_system \<Rightarrow> string \<Rightarrow> bool" where
  "cleared d ns fs q \<longleftrightarrow> (\<exists>n \<in> set ns. q = os_path_join d n \<or>
     (map_of fs (os_path_join d n) = Some DirNode \<and> below (os_path_join d n) q))"

lemma cleared_Cons:
  assumes "\<And>m. m \<in> set ns \<Longrightarrow> map_of fs' (os_path_join d m) = map_of fs (os_path_join d m)"
  shows "cleared d (n # ns) fs q \<longleftrightarrow> cleared d [n] fs q \<or> cleared d ns fs' q"
  using assms by (auto simp: cleared_def)

lemma map_of_gone_cleared: "map_of (gone d n fs) q = (if cleared d [n] fs q then None else map_of fs q)"
  by (simp add: map_of_gone cleared_def)

definition entry_of :: "file_system \<Rightarrow> string \<Rightarrow> string \<Rightarrow> bool" where
  "entry_of fs d n \<longleftrightarrow> n \<noteq> [] \<and> CHR ''/'' \<notin> set n \<and> map_of fs (os_path_join d n) \<noteq> None"

lemma clear_entries_done:
  assumes "no_io_faults e" and "distinct ns" and "map_of (ag_fs s) (canonical path) = Some DirNode"
    and "\<And>n. n \<in> set ns \<Longrightarrow> entry_of (ag_fs s) (canonical path) n"
  shows "\<exists>vs t. for_each (clear_entry e path) ns s = (Inr vs, t) \<and>
     (\<forall>q. map_of (ag_fs t) q = (if cleared (canonical path) ns (ag_fs s) q then None else map_of (ag_fs s) q))"
  using assms(2-)
proof (induction ns arbitrary: s)
  case Nil
  then show ?case by (simp add: ret_def cleared_def)
next
  case (Cons n ns)
  let ?d = "canonical path"
  let ?fs = "gone ?d n (ag_fs s)"
  let ?s = "s\<lparr>ag_io := Suc (ag_io s), ag_fs := ?fs\<rparr>"
  have n: "n \<noteq> []" "CHR ''/'' \<notin> set n" "map_of (ag_fs s) (os_path_join ?d n) \<noteq> None"
    using Cons.prems(3) [of n] by (simp_all add: entry_of_def)
  have run: "clear_entry e path n s = (Inr (), ?s)"
    by (rule clear_entry_done [OF assms(1) Cons.prems(2) n(3)])
  have keep: "map_of ?fs (os_path_join ?d m) = map_of (ag_fs s) (os_path_join ?d m)" if "m \<in> set ns" for m
  proof -
    have "m \<noteq> n" "m \<noteq> []" "CHR ''/'' \<notin> set m"
      using Cons.prems(1) Cons.prems(3) [of m] that by (auto simp: entry_of_def)
    then show ?thesis
      using join_below_join [OF n(2,1), of m ?d] by (auto simp: map_of_gone os_path_join_def)
  qed
  have "\<not> below (os_path_join ?d n) ?d"
    using below_irrefl below_below below_join n(1) by blast
  moreover have "?d \<noteq> os_path_join ?d n"
    using below_join [OF n(1), of ?d] below_irrefl by metis
  ultimately have dir: "map_of ?fs ?d = Some DirNode"
    using Cons.prems(2) by (simp add: map_of_gone)
  have "entry_of ?fs ?d m" if "m \<in> set ns" for m
    using Cons.prems(3) [of m] keep [OF that] that by (simp add: entry_of_def)
  then obtain vs t where "for_each (clear_entry e path) ns ?s = (Inr vs, t)"
      and t: "\<forall>q. map_of (ag_fs t) q = (if cleared ?d ns ?fs q then None else map_of ?fs q)"
    using Cons.IH [of ?s] Cons.prems(1) dir by auto
  then show ?case
    using run cleared_Cons [of ns ?fs ?d "ag_fs s" n, OF keep] by (simp add: run_defs map_of_gone_cleared)
qed

lemma distinct_children: "distinct (map fst fs) \<Longrightarrow> distinct (children fs d)"
proof (induction fs)
  case (Cons x fs)
  have "n \<notin> set (children fs d)" if "child_name d (fst x) = Some n" for n
  proof
    assume "n \<in> set (children fs d)"
    then obtain q where "q \<in> fst ` set fs" "child_name d q = Some n"
      by (auto simp: children_mem)
    then show False
      using Cons.prems child_name_SomeD [of d q n] child_name_SomeD [OF that] by simp
  qed
  then show ?case
    using Cons by (auto simp: children_def map_filter_simps split_beta split: option.splits)
qed (simp add: children_def map_filter_simps)

text \<open>
  A plain directory is emptied: everything below it is gone, everything else, itself included,
  stays, and the result counts its entries.
\<close>

lemma clear_directory_done:
  assumes "no_io_faults e" and "distinct (map fst (ag_fs s))" and "tree_below (ag_fs s) (canonical path)"
    and dir: "map_of (ag_fs s) (canonical path) = Some DirNode"
  shows "\<exists>t. clear_directory_contents e path s = (Inr (int (length (children (ag_fs s) (canonical path)))), t) \<and>
     (\<forall>q. map_of (ag_fs t) q = (if below (canonical path) q then None else map_of (ag_fs s) q))"
proof -
  let ?d = "canonical path" and ?s = "s\<lparr>ag_io := Suc (ag_io s)\<rparr>"
  let ?ns = "children (ag_fs s) ?d"
  have follow: "follow (ag_fs s) path = ?d"
    using dir by (simp add: follow_def)
  have list: "os_listdir e path s = (Inr ?ns, ?s)"
    using assms(1) dir by (simp add: os_listdir_def file_op_def no_io_faults_def Let_def follow)
  have entry: "entry_of (ag_fs s) ?d n" if child: "n \<in> set ?ns" for n
  proof -
    obtain q where "q \<in> fst ` set (ag_fs s)" "child_name ?d q = Some n"
      using child unfolding children_mem by blast
    then have "q = os_path_join ?d n" "n \<noteq> []" "CHR ''/'' \<notin> set n" "map_of (ag_fs s) q \<noteq> None"
      using child_name_SomeD [of ?d q n] by (simp_all add: map_of_eq_None_iff)
    then show ?thesis
      unfolding entry_of_def by simp
  qed
  obtain vs t where t: "for_each (clear_entry e path) ?ns ?s = (Inr vs, t)"
      "\<forall>q. map_of (ag_fs t) q = (if cleared ?d ?ns (ag_fs s) q then None else map_of (ag_fs s) q)"
    using clear_entries_done [OF assms(1) distinct_children [OF assms(2)], of ?s path ?d] entry dir by auto
  have "cleared ?d ?ns (ag_fs s) q \<longleftrightarrow> below ?d q" if "map_of (ag_fs s) q \<noteq> None" for q
  proof
    assume "cleared ?d ?ns (ag_fs s) q"
    then show "below ?d q"
      using entry below_join below_below by (fastforce simp: cleared_def entry_of_def)
  next
    assume "below ?d q"
    then show "cleared ?d ?ns (ag_fs s) q"
      using assms(3) that by (auto simp: tree_below_def cleared_def map_of_eq_None_iff)
  qed
  then have "map_of (ag_fs t) q = (if below ?d q then None else map_of (ag_fs s) q)" for q
    using t(2) by (cases "map_of (ag_fs s) q") auto
  then show ?thesis
    using list t(1) by (simp add: clear_directory_contents_def run_defs)
qed

end
