(* ===== verification/Agent_Config.thy ===== *)
theory Agent_Config
  imports Agent_Scheduler Agent_Collectors Playbook_Executor
begin

text \<open>
  \<open>agent/config.py\<close> and \<open>agent/main.py\<close>: the settings of an Agent, the wiring of its scheduler, and
  the process. Reading the environment into settings is pydantic-settings' and a parameter: the
  settings, or the exception it raises. The lifecycle's shutdown flag is set by a signal handler;
  which poll of it is the first to see it set is up to the signals that arrive.
\<close>

record agent_settings =
  as_node_id :: string
  as_collector_base_url :: string
  as_collection_interval_seconds :: pyfloat
  as_auth_token :: "string option"
  as_http_timeout_seconds :: pyfloat
  as_http_retry_attempts :: int
  as_http_retry_min_wait_seconds :: pyfloat
  as_http_retry_max_wait_seconds :: pyfloat
  as_buffer_path :: string
  as_buffer_max_entries :: int
  as_remediation_enabled :: bool
  as_remediation_allowed_directories :: string

text \<open>The defaults; the node id falls back to the name of the host.\<close>

definition default_agent_settings :: "string \<Rightarrow> agent_settings" where
  "default_agent_settings hostname =
     \<lparr>as_node_id = hostname, as_collector_base_url = ''http://localhost:8000'',
      as_collection_interval_seconds = Fin 30, as_auth_token = None, as_http_timeout_seconds = Fin 10,
      as_http_retry_attempts = 3, as_http_retry_min_wait_seconds = Fin 1,
      as_http_retry_max_wait_seconds = Fin 10, as_buffer_path = ''./agent_buffer.jsonl'',
      as_buffer_max_entries = 1000, as_remediation_enabled = False,
      as_remediation_allowed_directories = []\<rparr>"

definition remediation_allowed_directory_set :: "agent_settings \<Rightarrow> string list" where
  "remediation_allowed_directory_set s = comma_set (as_remediation_allowed_directories s)"

text \<open>The clock that \<open>NodeMetricsPayload\<close> takes its default \<open>collected_at\<close> from.\<close>

definition utc_now :: "'n agent_env \<Rightarrow> ('n agent, exn, datetime) comp" where
  "utc_now e = (\<lambda>s. (Inr (DT (wall_clock e (ag_ticks s)) True), s\<lparr>ag_ticks := Suc (ag_ticks s)\<rparr>))"

definition agent_collectors :: "'n agent_env \<Rightarrow> (string \<times> ('n agent, exn, metric_sample list) comp) list" where
  "agent_collectors e =
     [(''CpuCollector'', cpu_collect e), (''MemoryCollector'', memory_collect e),
      (''DiskCollector'', disk_collect e DEFAULT_DISK_MOUNT_PATH), (''NetworkCollector'', network_collect e)]"

definition wired :: "'n agent_env \<Rightarrow> agent_settings \<Rightarrow> http_transport \<Rightarrow> file_buffer \<Rightarrow> 'n agent scheduler" where
  "wired e settings transport buffer =
     \<lparr>sc_node_id = as_node_id settings,
      sc_collectors = agent_collectors e,
      sc_send = send e transport,
      sc_report = report_action_result e transport,
      sc_enqueue = enqueue e buffer,
      sc_drain = drain_buffer_file e,
      sc_interval_seconds = as_collection_interval_seconds settings,
      sc_execute = (if as_remediation_enabled settings
                    then Some (execute_action e (remediation_allowed_directory_set settings)) else None),
      sc_now = utc_now e,
      sc_str = exn_message e\<rparr>"

definition build_scheduler :: "'n agent_env \<Rightarrow> agent_settings \<Rightarrow> ('n agent, exn, 'n agent scheduler) comp" where
  "build_scheduler e settings =
     (let transport = HttpTransport (as_collector_base_url settings) (as_http_retry_attempts settings)
            (as_auth_token settings)
      in seq (FileBuffer e (as_buffer_max_entries settings)) (\<lambda>buffer.
         seq (CpuCollector e) (\<lambda>_.
         ret (wired e settings transport buffer))))"

text \<open>
  The shutdown flag: \<open>signals k\<close> says that a \<open>SIGTERM\<close> or \<open>SIGINT\<close> arrives between the poll before
  the \<open>k\<close>-th and the \<open>k\<close>-th; its handler sets the flag, which nothing resets.
\<close>

definition shutdown_requested :: "(nat \<Rightarrow> bool) \<Rightarrow> nat \<Rightarrow> bool" where
  "shutdown_requested signals k = list_ex signals [0..<Suc k]"

text \<open>\<open>main\<close>: the process ends with an exception, ends on a shutdown signal, or never.\<close>

definition agent_main ::
    "'n agent_env \<Rightarrow> exn + agent_settings \<Rightarrow> (nat \<Rightarrow> bool) \<Rightarrow> 'n agent \<Rightarrow> ((exn + unit) \<times> 'n agent) option" where
  "agent_main e loaded signals s =
     (case loaded of
        Inl x \<Rightarrow> Some (Inl (ConfigurationError ''failed to load agent settings''), s)
      | Inr settings \<Rightarrow>
          (case build_scheduler e settings s of
             (Inl x, t) \<Rightarrow> Some (Inl x, t)
           | (Inr sched, t) \<Rightarrow> run_forever sched (shutdown_requested signals) 0 t))"

end
