(* ===== verification/Agent_Runs.thy ===== *)
theory Agent_Runs
  imports Agent_Config
begin

text \<open>
  The wired Agent keeps what its ports promise: the scheduler of \<open>build_scheduler\<close>, over the file
  buffer, the HTTP transport, the four collectors and the executor, is an instance of the locale
  \<open>agent_cycle\<close>. What is relied on outside the repository is that file operations succeed, that
  tenacity retries as documented, and that pydantic reads back what it wrote for payloads of plain
  text and doubles.
\<close>

lemma wired_simps [simp]:
  "sc_node_id (wired e st tr b) = as_node_id st" "sc_collectors (wired e st tr b) = agent_collectors e"
  "sc_send (wired e st tr b) = send e tr" "sc_report (wired e st tr b) = report_action_result e tr"
  "sc_enqueue (wired e st tr b) = enqueue e b" "sc_drain (wired e st tr b) = drain_buffer_file e"
  "sc_interval_seconds (wired e st tr b) = as_collection_interval_seconds st"
  "sc_execute (wired e st tr b) = (if as_remediation_enabled st
     then Some (execute_action e (remediation_allowed_directory_set st)) else None)"
  "sc_now (wired e st tr b) = utc_now e" "sc_str (wired e st tr b) = exn_message e"
  by (simp_all add: wired_def)

subsection \<open>Plain payloads\<close>

definition plain_text :: "string \<Rightarrow> bool" where
  "plain_text t \<longleftrightarrow> list_all (\<lambda>c. (32 :: nat) \<le> of_char c \<and> (of_char c :: nat) < 127) t"

definition is_double :: "pyfloat \<Rightarrow> bool" where
  "is_double v \<longleftrightarrow> (\<exists>x q. v = Fin q \<and> round_double x = Fin q)"

definition plain_sample :: "metric_sample \<Rightarrow> bool" where
  "plain_sample m \<longleftrightarrow> is_double (ms_value m) \<and> plain_text (ms_unit m) \<and>
     list_all (\<lambda>(k, v). plain_text k \<and> plain_text v) (ms_labels m)"

definition plain_payload :: "payload \<Rightarrow> bool" where
  "plain_payload p \<longleftrightarrow> plain_text (pl_node_id p) \<and> in_range (pl_collected_at p) \<and> aware (pl_collected_at p) \<and>
     list_all plain_sample (pl_samples p) \<and> list_all plain_text (pl_collection_errors p)"

definition documented_json :: "'n agent_env \<Rightarrow> bool" where
  "documented_json e \<longleftrightarrow> (\<forall>p. plain_payload p \<longrightarrow> comes_back e p)"

text \<open>What the node reports: doubles, a clock within the years of a datetime, plain messages.\<close>

definition plain_node :: "'n agent_env \<Rightarrow> string \<Rightarrow> bool" where
  "plain_node e node \<longleftrightarrow> plain_text node \<and>
     (\<forall>k. case cpu_percent e k of Inr v \<Rightarrow> is_double v | Inl x \<Rightarrow> plain_text (exn_message e x)) \<and>
     (\<forall>k. case virtual_memory e k of Inr v \<Rightarrow> is_double (vm_percent v) | Inl x \<Rightarrow> plain_text (exn_message e x)) \<and>
     (\<forall>k m. case disk_usage e k m of Inr v \<Rightarrow> is_double (du_percent v) | Inl x \<Rightarrow> plain_text (exn_message e x)) \<and>
     (\<forall>k. case net_io_counters e k of Inr v \<Rightarrow> True | Inl x \<Rightarrow> plain_text (exn_message e x)) \<and>
     plain_text (exn_message e OverflowErr) \<and>
     (\<forall>k. in_range (DT (wall_clock e k) True))"

lemma plain_text_append [simp]: "plain_text (a @ b) \<longleftrightarrow> plain_text a \<and> plain_text b"
  by (simp add: plain_text_def)

lemma float_of_int_double: "float_of_int i = Inr v \<Longrightarrow> is_double v"
  by (auto simp: float_of_int_def is_double_def split: pyfloat.splits) metis

lemma float_of_int_error: "float_of_int i = Inl x \<Longrightarrow> x = OverflowErr"
  by (auto simp: float_of_int_def split: pyfloat.splits)

lemma collectors_plain:
  assumes "plain_node e node" and "(name, c) \<in> set (agent_collectors e)"
  shows "wp c (\<lambda>xs t. only_psutil s t \<and> list_all plain_sample xs)
     (\<lambda>x t. only_psutil s t \<and> plain_text (exn_message e x)) s"
proof -
  let ?k = "ag_psutil s"
  have plain: "plain_text ''percent''" "plain_text ''bytes''" "plain_text ''mount_point''"
      "plain_text DEFAULT_DISK_MOUNT_PATH"
    by (simp_all add: plain_text_def DEFAULT_DISK_MOUNT_PATH_def)
  have readings: "case cpu_percent e ?k of Inr v \<Rightarrow> is_double v | Inl x \<Rightarrow> plain_text (exn_message e x)"
      "case virtual_memory e ?k of Inr v \<Rightarrow> is_double (vm_percent v) | Inl x \<Rightarrow> plain_text (exn_message e x)"
      "case disk_usage e ?k m of Inr v \<Rightarrow> is_double (du_percent v) | Inl x \<Rightarrow> plain_text (exn_message e x)"
      "case net_io_counters e ?k of Inr v \<Rightarrow> True | Inl x \<Rightarrow> plain_text (exn_message e x)"
      "plain_text (exn_message e OverflowErr)" for m
    using assms(1) by (simp_all add: plain_node_def)
  note defs = wp_def run_defs psutil_call_def only_psutil_def MetricSample_def plain_sample_def Let_def
  consider "c = cpu_collect e" | "c = memory_collect e" | "c = disk_collect e DEFAULT_DISK_MOUNT_PATH"
    | "c = network_collect e"
    using assms(2) by (auto simp: agent_collectors_def)
  then show ?thesis
  proof cases
    case 1
    then show ?thesis
      using readings(1) plain by (simp add: cpu_collect_def defs split: sum.splits)
  next
    case 2
    then show ?thesis
      using readings(2,5) plain
      by (auto simp: memory_collect_def defs split: sum.splits dest!: float_of_int_double float_of_int_error)
  next
    case 3
    then show ?thesis
      using readings(3) [of DEFAULT_DISK_MOUNT_PATH] readings(5) plain
      by (auto simp: disk_collect_def defs split: sum.splits dest!: float_of_int_double float_of_int_error)
  next
    case 4
    then show ?thesis
      using readings(4,5) plain
      by (auto simp: network_collect_def defs split: sum.splits dest!: float_of_int_double float_of_int_error)
  qed
qed

lemma collector_names_plain: "(name, c) \<in> set (agent_collectors e) \<Longrightarrow> plain_text name"
  by (auto simp: agent_collectors_def plain_text_def)

lemma collect_plain:
  assumes "plain_node e (as_node_id st)"
  shows "wp (collect (wired e st tr b))
     (\<lambda>p t. plain_payload p \<and> pl_node_id p = as_node_id st \<and>
        t = s\<lparr>ag_psutil := ag_psutil t, ag_ticks := ag_ticks t\<rparr>) (\<lambda>_ _. False) s"
proof -
  let ?I = "\<lambda>t. t = s\<lparr>ag_psutil := ag_psutil t\<rparr>"
  have step: "?I u" if "?I t" "only_psutil t u" for t u
    using that unfolding only_psutil_def by (metis agent.select_convs(5) agent.surjective agent.update_convs(5))
  have "wp (run_collectors (wired e st tr b) (agent_collectors e) [] [])
      (\<lambda>(xs, es) t. ?I t \<and> list_all plain_sample xs \<and> list_all plain_text es) (\<lambda>_ _. False) s"
  proof (rule wp_run_collectors)
    fix name c t
    assume c: "(name, c) \<in> set (agent_collectors e)" and t: "?I t"
    have "plain_text (name @ '': '' @ sc_str (wired e st tr b) x)" if "plain_text (exn_message e x)" for x
      using that collector_names_plain [OF c] by (simp add: plain_text_def)
    then show "wp c (\<lambda>xs u. ?I u \<and> list_all plain_sample xs)
        (\<lambda>x u. ?I u \<and> plain_text (name @ '': '' @ sc_str (wired e st tr b) x)) t"
      using step [OF t] by (intro wp_mono [OF collectors_plain [OF assms c]]) blast+
  qed auto
  then show ?thesis
    unfolding collect_def
    by (simp add: wp_seq) (erule wp_mono;
        use assms in \<open>auto simp: wp_def utc_now_def run_defs plain_payload_def plain_node_def\<close>)
qed

subsection \<open>The instance\<close>

text \<open>The states and environments in which the Agent works as intended.\<close>

definition steady :: "'n agent_env \<Rightarrow> agent_settings \<Rightarrow> 'n agent \<Rightarrow> bool" where
  "steady e st s \<longleftrightarrow> sound e s \<and> documented_retry (retry_send e) \<and> documented_retry (retry_report e) \<and>
     documented_json e \<and> plain_node e (as_node_id st)"

lemma sound_same:
  "ag_buffer t = ag_buffer s \<Longrightarrow> sound e t = sound e s" "ag_buffer t = ag_buffer s \<Longrightarrow> entries e t = entries e s"
  by (simp_all add: sound_def entries_def)

lemma steady_keep: "steady e st s \<Longrightarrow> ag_buffer t = ag_buffer s \<Longrightarrow> steady e st t \<and> entries e t = entries e s"
  by (simp add: steady_def sound_same [of t s])

lemma removed_below_same: "removed_below D s t \<Longrightarrow> ag_buffer t = ag_buffer s \<and> ag_net t = ag_net s"
  unfolding removed_below_def same_elsewhere_def by (metis agent.ext_inject agent.surjective agent.update_convs(3,4))

lemma only_net_same: "only_net s t \<Longrightarrow> ag_buffer t = ag_buffer s \<and> ag_fs t = ag_fs s"
  unfolding only_net_def by (metis agent.ext_inject agent.surjective agent.update_convs(7))

interpretation wired_agent: agent_cycle "enqueue e b" "drain_buffer_file e" "nat (fb_max_entries b)"
    "steady e st" "comes_back e" "entries e" ag_net "send e tr" "deliver_over e tr" "wired e st tr b" "net_later e"
  for e b st tr
proof unfold_locales
  fix s p
  assume "steady e st s" "comes_back e p"
  then show "wp (enqueue e b p) (\<lambda>_ t. steady e st t \<and> ag_net t = ag_net s \<and>
      entries e t = newest (nat (fb_max_entries b)) (entries e s @ [p])) (\<lambda>_ _. False) s"
    by (intro wp_mono [OF file_queue.enq_law]) (auto simp: steady_def besides_def)
next
  fix s and k :: int
  assume "steady e st s" "0 \<le> k"
  then show "wp (drain_buffer_file e k) (\<lambda>v t. steady e st t \<and> ag_net t = ag_net s \<and>
      v = take (nat k) (entries e s) \<and> entries e t = drop (nat k) (entries e s)) (\<lambda>_ _. False) s"
    by (intro wp_mono [OF file_queue.drn_law]) (auto simp: steady_def besides_def)
next
  fix s
  assume "steady e st s"
  then show "list_all (comes_back e) (entries e s)"
    by (simp add: steady_def sound_def)
next
  fix s p
  assume "steady e st s"
  then show "wp (send e tr p)
      (\<lambda>a t. steady e st t \<and> entries e t = entries e s \<and> deliver_over e tr p (ag_net s) = (Inr a, ag_net t))
      (\<lambda>x t. steady e st t \<and> entries e t = entries e s \<and> deliver_over e tr p (ag_net s) = (Inl x, ag_net t)) s"
    by (auto simp: wp_def steady_def send_deliver_over sound_def entries_def split: prod.splits sum.splits)
next
  fix s
  assume s: "steady e st s"
  then have "wp (collect (wired e st tr b)) (\<lambda>p t. plain_payload p \<and> pl_node_id p = as_node_id st \<and>
        t = s\<lparr>ag_psutil := ag_psutil t, ag_ticks := ag_ticks t\<rparr>) (\<lambda>_ _. False) s"
    by (intro collect_plain) (simp add: steady_def)
  then show "wp (collect (wired e st tr b)) (\<lambda>p t. steady e st t \<and> entries e t = entries e s \<and>
      ag_net t = ag_net s \<and> comes_back e p \<and> pl_node_id p = sc_node_id (wired e st tr b)) (\<lambda>_ _. False) s"
  proof (rule wp_mono)
    fix p t
    assume p: "plain_payload p \<and> pl_node_id p = as_node_id st \<and> t = s\<lparr>ag_psutil := ag_psutil t, ag_ticks := ag_ticks t\<rparr>"
    then have "ag_buffer t = ag_buffer s" "ag_net t = ag_net s"
      by (metis agent.ext_inject agent.surjective agent.update_convs(5,6))+
    then show "steady e st t \<and> entries e t = entries e s \<and> ag_net t = ag_net s \<and> comes_back e p \<and>
        pl_node_id p = sc_node_id (wired e st tr b)"
      using p s sound_same [of t s e] by (simp add: steady_def documented_json_def)
  qed simp
next
  fix f s a
  assume f: "sc_execute (wired e st tr b) = Some f" and s: "steady e st s"
  have f': "f = execute_action e (remediation_allowed_directory_set st)"
    using f by (simp split: if_splits)
  show "wp (f a) (\<lambda>_ t. steady e st t \<and> entries e t = entries e s \<and> ag_net t = ag_net s) (\<lambda>_ _. False) s"
    unfolding f' using steady_keep [OF s] removed_below_same
    by (intro wp_mono [OF execute_action_touches]) blast+
next
  fix s i v
  assume s: "steady e st s"
  have "wp (report_action_result e tr i v) (\<lambda>_. net_moved e s) (\<lambda>_. net_moved e s) s"
    by (rule report_moves) (use s in \<open>simp add: steady_def\<close>)
  then show "wp (sc_report (wired e st tr b) i v)
      (\<lambda>_ t. steady e st t \<and> entries e t = entries e s \<and> net_later e (ag_net s) (ag_net t))
      (\<lambda>_ t. steady e st t \<and> entries e t = entries e s \<and> net_later e (ag_net s) (ag_net t)) s"
    using steady_keep [OF s] only_net_same unfolding wired_simps net_moved_def by (elim wp_mono) blast+
qed (auto intro: net_later_trans)

subsection \<open>What the Agent may do to the node\<close>

text \<open>The directories whose contents the settings let the executor clear, in a given file system.\<close>

definition clearable :: "agent_settings \<Rightarrow> file_system \<Rightarrow> string set" where
  "clearable st fs = (if as_remediation_enabled st
     then (\<Union>path \<in> set (remediation_allowed_directory_set st). {follow fs path, canonical path}) else {})"

lemma may_clear_clearable:
  assumes "as_remediation_enabled st" and "only_removed (clearable st fs) fs fs'"
  shows "may_clear (remediation_allowed_directory_set st) action fs' \<subseteq> clearable st fs"
  using follow_only_removed [OF assms(2)] assms(1) by (auto simp: may_clear_def clearable_def Let_def)

lemma keeps_fs: "(\<And>s. wp m (\<lambda>_ t. ag_fs t = ag_fs s) (\<lambda>_ t. ag_fs t = ag_fs s) s) \<Longrightarrow> keeps (\<lambda>s. P (ag_fs s)) m"
  unfolding keeps_def by (metis (mono_tags, lifting) wp_mono)

lemma buffer_fs:
  "wp (enqueue e b p) (\<lambda>_ t. ag_fs t = ag_fs s) (\<lambda>_ t. ag_fs t = ag_fs s) s"
  "wp (drain_buffer_file e k) (\<lambda>_ t. ag_fs t = ag_fs s) (\<lambda>_ t. ag_fs t = ag_fs s) s"
proof -
  have writing: "wp (write_all e ps) (\<lambda>_ u. ag_fs u = ag_fs s) (\<lambda>_ u. ag_fs u = ag_fs s) t" if "ag_fs t = ag_fs s" for ps t
    by (rule wp_mono [OF write_all_atomic]) (use that in \<open>auto simp: besides_def\<close>)
  have reading: "wp (read_all e) (\<lambda>_ t. ag_fs t = ag_fs s) (\<lambda>_ t. ag_fs t = ag_fs s) s"
    by (rule wp_mono [OF read_all_rule]) (auto simp: besides_def)
  show "wp (enqueue e b p) (\<lambda>_ t. ag_fs t = ag_fs s) (\<lambda>_ t. ag_fs t = ag_fs s) s"
    unfolding enqueue_def wp_seq Let_def by (rule wp_mono [OF reading writing])
  show "wp (drain_buffer_file e k) (\<lambda>_ t. ag_fs t = ag_fs s) (\<lambda>_ t. ag_fs t = ag_fs s) s"
    unfolding drain_buffer_file_def wp_seq wp_ret by (rule wp_mono [OF reading writing])
qed

lemma only_psutil_fs: "only_psutil s t \<Longrightarrow> ag_fs t = ag_fs s"
  by (simp add: only_psutil_def)

lemma wired_keeps_fs:
  assumes "documented_retry (retry_send e)" and "documented_retry (retry_report e)"
  shows "ports_keep (\<lambda>s. only_removed (clearable st fs) fs (ag_fs s)) (wired e st tr b)"
proof -
  let ?I = "\<lambda>s. only_removed (clearable st fs) fs (ag_fs s)"
  have "keeps ?I (send e tr p)" for p
    by (intro keeps_fs wp_mono [OF send_only_net [OF assms(1)]]) (blast dest: only_net_same)+
  moreover have "keeps ?I (report_action_result e tr i r)" for i r
    by (intro keeps_fs wp_mono [OF report_only_net [OF assms(2)]]) (blast dest: only_net_same)+
  moreover have "keeps ?I (enqueue e b p)" "keeps ?I (drain_buffer_file e k)" for p k
    by (intro keeps_fs buffer_fs)+
  moreover have "keeps ?I (utc_now e)"
    by (intro keeps_fs) (simp add: wp_def utc_now_def)
  moreover have "keeps ?I c" if "(name, c) \<in> set (agent_collectors e)" for name c
  proof -
    have c: "wp c (\<lambda>_. only_psutil s) (\<lambda>_. only_psutil s) s" for s
      using that collect_only_psutil [where s = s] by (auto simp: agent_collectors_def)
    show ?thesis
      by (intro keeps_fs wp_mono [OF c]) (erule only_psutil_fs)+
  qed
  moreover have "keeps ?I (execute_action e (remediation_allowed_directory_set st) a)"
    if "as_remediation_enabled st" for a
    unfolding keeps_def
  proof (intro allI impI)
    fix s :: "'a agent"
    assume s: "?I s"
    show "wp (execute_action e (remediation_allowed_directory_set st) a) (\<lambda>_. ?I) (\<lambda>_. ?I) s"
    proof (rule wp_mono [OF execute_action_touches])
      fix t
      assume "removed_below (may_clear (remediation_allowed_directory_set st) a (ag_fs s)) s t"
      then have "only_removed (clearable st fs) (ag_fs s) (ag_fs t)"
        using may_clear_clearable [OF that s] by (auto simp: removed_below_def intro: only_removed_mono)
      then show "?I t"
        by (rule only_removed_trans [OF s])
    qed simp
  qed
  ultimately show ?thesis
    by (auto simp: ports_keep_def)
qed

end
