(* ===== verification/Example_Codec.thy ===== *)
theory Example_Codec
  imports File_Buffer
begin

text \<open>
  A codec that reads back what it wrote, for use as pydantic's in the examples: a payload becomes a
  list of numbers, and these are printed in decimal. It shows that what the development asks of
  pydantic can be met; nothing of the Agent's model depends on it.
\<close>

subsection \<open>Payloads as lists of numbers\<close>

type_synonym 'a decoder = "nat list \<Rightarrow> ('a \<times> nat list) option"

definition inverse_of :: "('a \<Rightarrow> nat list) \<Rightarrow> 'a decoder \<Rightarrow> bool" where
  "inverse_of enc dec \<longleftrightarrow> (\<forall>x r. dec (enc x @ r) = Some (x, r))"

lemma inverse_ofD: "inverse_of enc dec \<Longrightarrow> dec (enc x @ r) = Some (x, r)"
  by (simp add: inverse_of_def)

fun get_nat :: "nat decoder" where
  "get_nat (n # r) = Some (n, r)"
| "get_nat [] = None"

definition both :: "'a decoder \<Rightarrow> 'b decoder \<Rightarrow> ('a \<times> 'b) decoder" where
  "both f g xs = (case f xs of None \<Rightarrow> None | Some (a, r) \<Rightarrow> map_option (map_prod (Pair a) id) (g r))"

definition put_pair :: "('a \<Rightarrow> nat list) \<Rightarrow> ('b \<Rightarrow> nat list) \<Rightarrow> 'a \<times> 'b \<Rightarrow> nat list" where
  "put_pair f g p = f (fst p) @ g (snd p)"

definition mapped :: "('a \<Rightarrow> 'b) \<Rightarrow> 'a decoder \<Rightarrow> 'b decoder" where
  "mapped h f xs = map_option (map_prod h id) (f xs)"

primrec times :: "nat \<Rightarrow> 'a decoder \<Rightarrow> 'a list decoder" where
  "times 0 f xs = Some ([], xs)"
| "times (Suc n) f xs = (case f xs of None \<Rightarrow> None | Some (a, r) \<Rightarrow> map_option (map_prod ((#) a) id) (times n f r))"

definition get_list :: "'a decoder \<Rightarrow> 'a list decoder" where
  "get_list f xs = (case get_nat xs of None \<Rightarrow> None | Some (n, r) \<Rightarrow> times n f r)"

definition put_list :: "('a \<Rightarrow> nat list) \<Rightarrow> 'a list \<Rightarrow> nat list" where
  "put_list f xs = length xs # concat (map f xs)"

lemma inverse_nat: "inverse_of (\<lambda>n. [n]) get_nat"
  by (simp add: inverse_of_def)

lemma inverse_both: "inverse_of f f' \<Longrightarrow> inverse_of g g' \<Longrightarrow> inverse_of (put_pair f g) (both f' g')"
  by (simp add: inverse_of_def put_pair_def both_def)

lemma inverse_mapped: "inverse_of f f' \<Longrightarrow> (\<And>x. h (k x) = x) \<Longrightarrow> inverse_of (f \<circ> k) (mapped h f')"
  by (simp add: inverse_of_def mapped_def)

lemma times_put: "inverse_of f f' \<Longrightarrow> times (length xs) f' (concat (map f xs) @ r) = Some (xs, r)"
  by (induction xs arbitrary: r) (simp_all add: inverse_ofD)

lemma inverse_list: "inverse_of f f' \<Longrightarrow> inverse_of (put_list f) (get_list f')"
  by (simp add: inverse_of_def [of "put_list f"] put_list_def get_list_def times_put)

definition put_int :: "int \<Rightarrow> nat list" where
  "put_int = put_pair (\<lambda>n. [n]) (\<lambda>n. [n]) \<circ> (\<lambda>i. (if i < 0 then 1 else 0, nat \<bar>i\<bar>))"

definition get_int :: "int decoder" where
  "get_int = mapped (\<lambda>(s, n). if s = 1 then - int n else int n) (both get_nat get_nat)"

definition put_text :: "string \<Rightarrow> nat list" where
  "put_text = put_list (\<lambda>n. [n]) \<circ> map of_char"

definition get_text :: "string decoder" where
  "get_text = mapped (map char_of) (get_list get_nat)"

definition put_rat :: "rat \<Rightarrow> nat list" where
  "put_rat = put_pair put_int put_int \<circ> quotient_of"

definition get_rat :: "rat decoder" where
  "get_rat = mapped (\<lambda>(a, b). of_int a / of_int b) (both get_int get_int)"

definition put_float :: "pyfloat \<Rightarrow> nat list" where
  "put_float = put_pair (\<lambda>n. [n]) put_rat \<circ>
     (\<lambda>v. case v of Fin q \<Rightarrow> (0, q) | PInf \<Rightarrow> (1, 0) | NInf \<Rightarrow> (2, 0) | NaN \<Rightarrow> (3, 0))"

definition get_float :: "pyfloat decoder" where
  "get_float = mapped (\<lambda>(n, q). if n = 0 then Fin q else if n = 1 then PInf else if n = 2 then NInf else NaN)
     (both get_nat get_rat)"

definition metric_types :: "metric_type list" where
  "metric_types = [CPU_USAGE_PERCENT, MEMORY_USAGE_PERCENT, MEMORY_USED_BYTES, MEMORY_AVAILABLE_BYTES,
     DISK_USAGE_PERCENT, DISK_USED_BYTES, DISK_FREE_BYTES, NETWORK_BYTES_SENT, NETWORK_BYTES_RECV]"

definition metric_index :: "metric_type \<Rightarrow> nat" where
  "metric_index m = length (takeWhile (\<lambda>x. x \<noteq> m) metric_types)"

definition put_sample :: "metric_sample \<Rightarrow> nat list" where
  "put_sample = put_pair (\<lambda>n. [n]) (put_pair put_float (put_pair put_text (put_list (put_pair put_text put_text)))) \<circ>
     (\<lambda>m. (metric_index (ms_metric_type m), ms_value m, ms_unit m, ms_labels m))"

definition get_sample :: "metric_sample decoder" where
  "get_sample = mapped (\<lambda>(t, v, u, ls). \<lparr>ms_metric_type = metric_types ! t, ms_value = v, ms_unit = u, ms_labels = ls\<rparr>)
     (both get_nat (both get_float (both get_text (get_list (both get_text get_text)))))"

definition put_payload :: "payload \<Rightarrow> nat list" where
  "put_payload = put_pair put_text (put_pair (put_pair put_int (\<lambda>n. [n])) (put_pair (put_list put_sample) (put_list put_text))) \<circ>
     (\<lambda>p. (pl_node_id p, (us (pl_collected_at p), if aware (pl_collected_at p) then 1 else 0), pl_samples p,
           pl_collection_errors p))"

definition get_payload :: "payload decoder" where
  "get_payload = mapped (\<lambda>(n, (d, a), xs, es).
       \<lparr>pl_node_id = n, pl_collected_at = DT d (a = 1), pl_samples = xs, pl_collection_errors = es\<rparr>)
     (both get_text (both (both get_int get_nat) (both (get_list get_sample) (get_list get_text))))"

lemma inverse_int: "inverse_of put_int get_int"
  unfolding put_int_def get_int_def by (intro inverse_mapped inverse_both inverse_nat) simp

lemma inverse_text: "inverse_of put_text get_text"
  unfolding put_text_def get_text_def by (intro inverse_mapped inverse_list inverse_nat) (simp add: comp_def)

lemma inverse_rat: "inverse_of put_rat get_rat"
  unfolding put_rat_def get_rat_def
  by (intro inverse_mapped inverse_both inverse_int) (simp add: split_beta quotient_of_div [OF prod.collapse [symmetric]] flip: quotient_of_div)

lemma inverse_float: "inverse_of put_float get_float"
  unfolding put_float_def get_float_def
  by (intro inverse_mapped inverse_both inverse_nat inverse_rat) (simp split: pyfloat.split)

lemma inverse_sample: "inverse_of put_sample get_sample"
  unfolding put_sample_def get_sample_def
proof (intro inverse_mapped inverse_both inverse_nat inverse_float inverse_text inverse_list)
  have "metric_types ! metric_index t = t" for t
    by (cases t) (simp_all add: metric_types_def metric_index_def)
  then show "(\<lambda>(t, v, u, ls). \<lparr>ms_metric_type = metric_types ! t, ms_value = v, ms_unit = u, ms_labels = ls\<rparr>)
      (metric_index (ms_metric_type m), ms_value m, ms_unit m, ms_labels m) = m" for m
    by simp
qed

lemma inverse_payload: "inverse_of put_payload get_payload"
  unfolding put_payload_def get_payload_def
  by (intro inverse_mapped inverse_both inverse_nat inverse_int inverse_sample inverse_text inverse_list)
    (auto intro!: payload.equality datetime.expand)

subsection \<open>Numbers as text\<close>

definition is_digit :: "char \<Rightarrow> bool" where
  "is_digit c \<longleftrightarrow> (48 :: nat) \<le> of_char c \<and> (of_char c :: nat) \<le> 57"

definition read_digits :: "nat \<Rightarrow> string \<Rightarrow> nat" where
  "read_digits = foldl (\<lambda>a c. 10 * a + (of_char c - 48))"

fun print_numbers :: "nat list \<Rightarrow> string" where
  "print_numbers [] = []"
| "print_numbers (n # ns) = show_nat n @ CHR '','' # print_numbers ns"

definition example_dump :: "payload \<Rightarrow> string" where
  "example_dump p = CHR ''{'' # print_numbers (put_payload p)"

fun read_numbers :: "nat \<Rightarrow> string \<Rightarrow> nat list" where
  "read_numbers acc [] = []"
| "read_numbers acc (c # s) =
     (if is_digit c then read_numbers (10 * acc + (of_char c - 48)) s else acc # read_numbers 0 s)"

definition example_parse :: "string \<Rightarrow> payload option" where
  "example_parse s = (case s of [] \<Rightarrow> None | c # r \<Rightarrow>
     if c = CHR ''{'' then (case get_payload (read_numbers 0 r) of Some (p, []) \<Rightarrow> Some p | _ \<Rightarrow> None) else None)"

lemma read_numbers_digits:
  "list_all is_digit ds \<Longrightarrow> read_numbers acc (ds @ s) = read_numbers (read_digits acc ds) s"
  by (induction ds arbitrary: acc) (simp_all add: read_digits_def)

lemma show_nat_digits: "list_all is_digit (show_nat n) \<and> read_digits 0 (show_nat n) = n"
proof (induction n rule: show_nat.induct)
  case (1 n)
  have digit: "of_char (char_of (48 + m)) = (48 + m :: nat)" if "m < 10" for m :: nat
    using that by (simp add: of_char_mod_256)
  show ?case
  proof (cases "n < 10")
    case True
    then show ?thesis
      by (subst show_nat.simps, subst show_nat.simps) (simp add: is_digit_def read_digits_def digit)
  next
    case False
    then have "show_nat n = show_nat (n div 10) @ [char_of (48 + n mod 10)]"
      by (simp add: show_nat.simps [of n])
    moreover have "n mod 10 < 10"
      by simp
    ultimately show ?thesis
      using 1 [OF False] digit [of "n mod 10"] by (simp add: is_digit_def read_digits_def)
  qed
qed

lemma read_print: "read_numbers 0 (print_numbers ns) = ns"
proof (induction ns)
  case (Cons n ns)
  have "\<not> is_digit CHR '',''"
    by (simp add: is_digit_def)
  then show ?case
    using Cons show_nat_digits [of n] by (simp add: read_numbers_digits)
qed simp

lemma unbroken_plain:
  "list_all (\<lambda>c. is_digit c \<or> c = CHR '','' \<or> c = CHR ''{'') s \<Longrightarrow> unbroken s"
  by (induction s) (auto simp: is_digit_def Let_def)

lemma print_numbers_plain: "list_all (\<lambda>c. is_digit c \<or> c = CHR '','' \<or> c = CHR ''{'') (print_numbers ns)"
  using show_nat_digits by (induction ns) (auto simp: list_all_iff)

lemma example_codec:
  "example_parse (example_dump p) = Some p" "CHR ''{'' \<in> set (example_dump p)" "unbroken (example_dump p)"
proof -
  show "example_parse (example_dump p) = Some p"
    using inverse_ofD [OF inverse_payload, of p "[]"] by (simp add: example_parse_def example_dump_def read_print)
  show "CHR ''{'' \<in> set (example_dump p)"
    by (simp add: example_dump_def)
  show "unbroken (example_dump p)"
    by (rule unbroken_plain) (simp add: example_dump_def print_numbers_plain)
qed

end
