(* ===== verification/Example_Agent.thy ===== *)
theory Example_Agent
  imports Agent_Runs Example_Codec
begin

text \<open>
  A concrete Agent on which the properties are exercised: its network is a counter of exchanges
  with a script of replies, its codec the one of \<open>Example_Codec\<close>, and its node has a few files.
\<close>

definition ex_ack :: "pending_action list \<Rightarrow> ack" where
  "ex_ack actions = \<lparr>ack_accepted = True, ack_received_at = DT 63841600000000000 True, ack_message = None,
     ack_pending_actions = actions\<rparr>"

definition ex_clear :: pending_action where
  "ex_clear = \<lparr>pa_action_id = 7, pa_action_type = CLEAR_DIRECTORY, pa_parameters = [(''path'', ''/tmp/cache'')]\<rparr>"

definition ex_parse_ack :: "string \<Rightarrow> ack option" where
  "ex_parse_ack t = (if t = ''ok'' then Some (ex_ack []) else if t = ''clear'' then Some (ex_ack [ex_clear]) else None)"

definition example_env :: "(http_request \<Rightarrow> 'n \<Rightarrow> http_outcome \<times> 'n) \<Rightarrow> 'n agent_env" where
  "example_env reply =
     \<lparr>io_fails = \<lambda>n. False, torn = \<lambda>n. NotUtf8, spared = \<lambda>n q. False, dump_json = example_dump,
      parse_json = example_parse, parse_ack = ex_parse_ack, http_post = reply,
      retry_send = \<lambda>n. again (nat n - 1), retry_report = \<lambda>n. again (nat n - 1),
      cpu_percent = \<lambda>k. Inr (Fin 12), virtual_memory = \<lambda>k. Inl (PsutilError ''denied''),
      disk_usage = \<lambda>k m. Inr \<lparr>du_percent = Fin 50, du_used = 4096, du_free = 4096\<rparr>,
      net_io_counters = \<lambda>k. Inr \<lparr>ni_bytes_sent = 10, ni_bytes_recv = 20\<rparr>,
      wall_clock = \<lambda>k. 63841600000000000, exn_str = \<lambda>x. ''error''\<rparr>"

definition ex_agent_env :: "http_outcome list \<Rightarrow> nat agent_env" where
  "ex_agent_env replies = example_env (\<lambda>rq n. (if n < length replies then replies ! n else ConnectError, Suc n))"

definition ex_fs :: file_system where
  "ex_fs = [(''/tmp'', DirNode), (''/tmp/cache'', DirNode), (''/tmp/cache/a'', FileNode),
     (''/tmp/cache/d'', DirNode), (''/tmp/cache/d/x'', FileNode), (''/tmp/cache/l'', LinkNode ''/etc''),
     (''/etc'', DirNode), (''/etc/passwd'', FileNode)]"

definition example_agent :: "'n \<Rightarrow> 'n agent" where
  "example_agent net = \<lparr>ag_buffer = Some (Utf8 []), ag_tmp = None, ag_fs = ex_fs, ag_io = 0, ag_psutil = 0,
     ag_ticks = 0, ag_net = net\<rparr>"

definition ex_agent :: "nat agent" where
  "ex_agent = example_agent 0"

definition ex_agent_settings :: agent_settings where
  "ex_agent_settings = (default_agent_settings ''web-1'')\<lparr>as_remediation_enabled := True,
     as_remediation_allowed_directories := ''/tmp/cache, /var/spool''\<rparr>"

definition ex_transport :: http_transport where
  "ex_transport = HttpTransport (as_collector_base_url ex_agent_settings) (as_http_retry_attempts ex_agent_settings)
     (as_auth_token ex_agent_settings)"

definition ex_buffer :: file_buffer where
  "ex_buffer = \<lparr>fb_max_entries = as_buffer_max_entries ex_agent_settings\<rparr>"

definition ex_payload :: "int \<Rightarrow> payload" where
  "ex_payload i = \<lparr>pl_node_id = ''web-1'', pl_collected_at = DT i True, pl_samples = [], pl_collection_errors = []\<rparr>"

subsection \<open>The example meets what the properties ask for\<close>

lemma example_comes_back: "comes_back (example_env reply) p"
  using example_codec [of p] by (simp add: comes_back_def example_env_def)

lemma example_no_io_faults: "no_io_faults (example_env reply)"
  by (simp add: no_io_faults_def example_env_def)

lemma example_entries: "entries (example_env reply) (example_agent n) = []"
  by (simp add: entries_def example_agent_def splitlines_def split_lines_from.simps)

lemma example_sound: "sound (example_env reply) (example_agent n)"
  using example_entries [of reply n] by (simp add: sound_def example_no_io_faults) (simp add: example_agent_def)

lemma example_retry:
  "documented_retry (retry_send (example_env reply))" "documented_retry (retry_report (example_env reply))"
  by (simp_all add: documented_retry_def example_env_def)

lemma double_12: "is_double (Fin 12)" and double_50: "is_double (Fin 50)"
  unfolding is_double_def using round_double_int [of 12] round_double_int [of 50] by auto

lemma example_plain_node: "plain_node (example_env reply) ''web-1''"
  unfolding plain_node_def
  using double_12 double_50
  by (simp add: example_env_def plain_text_def in_range_def max_us_def)

lemma example_steady: "steady (example_env reply) ex_agent_settings (example_agent n)"
  using example_plain_node [of reply]
  by (simp add: steady_def example_sound example_retry documented_json_def example_comes_back ex_agent_settings_def
      default_agent_settings_def)

lemma ex_comes_back: "comes_back (ex_agent_env replies) p"
  by (simp add: ex_agent_env_def example_comes_back)

lemma ex_no_io_faults: "no_io_faults (ex_agent_env replies)"
  by (simp add: ex_agent_env_def example_no_io_faults)

lemma ex_retry:
  "documented_retry (retry_send (ex_agent_env replies))" "documented_retry (retry_report (ex_agent_env replies))"
  by (simp_all add: ex_agent_env_def example_retry)

lemma ex_entries: "entries (ex_agent_env replies) ex_agent = []"
  by (simp add: ex_agent_env_def ex_agent_def example_entries)

lemma ex_sound: "sound (ex_agent_env replies) ex_agent"
  by (simp add: ex_agent_env_def ex_agent_def example_sound)

lemma ex_steady: "steady (ex_agent_env replies) ex_agent_settings ex_agent"
  by (simp add: ex_agent_env_def ex_agent_def example_steady)

end
