(* ===== verification/Agent_Properties.thy ===== *)
theory Agent_Properties
  imports Example_Agent
begin

text \<open>
  The properties of the Agent: its buffer, its transport, its executor, its collection, its cycle and
  its main loop, each stated of the wired Agent and exercised on the one of \<open>Example_Agent\<close>.
\<close>

subsection \<open>The buffer\<close>

lemma wp_total: "wp m Q (\<lambda>_ _. False) s \<Longrightarrow> \<exists>v t. m s = (Inr v, t) \<and> Q v t"
  by (cases "m s") (auto simp: wp_def split: sum.splits)

text \<open>
  C29. Any sequence of \<open>enqueue\<close> and \<open>drain\<close> on the file buffer returns what a queue of at most
  \<open>max_entries\<close> payloads would, which gives out its oldest and, when it is full, forgets its oldest;
  afterwards the file holds that queue, \<open>len\<close> is its length, and nothing else of the node changed.
\<close>

theorem file_buffer_is_bounded_fifo:
  assumes "sound e s" and "list_all (op_fits (comes_back e)) ops"
  shows "\<exists>vs t. for_each (run_op (enqueue e b) (drain_buffer_file e)) ops s = (Inr vs, t) \<and>
     spec_ops (nat (fb_max_entries b)) ops (entries e s) = (vs, entries e t) \<and>
     length (entries e t) \<le> max (nat (fb_max_entries b)) (length (entries e s)) \<and>
     fst (buffer_len e t) = Inr (int (length (entries e t))) \<and> besides t = besides s"
proof -
  obtain vs t where t: "for_each (run_op (enqueue e b) (drain_buffer_file e)) ops s = (Inr vs, t)" "sound e t"
      "besides t = besides s" "spec_ops (nat (fb_max_entries b)) ops (entries e s) = (vs, entries e t)"
    using wp_total [OF file_queue.ops_law [OF assms, of b]] by blast
  have "fst (buffer_len e t) = Inr (int (length (entries e t)))"
    using read_all_sound [OF t(2)] by (simp add: buffer_len_def run_defs)
  then show ?thesis
    using t length_spec_ops [of "nat (fb_max_entries b)" ops "entries e s"] by simp
qed

theorem file_buffer_is_bounded_fifo_witness:
  "\<exists>vs t. for_each (run_op (enqueue (ex_agent_env []) \<lparr>fb_max_entries = 2\<rparr>) (drain_buffer_file (ex_agent_env [])))
       [Enqueue (ex_payload 1), Enqueue (ex_payload 2), Enqueue (ex_payload 3), Drain 50] ex_agent = (Inr vs, t) \<and>
     vs = [[], [], [], [ex_payload 2, ex_payload 3]] \<and> entries (ex_agent_env []) t = []"
  using file_buffer_is_bounded_fifo [OF ex_sound [of "[]"], of "[Enqueue (ex_payload 1), Enqueue (ex_payload 2),
      Enqueue (ex_payload 3), Drain 50]" "\<lparr>fb_max_entries = 2\<rparr>"]
  by (auto simp: ex_comes_back ex_entries newest_def)

text \<open>
  What the buffer writes it reads back: whatever was in the file before, after the payloads
  \<open>ps\<close> were written the next read returns \<open>ps\<close>, in order, and so does a drain of all of them.
\<close>

lemma buffer_round_trip:
  assumes "no_io_faults e" and "list_all (comes_back e) ps"
  shows "\<exists>t u v. write_all e ps s = (Inr (), t) \<and> read_all e t = (Inr ps, u) \<and>
     drain_buffer_file e (int (length ps)) t = (Inr ps, v) \<and> entries e v = []"
proof -
  obtain t where t: "write_all e ps s = (Inr (), t)" "sound e t" "entries e t = ps"
    using write_all_sound [OF assms] by blast
  then show ?thesis
    using read_all_sound [OF t(2)] drain_sound [OF t(2), of "int (length ps)"] by auto
qed

text \<open>
  C31. Whichever file operations fail, and however a failing write leaves the temporary file, the
  buffer file is never half-written: after an \<open>enqueue\<close> or a \<open>drain\<close> it is what it was before or a
  complete new list, and the only exception that comes out is the decoding error of a file that is
  not UTF-8. A read that fails counts as an empty buffer.
\<close>

theorem buffer_file_never_torn:
  "wp (enqueue e b p)
     (\<lambda>_ t. ag_buffer t \<in> {ag_buffer s} \<union>
        (\<lambda>old. Some (Utf8 (serialize e (newest (nat (fb_max_entries b)) (old @ [p]))))) ` {entries e s, []})
     (\<lambda>x t. ag_buffer t = ag_buffer s \<and> x = UnicodeDecodeErr \<and> ag_buffer s = Some NotUtf8) s \<and>
   wp (drain_buffer_file e k)
     (\<lambda>v t. v \<in> {py_take k (entries e s), py_take k []} \<and> ag_buffer t \<in> {ag_buffer s} \<union>
        (\<lambda>old. Some (Utf8 (serialize e (py_drop k old)))) ` {entries e s, []})
     (\<lambda>x t. ag_buffer t = ag_buffer s \<and> x = UnicodeDecodeErr \<and> ag_buffer s = Some NotUtf8) s"
proof
  have kept: "(if fb_max_entries b < int (length xs) then drop (nat (int (length xs) - fb_max_entries b)) xs else xs) =
      newest (nat (fb_max_entries b)) xs" for xs :: "payload list"
    unfolding drop_excess by (auto simp: newest_all)
  show "wp (enqueue e b p)
     (\<lambda>_ t. ag_buffer t \<in> {ag_buffer s} \<union>
        (\<lambda>old. Some (Utf8 (serialize e (newest (nat (fb_max_entries b)) (old @ [p]))))) ` {entries e s, []})
     (\<lambda>x t. ag_buffer t = ag_buffer s \<and> x = UnicodeDecodeErr \<and> ag_buffer s = Some NotUtf8) s"
    unfolding enqueue_def wp_seq Let_def kept
    by (rule wp_mono [OF read_all_rule]) (auto intro!: wp_mono [OF write_all_atomic])
  show "wp (drain_buffer_file e k)
     (\<lambda>v t. v \<in> {py_take k (entries e s), py_take k []} \<and> ag_buffer t \<in> {ag_buffer s} \<union>
        (\<lambda>old. Some (Utf8 (serialize e (py_drop k old)))) ` {entries e s, []})
     (\<lambda>x t. ag_buffer t = ag_buffer s \<and> x = UnicodeDecodeErr \<and> ag_buffer s = Some NotUtf8) s"
    unfolding drain_buffer_file_def wp_seq wp_ret
    by (rule wp_mono [OF read_all_rule]) (auto intro!: wp_mono [OF write_all_atomic])
qed

text \<open>
  The last sentence of C31 is not harmless: one failing read empties a buffer that holds payloads,
  since the drain that could not read writes back what it thinks is left.
\<close>

lemma failed_read_empties_buffer:
  assumes "io_fails e (ag_io s)" and "\<not> io_fails e (Suc (ag_io s))" and "\<not> io_fails e (Suc (Suc (ag_io s)))"
  shows "fst (drain_buffer_file e 50 s) = Inr [] \<and> ag_buffer (snd (drain_buffer_file e 50 s)) = Some (Utf8 [])"
  using assms
  by (simp add: drain_buffer_file_def read_all_def read_text_def write_all_def write_tmp_def replace_buffer_def
      run_defs file_op_def Let_def serialize_def py_take_def py_drop_def)

text \<open>
  The condition on documents in C29 is needed: JSON leaves U+2028 as it is, and a document
  with this character in a string comes back as two lines, neither of which is a document.
\<close>

lemma line_separator_splits_document:
  "splitlines (''{a'' @ [CHR 0xE2, CHR 0x80, CHR 0xA8] @ ''b}'' @ [CHR 0x0A]) = [''{a'', ''b}'']"
  by code_simp

subsection \<open>The transport\<close>



subsection \<open>The executor\<close>

text \<open>
  C33. The executor never raises. Whatever action the Collector sends and whichever file operations
  fail, nothing is created, and what disappears lies below the directory the action names, which has
  to be one of the Agent's allowed directories and the action a \<open>CLEAR_DIRECTORY\<close>; a result that is
  not a failure is the one of a \<open>NOOP\<close> or of such an action.
\<close>

theorem executor_stays_in_allowlist:
  "\<exists>r t. execute_action e allowed action s = (Inr r, t) \<and>
     removed_below (may_clear allowed action (ag_fs s)) s t \<and>
     (ar_status r = RESULT_FAILED \<or> pa_action_type action = NOOP \<or> (\<exists>d. d \<in> may_clear allowed action (ag_fs s)))"
proof -
  obtain r t where rt: "execute_action e allowed action s = (Inr r, t)"
      "removed_below (may_clear allowed action (ag_fs s)) s t"
    using wp_total [OF execute_action_touches] by blast
  have "ar_status r = RESULT_FAILED \<or> pa_action_type action = NOOP \<or> (\<exists>d. d \<in> may_clear allowed action (ag_fs s))"
  proof (cases "pa_action_type action = CLEAR_DIRECTORY \<and>
      dict_get (pa_parameters action) ''path'' [] \<noteq> [] \<and> dict_get (pa_parameters action) ''path'' [] \<in> set allowed")
    case True
    then show ?thesis by (auto simp: may_clear_def Let_def)
  next
    case False
    then show ?thesis
      using rt(1) by (auto simp: execute_action_def dispatch_def execute_clear_directory_def run_defs Let_def
          split: if_splits)
  qed
  then show ?thesis
    using rt by blast
qed

text \<open>
  C34. A \<open>CLEAR_DIRECTORY\<close> of an allowed directory empties it when file operations succeed: every
  entry below it is gone, whether file, link or directory, with links removed and not followed; the
  directory itself and everything outside it stay; and the result counts its entries.
\<close>

theorem clear_directory_empties:
  assumes "no_io_faults e" and "distinct (map fst (ag_fs s))" and "tree_below (ag_fs s) (canonical path)"
    and "map_of (ag_fs s) (canonical path) = Some DirNode"
    and "pa_action_type action = CLEAR_DIRECTORY" and "dict_get (pa_parameters action) ''path'' [] = path"
    and "path \<in> set allowed" and "path \<noteq> []"
  shows "\<exists>t. execute_action e allowed action s =
       (Inr \<lparr>ar_status = RESULT_EXECUTED, ar_message = Some (''removed '' @
          show_int (int (length (children (ag_fs s) (canonical path)))) @ '' entries from '' @ path)\<rparr>, t) \<and>
     (\<forall>q. map_of (ag_fs t) q = (if below (canonical path) q then None else map_of (ag_fs s) q))"
  using clear_directory_done [OF assms(1-4)] assms(5-8)
  by (auto simp: execute_action_def dispatch_def execute_clear_directory_def run_defs Let_def)

lemma ex_cache:
  "canonical ''/tmp/cache'' = ''/tmp/cache''" "map_of ex_fs ''/tmp/cache'' = Some DirNode"
  "distinct (map fst ex_fs)" "children ex_fs ''/tmp/cache'' = [''a'', ''d'', ''l'']"
  by (simp_all add: canonical_def ex_fs_def children_def map_filter_def child_name_def below_def slashed_def)

lemma ex_cache_tree: "tree_below ex_fs ''/tmp/cache''"
  unfolding tree_below_def ex_cache(4)
  by (simp add: ex_fs_def os_path_join_def slashed_def below_def)

theorem clear_directory_empties_witness:
  "\<exists>t. execute_action (ex_agent_env []) [''/tmp/cache''] ex_clear ex_agent =
       (Inr \<lparr>ar_status = RESULT_EXECUTED, ar_message = Some (''removed '' @ show_int 3 @ '' entries from /tmp/cache'')\<rparr>, t) \<and>
     map_of (ag_fs t) ''/tmp/cache/d/x'' = None \<and> map_of (ag_fs t) ''/etc/passwd'' = Some FileNode"
proof -
  have "ag_fs ex_agent = ex_fs"
    by (simp add: ex_agent_def example_agent_def)
  then obtain t where t: "execute_action (ex_agent_env []) [''/tmp/cache''] ex_clear ex_agent =
       (Inr \<lparr>ar_status = RESULT_EXECUTED, ar_message = Some (''removed '' @ show_int 3 @ '' entries from /tmp/cache'')\<rparr>, t)"
      "\<forall>q. map_of (ag_fs t) q = (if below ''/tmp/cache'' q then None else map_of ex_fs q)"
    using clear_directory_empties [OF ex_no_io_faults [of "[]"], of ex_agent "''/tmp/cache''" ex_clear "[''/tmp/cache'']"]
      ex_cache_tree by (auto simp: ex_cache ex_clear_def dict_get_def)
  have "below ''/tmp/cache'' ''/tmp/cache/d/x''" "\<not> below ''/tmp/cache'' ''/etc/passwd''"
    by (simp_all add: below_def slashed_def)
  then show ?thesis
    using t by (intro exI [where x = t]) (simp add: ex_fs_def)
qed

subsection \<open>The cycle\<close>

text \<open>
  C35. Collection never fails. Every collector is asked, in order, whatever the others raised; the
  payload carries the samples of those that answered and one line, class name and message, for each
  that raised, under the Agent's node id and the time after the last of them.
\<close>

theorem collection_isolates_failures:
  "\<exists>rs t. for_each observe (agent_collectors e) s = (Inr rs, t) \<and>
     map fst rs = [''CpuCollector'', ''MemoryCollector'', ''DiskCollector'', ''NetworkCollector''] \<and>
     collect (wired e st tr b) s =
       (Inr \<lparr>pl_node_id = as_node_id st, pl_collected_at = DT (wall_clock e (ag_ticks t)) True,
             pl_samples = samples_of rs, pl_collection_errors = errors_of (exn_message e) rs\<rparr>,
        t\<lparr>ag_ticks := Suc (ag_ticks t)\<rparr>)"
proof -
  obtain rs t where rs: "for_each observe (agent_collectors e) s = (Inr rs, t)"
      "map fst rs = map fst (agent_collectors e)"
    using observe_all [of "agent_collectors e" s] by blast
  then have "collect (wired e st tr b) s =
       (Inr \<lparr>pl_node_id = as_node_id st, pl_collected_at = DT (wall_clock e (ag_ticks t)) True,
             pl_samples = samples_of rs, pl_collection_errors = errors_of (exn_message e) rs\<rparr>,
        t\<lparr>ag_ticks := Suc (ag_ticks t)\<rparr>)"
    by (simp add: collect_def run_defs run_collectors_observe utc_now_def)
  then show ?thesis
    using rs by (simp add: agent_collectors_def)
qed

text \<open>
  C36. A redelivery that returns loses nothing: the payloads that were in the buffer are, in order
  from the oldest, acknowledged or rejected by the Collector, or they are in the buffer still; if one
  of the first fifty could not be delivered it and the ones behind it stay. Only an exception that
  is not one of the transport's two kinds breaks this.
\<close>

theorem redelivery_loses_nothing:
  assumes "steady e st s" and "length (entries e s) \<le> nat (fb_max_entries b)"
  shows "wp (drain_buffer (wired e st tr b))
     (\<lambda>_ t. redelivered (deliver_over e tr) (nat (fb_max_entries b)) (take 50 (entries e s)) (drop 50 (entries e s))
           (ag_net s) (entries e t) (ag_net t) \<and>
        (\<exists>sent n. settled (deliver_over e tr) sent (ag_net s) = Some n \<and>
           mset (entries e s) = mset sent + mset (entries e t)))
     (\<lambda>x t. redelivery_broken (deliver_over e tr) (take 50 (entries e s)) (drop 50 (entries e s))
        (ag_net s) x (entries e t) (ag_net t)) s"
proof (rule wp_mono [OF wired_agent.drain_buffer_law [OF assms(1)]])
  fix v t
  assume t: "steady e st t \<and> redelivered (deliver_over e tr) (nat (fb_max_entries b)) (take 50 (entries e s))
    (drop 50 (entries e s)) (ag_net s) (entries e t) (ag_net t)"
  then show "redelivered (deliver_over e tr) (nat (fb_max_entries b)) (take 50 (entries e s)) (drop 50 (entries e s))
        (ag_net s) (entries e t) (ag_net t) \<and>
      (\<exists>sent n. settled (deliver_over e tr) sent (ag_net s) = Some n \<and>
         mset (entries e s) = mset sent + mset (entries e t))"
    using redelivered_conserves [OF conjunct2 [OF t] assms(2)] by simp
qed simp

theorem redelivery_loses_nothing_witness:
  "wp (drain_buffer (wired (ex_agent_env []) ex_agent_settings ex_transport ex_buffer))
     (\<lambda>_ t. entries (ex_agent_env []) t = []) (\<lambda>_ _. False) ex_agent"
proof -
  have "wp (drain_buffer (wired (ex_agent_env []) ex_agent_settings ex_transport ex_buffer))
     (\<lambda>_ t. redelivered (deliver_over (ex_agent_env []) ex_transport) (nat (fb_max_entries ex_buffer))
           (take 50 (entries (ex_agent_env []) ex_agent)) (drop 50 (entries (ex_agent_env []) ex_agent))
           (ag_net ex_agent) (entries (ex_agent_env []) t) (ag_net t) \<and>
        (\<exists>sent n. settled (deliver_over (ex_agent_env []) ex_transport) sent (ag_net ex_agent) = Some n \<and>
           mset (entries (ex_agent_env []) ex_agent) = mset sent + mset (entries (ex_agent_env []) t)))
     (\<lambda>x t. redelivery_broken (deliver_over (ex_agent_env []) ex_transport)
        (take 50 (entries (ex_agent_env []) ex_agent)) (drop 50 (entries (ex_agent_env []) ex_agent))
        (ag_net ex_agent) x (entries (ex_agent_env []) t) (ag_net t)) ex_agent"
    by (rule redelivery_loses_nothing [OF ex_steady]) (simp add: ex_entries)
  then show ?thesis
    by (rule wp_mono) (auto simp: ex_entries redelivery_broken_def)
qed

text \<open>
  What C36 does not promise. When the first of more than fifty payloads cannot be delivered, the
  fifty go behind the younger rest of the buffer, so that the next eviction or redelivery no longer
  meets the oldest payload first.
\<close>

lemma redelivered_first_fails:
  assumes "exchange p r = (Inl x, r1)" and "\<And>m. x \<noteq> FatalTransportError m"
  shows "redelivered exchange cap (p # ps) q r q' r' \<Longrightarrow> is_transport_error x \<and> q' = newest cap (q @ p # ps)"
    and "redelivery_broken exchange (p # ps) q r y q' r' \<Longrightarrow> \<not> is_transport_error x \<and> y = x \<and> q' = q"
proof -
  have stuck: "settled exchange (p # xs) r = None" for xs
    using assms by (simp split: exn.splits)
  have first: "sent = []" if "p # ps = sent @ z # zs" "settled exchange sent r = Some r2" for sent z zs r2
    using that stuck by (cases sent) auto
  show "redelivered exchange cap (p # ps) q r q' r' \<Longrightarrow> is_transport_error x \<and> q' = newest cap (q @ p # ps)"
    unfolding redelivered_def stuck using first assms(1) by fastforce
  show "redelivery_broken exchange (p # ps) q r y q' r' \<Longrightarrow> \<not> is_transport_error x \<and> y = x \<and> q' = q"
    unfolding redelivery_broken_def using first assms(1) by fastforce
qed

lemma interrupted_redelivery_reorders:
  assumes "steady e st s" and "entries e s = p # ps"
    and "deliver_over e tr p (ag_net s) = (Inl (RetryableTransportError m), n)"
  shows "wp (drain_buffer (wired e st tr b))
     (\<lambda>_ t. entries e t = newest (nat (fb_max_entries b)) (drop 50 (p # ps) @ take 50 (p # ps))) (\<lambda>_ _. False) s"
proof -
  have t50: "take 50 (p # ps) = p # take 49 ps"
    by (simp add: take_Cons')
  show ?thesis
    using wired_agent.drain_buffer_law [OF assms(1), of tr b] unfolding assms(2) t50
    by (rule wp_mono) (use redelivered_first_fails [where exchange = "deliver_over e tr", OF assms(3)] in fastforce)+
qed

text \<open>
  And an exception outside the transport's hierarchy, a connection reset for one, loses every
  payload of the batch and leaves the cycle.
\<close>

lemma unexpected_failure_loses_batch:
  assumes "steady e st s" and "entries e s = p # ps"
    and "deliver_over e tr p (ag_net s) = (Inl (HttpxError m), n)"
  shows "wp (drain_buffer (wired e st tr b)) (\<lambda>_ _. False)
     (\<lambda>x t. x = HttpxError m \<and> entries e t = drop 50 (p # ps)) s"
proof -
  have t50: "take 50 (p # ps) = p # take 49 ps"
    by (simp add: take_Cons')
  show ?thesis
    using wired_agent.drain_buffer_law [OF assms(1), of tr b] unfolding assms(2) t50
    by (rule wp_mono) (use redelivered_first_fails [where exchange = "deliver_over e tr", OF assms(3)] in fastforce)+
qed

text \<open>
  C37. One cycle of a steady Agent: the buffer is redelivered as in C36, a payload of this node is
  collected, and it is acknowledged, or rejected and dropped, or put into the buffer behind the
  others; then the actions of the acknowledgement are reported. A cycle ends with an exception only
  where the redelivery, the delivery or a report met one that is neither of the transport's two
  kinds, and the Agent stays steady in every case.
\<close>

theorem cycle_delivers_or_buffers:
  assumes "steady e st s"
  shows "wp (run_once (wired e st tr b))
     (\<lambda>_ t. steady e st t \<and> cycle_done (deliver_over e tr) (nat (fb_max_entries b)) (net_later e) (as_node_id st)
        (entries e s) (ag_net s) (entries e t) (ag_net t))
     (\<lambda>x t. steady e st t \<and> cycle_broken (deliver_over e tr) (nat (fb_max_entries b)) (net_later e) (as_node_id st)
        (entries e s) (ag_net s) x (entries e t) (ag_net t)) s"
  using wired_agent.cycle_law [OF assms, of tr b] by simp

lemma ex_unreachable:
  "deliver_over (ex_agent_env [Response 503 []]) ex_transport p (ag_net ex_agent) =
     (Inl (RetryableTransportError ''collector connection failed''), 3)"
  by (simp add: deliver_over_def ex_transport_def HttpTransport_def ex_agent_settings_def default_agent_settings_def
      ex_agent_def example_agent_def ex_agent_env_def example_env_def answer_def classify_def HTTP_SERVER_ERROR_THRESHOLD_def numeral_2_eq_2)

theorem cycle_delivers_or_buffers_witness:
  "wp (run_once (wired (ex_agent_env [Response 503 []]) ex_agent_settings ex_transport ex_buffer))
     (\<lambda>_ t. length (entries (ex_agent_env [Response 503 []]) t) = 1)
     (\<lambda>_ t. length (entries (ex_agent_env [Response 503 []]) t) = 1) ex_agent"
proof -
  have cap: "nat (fb_max_entries ex_buffer) = 1000"
    by (simp add: ex_buffer_def ex_agent_settings_def default_agent_settings_def)
  show ?thesis
    by (rule wp_mono [OF cycle_delivers_or_buffers [OF ex_steady [of "[Response 503 []]"], of ex_transport ex_buffer]])
      (auto simp: cycle_done_def cycle_broken_def redelivered_def redelivery_broken_def delivered_def ex_entries
        ex_unreachable cap)
qed

subsection \<open>The process\<close>

lemma build_scheduler_wired:
  assumes "build_scheduler e st s = (Inr sched, t)"
  shows "(\<exists>tr b. sched = wired e st tr b) \<and> ag_fs t = ag_fs s"
  using assms
  by (auto simp: build_scheduler_def FileBuffer_def CpuCollector_def psutil_call_def run_defs file_op_def Let_def
      split: sum.splits prod.splits if_splits)

lemma cycles_keep:
  assumes "keeps I m" and "I s"
  shows "I (snd (for_each (\<lambda>_. m) xs s))"
proof -
  have "keeps I (for_each (\<lambda>_. m) xs)"
    by (rule keeps_for_each) (rule assms(1))
  then show ?thesis
    using assms(2) by (simp add: keeps_def wp_state)
qed

text \<open>
  C38. Both opt-ins hold for the life of the process: over any number of cycles, with any answers of
  the Collector, any failures of files and of the network, nothing appears on the node's file
  system, and what disappears is below a directory of the Agent's own allowlist, and only if this
  Agent has remediation enabled.
\<close>

theorem agent_never_leaves_its_allowlist:
  assumes "documented_retry (retry_send e)" and "documented_retry (retry_report e)"
    and "build_scheduler e st s = (Inr sched, s1)"
  shows "only_removed (clearable st (ag_fs s)) (ag_fs s) (ag_fs (snd (for_each (\<lambda>_. run_once sched) [0..<n] s1)))"
proof -
  obtain tr b where sched: "sched = wired e st tr b" and fs: "ag_fs s1 = ag_fs s"
    using build_scheduler_wired [OF assms(3)] by blast
  have "keeps (\<lambda>t. only_removed (clearable st (ag_fs s)) (ag_fs s) (ag_fs t)) (run_once sched)"
    unfolding sched by (rule run_once_keeps [OF wired_keeps_fs [OF assms(1,2)]])
  then show ?thesis
    by (rule cycles_keep) (simp add: fs)
qed

lemma ex_build:
  "build_scheduler (ex_agent_env replies) ex_agent_settings ex_agent =
     (Inr (wired (ex_agent_env replies) ex_agent_settings ex_transport ex_buffer), ex_agent\<lparr>ag_io := 1, ag_psutil := 1\<rparr>)"
  by (simp add: build_scheduler_def FileBuffer_def CpuCollector_def psutil_call_def run_defs file_op_def Let_def
      ex_transport_def ex_buffer_def) (simp add: ex_agent_env_def example_env_def ex_agent_def example_agent_def)

theorem agent_never_leaves_its_allowlist_witness:
  "map_of (ag_fs (snd (for_each (\<lambda>_. run_once (wired (ex_agent_env [Response 202 ''clear'']) ex_agent_settings
     ex_transport ex_buffer)) [0..<2] (ex_agent\<lparr>ag_io := 1, ag_psutil := 1\<rparr>)))) ''/etc/passwd'' = Some FileNode"
proof -
  let ?fs = "ag_fs (snd (for_each (\<lambda>_. run_once (wired (ex_agent_env [Response 202 ''clear'']) ex_agent_settings
     ex_transport ex_buffer)) [0..<2] (ex_agent\<lparr>ag_io := 1, ag_psutil := 1\<rparr>)))"
  have fs: "ag_fs ex_agent = ex_fs"
    by (simp add: ex_agent_def example_agent_def)
  have allowed: "remediation_allowed_directory_set ex_agent_settings = [''/tmp/cache'', ''/var/spool'']"
    by (simp add: remediation_allowed_directory_set_def ex_agent_settings_def) code_simp
  have "only_removed (clearable ex_agent_settings ex_fs) ex_fs ?fs"
    using agent_never_leaves_its_allowlist [OF ex_retry ex_build] unfolding fs .
  moreover have "\<not> below d ''/etc/passwd''" if "d \<in> clearable ex_agent_settings ex_fs" for d
    using that
    by (auto simp: clearable_def allowed follow_def canonical_def ex_fs_def below_def slashed_def split: if_splits)
  ultimately have "map_of ?fs ''/etc/passwd'' = map_of ex_fs ''/etc/passwd''"
    unfolding only_removed_def by blast
  then show ?thesis
    by (simp add: ex_fs_def)
qed

text \<open>
  C39. The process ends on a signal: if the interval is one \<open>time.sleep\<close> accepts and a shutdown
  signal arrives before the poll that follows the \<open>n\<close>-th cycle, the Agent runs exactly those \<open>n\<close>
  cycles and stops, or ends with the first exception that leaves its construction or a cycle; the
  cycle in progress when the signal arrives is completed.
\<close>

theorem agent_stops_on_signal:
  assumes "time_sleep (as_collection_interval_seconds st) = Inr ()"
    and "signals n" and "\<And>i. i < n \<Longrightarrow> \<not> signals i"
  shows "agent_main e (Inr st) signals s =
     Some (seq (build_scheduler e st) (\<lambda>sched. seq (for_each (\<lambda>_. run_once sched) [0..<n]) (\<lambda>_. ret ())) s)"
proof (cases "build_scheduler e st s")
  case (Pair r t)
  show ?thesis
  proof (cases r)
    case (Inr sched)
    then obtain tr b where sched: "sched = wired e st tr b"
      using Pair build_scheduler_wired by blast
    have "run_forever sched (shutdown_requested signals) 0 t =
        Some (seq (for_each (\<lambda>_. run_once sched) [0..<n]) (\<lambda>_. ret ()) t)"
      using assms by (intro run_forever_cycles) (auto simp: sched shutdown_requested_def list_ex_iff less_Suc_eq)
    then show ?thesis
      using Pair Inr by (simp add: agent_main_def run_defs)
  qed (simp add: Pair agent_main_def run_defs)
qed

lemma sleep_30: "time_sleep (Fin 30) = Inr ()"
proof -
  have "round_double (30 * 1000000000) = Fin 30000000000"
    using round_double_int [of 30000000000] by simp
  then show ?thesis
    by (simp add: round_away_def)
qed

theorem agent_stops_on_signal_witness:
  "\<exists>r. agent_main (ex_agent_env []) (Inr ex_agent_settings) (\<lambda>k. k = 2) ex_agent = Some r"
  using agent_stops_on_signal [of ex_agent_settings "\<lambda>k. k = 2" 2 "ex_agent_env []" ex_agent] sleep_30
  by (simp add: ex_agent_settings_def default_agent_settings_def)

end
