(* ===== verification/Link.thy ===== *)
theory Link
  imports Agent_Runs Collector_System Ingestion_Healthy
begin

text \<open>
  The network between an Agent and the Collector: a request may be lost on the way, or arrive and
  have its reply lost or the connection reset, or be answered. What arrives is handled by the
  Collector's application. FastAPI's decoding of a request is written out for the two requests an
  Agent makes; the text of a response is a parameter.
\<close>

datatype wire = Answered | RequestLost | ReplyLost | ConnectionReset

record link =
  lk_world :: world
  lk_count :: nat

text \<open>The bearer token of the \<open>Authorization\<close> header, the id in a path, and the decoded request.\<close>

definition bearer :: "dict \<Rightarrow> string option" where
  "bearer headers = (case map_of headers ''Authorization'' of
       Some h \<Rightarrow> if take 7 h = ''Bearer '' then Some (drop 7 h) else None
     | None \<Rightarrow> None)"

definition path_id :: "string \<Rightarrow> int" where
  "path_id endpoint = int (foldl (\<lambda>a c. 10 * a + (of_char c - 48)) 0
     (takeWhile (\<lambda>c. c \<noteq> CHR ''/'') (drop (length REMEDIATION_ACTIONS_ENDPOINT + 1) endpoint)))"

definition decoded :: "http_request \<Rightarrow> request" where
  "decoded rq = (case rq_body rq of
       PayloadBody p \<Rightarrow> PostMetrics p
     | ResultBody r \<Rightarrow> ReportActionResult (path_id (rq_endpoint rq)) r)"

definition link_post ::
    "env \<Rightarrow> collector_app \<Rightarrow> (nat \<Rightarrow> nat \<Rightarrow> int) \<Rightarrow> (nat \<Rightarrow> wire) \<Rightarrow> (body \<Rightarrow> string) \<Rightarrow>
     http_request \<Rightarrow> link \<Rightarrow> http_outcome \<times> link" where
  "link_post ce app clock wires print rq l =
     (let k = lk_count l
      in if wires k = RequestLost then (ConnectError, l\<lparr>lk_count := Suc k\<rparr>)
         else case handle ce app (clock k) (bearer (rq_headers rq)) (decoded rq) (lk_world l) of
                ((code, b), w) \<Rightarrow>
                  ((case wires k of
                      ReplyLost \<Rightarrow> TimeoutException
                    | ConnectionReset \<Rightarrow> OtherHttpError
                    | _ \<Rightarrow> Response code (print b)),
                   l\<lparr>lk_count := Suc k, lk_world := w\<rparr>))"

text \<open>The header an Agent with a token sends is the one the Collector reads the token from.\<close>

lemma bearer_HttpTransport:
  "bearer (ht_headers (HttpTransport url n token)) = (case token of Some t \<Rightarrow> if t = [] then None else Some t | None \<Rightarrow> None)"
  by (simp add: bearer_def HttpTransport_def split: option.split)

subsection \<open>What the Collector holds of a payload\<close>

definition stored :: "payload \<Rightarrow> world \<Rightarrow> bool" where
  "stored p w \<longleftrightarrow> has_node (pl_node_id p) w \<and>
     (\<exists>k t. set (sample_rows k (pl_node_id p) (pl_samples p) (pl_collected_at p) (utc t)) \<subseteq> set (samples (tables w)))"

definition holds_on :: "world \<Rightarrow> world \<Rightarrow> bool" where
  "holds_on w w' \<longleftrightarrow> nd_node_id ` set (nodes (tables w)) \<subseteq> nd_node_id ` set (nodes (tables w')) \<and>
     set (samples (tables w)) \<subseteq> set (samples (tables w'))"

lemma holds_on_refl [simp]: "holds_on w w"
  by (simp add: holds_on_def)

lemma holds_on_trans: "holds_on w1 w2 \<Longrightarrow> holds_on w2 w3 \<Longrightarrow> holds_on w1 w3"
  unfolding holds_on_def by (elim conjE, intro conjI; erule (1) subset_trans)

lemma stored_holds_on: "stored p w \<Longrightarrow> holds_on w w' \<Longrightarrow> stored p w'"
  unfolding stored_def holds_on_def has_node_def by blast

text \<open>What the Collector does with the two requests.\<close>

lemma ingest_holds_on:
  "wp (ingest ce stale al p received_at now) (\<lambda>_. holds_on w) (\<lambda>_. holds_on w) w"
  unfolding ingest_def wp_seq
  by (intro record_seen_rule bulk_insert_rule)
    (auto simp: holds_on_def seen_db_keys same_data_def wp_simps audit_grows_def intro!: wp_mono [OF evaluate_rules_reports])

lemma push_stored:
  "wp (receive_metrics ce app clock p)
     (\<lambda>b w'. (\<exists>a. b = AckBody a) \<and> holds_on w w' \<and> stored p w')
     (\<lambda>x w'. (\<exists>m. x = PersistenceError m) \<and> holds_on w w') w"
proof -
  have "stored p w'" if "nodes (tables w') = nodes (seen_db (pl_node_id p) (pl_collected_at p) (tables w))"
      "samples (tables w') = samples (tables w) @
         sample_rows k (pl_node_id p) (pl_samples p) (pl_collected_at p) (utc t)" for w' k t
    using that unfolding stored_def by (auto simp: has_node_def seen_db_keys)
  then show ?thesis
    unfolding receive_metrics_def wp_seq wp_ret
    by (intro wp_mono [OF wp_conj [OF ingest_rule ingest_holds_on]]) auto
qed

lemma report_holds_on: "wp (report_remediation_action_result ce clock i r) (\<lambda>_. holds_on w) (\<lambda>_. holds_on w) w"
  unfolding report_remediation_action_result_def wp_seq
  by (rule report_result_rule) (auto simp: wp_simps holds_on_def same_data_def)

subsection \<open>What an exchange achieves\<close>

text \<open>The requests an Agent makes lose nothing at the Collector.\<close>

lemma link_post_holds_on: "link_post ce app clock wires print rq l = (outcome, l') \<Longrightarrow> holds_on (lk_world l) (lk_world l')"
proof -
  assume post: "link_post ce app clock wires print rq l = (outcome, l')"
  have "wp (route ce app c (decoded rq)) (\<lambda>_. holds_on w) (\<lambda>_. holds_on w) w" for c w
    using wp_mono [OF push_stored] report_holds_on by (auto simp: decoded_def split: json_body.splits)
  then have "holds_on w (snd (route ce app c (decoded rq) w))" for c w
    by (simp add: wp_state)
  then have "holds_on w (snd (handle ce app c cr (decoded rq) w))" for c cr w
    by (auto simp: handle_def split: sum.splits prod.splits) (metis snd_conv)+
  then show ?thesis
    using post by (auto simp: link_post_def Let_def split: if_splits prod.splits) (metis snd_conv)
qed

text \<open>
  A push that is answered below 400 has been stored; one that is answered with a client error has
  been refused by the token check.
\<close>

lemma link_push:
  assumes "link_post ce app clock wires print rq l = (Response c t, l')" and "rq_body rq = PayloadBody p"
  shows "c < 400 \<Longrightarrow> stored p (lk_world l')"
    and "400 \<le> c \<Longrightarrow> c < 500 \<Longrightarrow> \<exists>x. verify_api_token (token_set (ap_settings app)) (bearer (rq_headers rq)) = Inl x"
proof -
  let ?v = "verify_api_token (token_set (ap_settings app)) (bearer (rq_headers rq))"
  obtain b w where h: "handle ce app (clock (lk_count l)) (bearer (rq_headers rq)) (PostMetrics p) (lk_world l) = ((c, b), w)"
      and w: "lk_world l' = w"
    using assms by (auto simp: link_post_def decoded_def Let_def split: if_splits prod.splits wire.splits)
  have low: "400 \<le> fst (error_response x)" for x
    by (cases x) (simp_all add: error_response_def)
  have run: "wp (receive_metrics ce app (clock (lk_count l)) p)
      (\<lambda>b w'. (\<exists>a. b = AckBody a) \<and> holds_on (lk_world l) w' \<and> stored p w')
      (\<lambda>x w'. (\<exists>m. x = PersistenceError m) \<and> holds_on (lk_world l) w') (lk_world l)"
    by (rule push_stored)
  show "stored p (lk_world l')" if "c < 400"
    using h run that low w
    by (auto simp: handle_def guarded_def wp_def split: sum.splits prod.splits) (metis fst_conv leD)+
  show "\<exists>x. ?v = Inl x" if "400 \<le> c" "c < 500"
    using h run that
    by (cases ?v) (auto simp: handle_def guarded_def wp_def error_response_def split: sum.splits prod.splits)
qed

definition linked ::
    "link agent_env \<Rightarrow> env \<Rightarrow> collector_app \<Rightarrow> (nat \<Rightarrow> nat \<Rightarrow> int) \<Rightarrow> (nat \<Rightarrow> wire) \<Rightarrow> (body \<Rightarrow> string) \<Rightarrow> bool" where
  "linked e ce app clock wires print \<longleftrightarrow> http_post e = link_post ce app clock wires print"

lemma link_later: 
  assumes "linked e ce app clock wires print" and "net_later e l l'"
  shows "holds_on (lk_world l) (lk_world l')"
proof -
  have "holds_on (lk_world l) (lk_world (foldl (\<lambda>n rq. snd (http_post e rq n)) l rqs))" for rqs
  proof (induction rqs rule: rev_induct)
    case (snoc rq rqs)
    let ?l = "foldl (\<lambda>n rq. snd (http_post e rq n)) l rqs"
    have "holds_on (lk_world ?l) (lk_world (snd (http_post e rq ?l)))"
      using assms(1) link_post_holds_on [OF prod.collapse [symmetric]] by (simp add: linked_def)
    then show ?case
      using snoc by (simp add: holds_on_trans)
  qed simp
  then show ?thesis
    using assms(2) unfolding net_later_def by blast
qed

definition refused :: "collector_app \<Rightarrow> http_transport \<Rightarrow> bool" where
  "refused app tr \<longleftrightarrow> (\<exists>x. verify_api_token (token_set (ap_settings app)) (bearer (ht_headers tr)) = Inl x)"

lemma link_delivery:
  assumes "linked e ce app clock wires print" and "deliver_over e tr p l = (r, l')"
  shows "r = Inr a \<Longrightarrow> stored p (lk_world l')" and "r = Inl (FatalTransportError m) \<Longrightarrow> refused app tr"
proof -
  let ?rq = "request_to tr METRICS_ENDPOINT (PayloadBody p)"
  have one: "(\<forall>a. answer e outcome = Inr a \<longrightarrow> stored p (lk_world n')) \<and>
      (\<forall>m. answer e outcome = Inl (FatalTransportError m) \<longrightarrow> refused app tr)"
    if "http_post e ?rq n = (outcome, n')" for n outcome n'
  proof (cases outcome)
    case (Response c t)
    then have "link_post ce app clock wires print ?rq n = (Response c t, n')"
      using that assms(1) by (simp add: linked_def)
    from link_push [OF this, of p] show ?thesis
      by (auto simp: answer_def classify_def Response request_to_def refused_def HTTP_SERVER_ERROR_THRESHOLD_def
          HTTP_CLIENT_ERROR_THRESHOLD_def split: if_splits option.splits)
  qed (simp_all add: answer_def classify_def)
  have all: "exchanges e ?rq k n = (r, l') \<Longrightarrow>
      (\<forall>a. r = Inr a \<longrightarrow> stored p (lk_world l')) \<and> (\<forall>m. r = Inl (FatalTransportError m) \<longrightarrow> refused app tr)" for k n
  proof (induction k arbitrary: n)
    case 0
    then show ?case
      using one by (cases "http_post e ?rq n") auto
  next
    case (Suc k)
    obtain outcome n1 where h: "http_post e ?rq n = (outcome, n1)" by fastforce
    have "exchanges e ?rq k n1 = (r, l') \<or> r = answer e outcome \<and> l' = n1"
      using Suc.prems h by (cases "answer e outcome") (auto split: exn.splits)
    then show ?case
      using Suc.IH [of n1] one [OF h] by auto
  qed
  show "r = Inr a \<Longrightarrow> stored p (lk_world l')" and "r = Inl (FatalTransportError m) \<Longrightarrow> refused app tr"
    using all assms(2) unfolding deliver_over_def by blast+
qed

subsection \<open>Where payloads are\<close>

lemma delivery_later: "deliver_over e tr p l = (r, l') \<Longrightarrow> net_later e l l'"
  unfolding deliver_over_def by (rule exchanges_later)

lemma settled_stored:
  assumes "linked e ce app clock wires print"
  shows "settled (deliver_over e tr) ps l = Some l1 \<Longrightarrow>
     holds_on (lk_world l) (lk_world l1) \<and> (\<forall>x \<in> set ps. stored x (lk_world l1) \<or> refused app tr)"
proof (induction ps arbitrary: l)
  case (Cons p ps)
  obtain r l2 where r: "deliver_over e tr p l = (r, l2)" by fastforce
  have rest: "settled (deliver_over e tr) ps l2 = Some l1" "(\<exists>a. r = Inr a) \<or> (\<exists>m. r = Inl (FatalTransportError m))"
    using Cons.prems r by (auto split: sum.splits exn.splits)
  have "stored p (lk_world l2) \<or> refused app tr"
    using link_delivery [OF assms r] rest(2) by blast
  moreover have "holds_on (lk_world l) (lk_world l2)"
    by (rule link_later [OF assms delivery_later [OF r]])
  ultimately show ?case
    using Cons.IH [OF rest(1)] by (auto dest: stored_holds_on holds_on_trans)
qed simp

text \<open>After a redelivery with room in the buffer every payload is accounted for.\<close>

lemma redelivered_accounted:
  assumes "linked e ce app clock wires print" and "length q \<le> cap"
    and "redelivered (deliver_over e tr) cap (take k q) (drop k q) l q1 l1"
  shows "(\<forall>x \<in> set q. stored x (lk_world l1) \<or> refused app tr \<or> x \<in> set q1) \<and> length q1 \<le> length q"
proof -
  consider "settled (deliver_over e tr) (take k q) l = Some l1" "q1 = drop k q"
    | sent p kept l2 m where "take k q = sent @ p # kept" "settled (deliver_over e tr) sent l = Some l2"
        "deliver_over e tr p l2 = (Inl (RetryableTransportError m), l1)" "q1 = newest cap (drop k q @ p # kept)"
    using assms(3) unfolding redelivered_def by blast
  then show ?thesis
  proof cases
    case 1
    have "set q = set (take k q) \<union> set (drop k q)"
      by (metis append_take_drop_id set_append)
    then show ?thesis
      using settled_stored [OF assms(1) 1(1)] 1(2) by auto
  next
    case 2
    have "length (drop k q) + length (take k q) = length q"
      by simp
    then have len: "length (drop k q @ p # kept) \<le> length q"
      using 2(1) by simp
    then have q1: "q1 = drop k q @ p # kept"
      using 2(4) assms(2) by (simp add: newest_all)
    have "set q = set (sent @ p # kept) \<union> set (drop k q)"
      by (metis 2(1) append_take_drop_id set_append)
    moreover have "stored x (lk_world l1) \<or> refused app tr" if "x \<in> set sent" for x
      using settled_stored [OF assms(1) 2(2)] that link_later [OF assms(1) delivery_later [OF 2(3)]] stored_holds_on by blast
    ultimately show ?thesis
      using q1 len by auto
  qed
qed

text \<open>One cycle of a linked Agent, as far as payloads are concerned.\<close>

definition accounted :: "collector_app \<Rightarrow> http_transport \<Rightarrow> payload list \<Rightarrow> payload list \<Rightarrow> world \<Rightarrow> bool" where
  "accounted app tr ps q w \<longleftrightarrow> list_all (\<lambda>x. stored x w \<or> x \<in> set q \<or> refused app tr) ps"

lemma cycle_accounted:
  assumes link: "linked e ce app clock wires print" and "length q < cap"
    and "cycle_done (deliver_over e tr) cap (net_later e) node q l q' l'"
  shows "\<exists>p. pl_node_id p = node \<and> accounted app tr (p # q) q' (lk_world l')"
proof -
  obtain q1 l1 p l2 where c: "redelivered (deliver_over e tr) cap (take 50 q) (drop 50 q) l q1 l1" "pl_node_id p = node"
      "delivered (deliver_over e tr) cap p q1 l1 q' l2" "net_later e l2 l'"
    using assms(3) unfolding cycle_done_def by blast
  have old: "\<forall>x \<in> set q. stored x (lk_world l1) \<or> refused app tr \<or> x \<in> set q1" and len: "length q1 \<le> length q"
    using redelivered_accounted [OF link _ c(1)] assms(2) by auto
  have kept: "newest cap (q1 @ [p]) = q1 @ [p]"
    using len assms(2) by (simp add: newest_all)
  obtain r where r: "deliver_over e tr p l1 = (r, l2)"
      "r \<in> range Inr \<or> r \<in> range (Inl \<circ> FatalTransportError) \<or> p \<in> set q'" and q1: "set q1 \<subseteq> set q'"
    using c(3) kept by (auto simp: delivered_def subset_insertI)
  have "holds_on (lk_world l1) (lk_world l2)" "holds_on (lk_world l2) (lk_world l')"
    using link_later [OF link delivery_later [OF r(1)]] link_later [OF link c(4)] .
  then have later: "stored x (lk_world l')" if "stored x (lk_world l1) \<or> stored x (lk_world l2)" for x
    using that stored_holds_on by blast
  have "stored p (lk_world l') \<or> p \<in> set q' \<or> refused app tr"
    using link_delivery [OF link r(1)] r(2) later by auto
  moreover have "stored x (lk_world l') \<or> x \<in> set q' \<or> refused app tr" if "x \<in> set q" for x
    using old that later q1 by blast
  ultimately have "accounted app tr (p # q) q' (lk_world l')"
    by (simp add: accounted_def list_all_iff)
  then show ?thesis
    using c(2) by blast
qed

end
