(* ===== verification/Schema.thy ===== *)
theory Schema
  imports Domain
begin

text \<open>
  \<open>collector/db/models\<close>, \<open>collector/db/enum_column.py\<close> and \<open>collector/db/migrations\<close>: the schema the ORM
  classes describe, and the six migrations as operations on a PostgreSQL schema that can fail. The
  operations are Alembic's as far as the migrations use them: a table brings its enumeration types
  along, a table that others refer to and a type that a column uses cannot be dropped.
\<close>

datatype col_type = StringT | IntegerT | FloatT | JsonT | DateTimeT | EnumT string

record column =
  co_name :: string
  co_type :: col_type
  co_nullable :: bool
  co_primary :: bool
  co_autoincrement :: bool
  co_foreign :: "(string \<times> string) option"

record db_schema =
  sh_tables :: "(string \<times> column list) list"
  sh_indexes :: "(string \<times> string \<times> string list) list"
  sh_types :: "(string \<times> string list) list"

datatype ddl_error = Duplicate | Undefined | Dependent

definition empty_schema :: db_schema where
  "empty_schema = \<lparr>sh_tables = [], sh_indexes = [], sh_types = []\<rparr>"

subsection \<open>Columns\<close>

definition Column :: "string \<Rightarrow> col_type \<Rightarrow> column" where
  "Column n t = \<lparr>co_name = n, co_type = t, co_nullable = False, co_primary = False,
     co_autoincrement = False, co_foreign = None\<rparr>"

definition nullable :: "column \<Rightarrow> column" where
  "nullable c = c\<lparr>co_nullable := True\<rparr>"

definition primary_key :: "column \<Rightarrow> column" where
  "primary_key c = c\<lparr>co_primary := True\<rparr>"

definition autoincrement :: "column \<Rightarrow> column" where
  "autoincrement c = c\<lparr>co_autoincrement := True\<rparr>"

definition ForeignKey :: "string \<Rightarrow> string \<Rightarrow> column \<Rightarrow> column" where
  "ForeignKey t k c = c\<lparr>co_foreign := Some (t, k)\<rparr>"

subsection \<open>The operations\<close>

definition enum_of :: "column \<Rightarrow> string option" where
  "enum_of c = (case co_type c of EnumT n \<Rightarrow> Some n | _ \<Rightarrow> None)"

definition uses_type :: "db_schema \<Rightarrow> string \<Rightarrow> bool" where
  "uses_type s n \<longleftrightarrow> list_ex (\<lambda>(t, cs). list_ex (\<lambda>c. enum_of c = Some n) cs) (sh_tables s)"

definition refers_to :: "db_schema \<Rightarrow> string \<Rightarrow> bool" where
  "refers_to s t \<longleftrightarrow> list_ex (\<lambda>(u, cs). u \<noteq> t \<and>
     list_ex (\<lambda>c. map_option fst (co_foreign c) = Some t) cs) (sh_tables s)"

definition key_exists :: "db_schema \<Rightarrow> string \<times> string \<Rightarrow> bool" where
  "key_exists s r = (case map_of (sh_tables s) (fst r) of
       None \<Rightarrow> False
     | Some cs \<Rightarrow> list_ex (\<lambda>c. co_name c = snd r \<and> co_primary c) cs)"

definition create_table :: "string \<Rightarrow> column list \<Rightarrow> (string \<times> string list) list \<Rightarrow> db_schema \<Rightarrow> ddl_error + db_schema" where
  "create_table t cs types s =
     (if t \<in> fst ` set (sh_tables s) \<or> list_ex (\<lambda>(n, vs). n \<in> fst ` set (sh_types s)) types then Inl Duplicate
      else if \<not> list_all (\<lambda>c. case co_foreign c of None \<Rightarrow> True | Some r \<Rightarrow> key_exists s r) cs then Inl Undefined
      else Inr (s\<lparr>sh_tables := sh_tables s @ [(t, cs)], sh_types := sh_types s @ types\<rparr>))"

definition drop_table :: "string \<Rightarrow> db_schema \<Rightarrow> ddl_error + db_schema" where
  "drop_table t s =
     (if t \<notin> fst ` set (sh_tables s) then Inl Undefined
      else if refers_to s t then Inl Dependent
      else Inr (s\<lparr>sh_tables := filter (\<lambda>(u, cs). u \<noteq> t) (sh_tables s),
                  sh_indexes := filter (\<lambda>(i, u, ns). u \<noteq> t) (sh_indexes s)\<rparr>))"

definition change_table :: "string \<Rightarrow> (column list \<Rightarrow> ddl_error + column list) \<Rightarrow> db_schema \<Rightarrow> ddl_error + db_schema" where
  "change_table t f s =
     (case map_of (sh_tables s) t of
        None \<Rightarrow> Inl Undefined
      | Some cs \<Rightarrow> (case f cs of
            Inl x \<Rightarrow> Inl x
          | Inr cs' \<Rightarrow> Inr (s\<lparr>sh_tables := map (\<lambda>(u, ds). (u, if u = t then cs' else ds)) (sh_tables s)\<rparr>)))"

definition add_column :: "string \<Rightarrow> column \<Rightarrow> db_schema \<Rightarrow> ddl_error + db_schema" where
  "add_column t c = change_table t (\<lambda>cs. if co_name c \<in> co_name ` set cs then Inl Duplicate else Inr (cs @ [c]))"

definition drop_column :: "string \<Rightarrow> string \<Rightarrow> db_schema \<Rightarrow> ddl_error + db_schema" where
  "drop_column t n = change_table t (\<lambda>cs. if n \<notin> co_name ` set cs then Inl Undefined
     else Inr (filter (\<lambda>c. co_name c \<noteq> n) cs))"

definition create_index :: "string \<Rightarrow> string \<Rightarrow> string list \<Rightarrow> db_schema \<Rightarrow> ddl_error + db_schema" where
  "create_index i t ns s =
     (if i \<in> fst ` set (sh_indexes s) then Inl Duplicate
      else case map_of (sh_tables s) t of
             None \<Rightarrow> Inl Undefined
           | Some cs \<Rightarrow> if set ns \<subseteq> co_name ` set cs then Inr (s\<lparr>sh_indexes := sh_indexes s @ [(i, t, ns)]\<rparr>)
                        else Inl Undefined)"

definition drop_index :: "string \<Rightarrow> db_schema \<Rightarrow> ddl_error + db_schema" where
  "drop_index i s =
     (if i \<notin> fst ` set (sh_indexes s) then Inl Undefined
      else Inr (s\<lparr>sh_indexes := filter (\<lambda>(j, t, ns). j \<noteq> i) (sh_indexes s)\<rparr>))"

text \<open>\<open>sa.Enum(name=...).drop(bind, checkfirst=True)\<close>, and \<open>ALTER TYPE ... ADD VALUE IF NOT EXISTS\<close>.\<close>

definition drop_type :: "string \<Rightarrow> db_schema \<Rightarrow> ddl_error + db_schema" where
  "drop_type n s = (if uses_type s n then Inl Dependent
     else Inr (s\<lparr>sh_types := filter (\<lambda>(m, vs). m \<noteq> n) (sh_types s)\<rparr>))"

definition add_value :: "string \<Rightarrow> string \<Rightarrow> db_schema \<Rightarrow> ddl_error + db_schema" where
  "add_value n v s = (if n \<notin> fst ` set (sh_types s) then Inl Undefined
     else Inr (s\<lparr>sh_types := map (\<lambda>(m, vs). (m, if m = n \<and> v \<notin> set vs then vs @ [v] else vs)) (sh_types s)\<rparr>))"

primrec ddl :: "(db_schema \<Rightarrow> ddl_error + db_schema) list \<Rightarrow> db_schema \<Rightarrow> ddl_error + db_schema" where
  "ddl [] s = Inr s"
| "ddl (f # fs) s = (case f s of Inl x \<Rightarrow> Inl x | Inr s' \<Rightarrow> ddl fs s')"

subsection \<open>The migrations\<close>

definition upgrade_0001 :: "db_schema \<Rightarrow> ddl_error + db_schema" where
  "upgrade_0001 = ddl
     [create_table ''nodes''
        [primary_key (Column ''node_id'' StringT), Column ''first_seen_at'' DateTimeT, Column ''last_seen_at'' DateTimeT] [],
      create_table ''metric_samples''
        [autoincrement (primary_key (Column ''id'' IntegerT)),
         ForeignKey ''nodes'' ''node_id'' (Column ''node_id'' StringT),
         Column ''metric_type'' (EnumT ''metrictype''), Column ''value'' FloatT, Column ''unit'' StringT,
         Column ''labels'' JsonT, Column ''collected_at'' DateTimeT, Column ''received_at'' DateTimeT]
        [(''metrictype'', [''cpu.usage_percent'', ''memory.usage_percent'', ''memory.used_bytes'',
           ''memory.available_bytes'', ''disk.usage_percent'', ''disk.used_bytes'', ''disk.free_bytes'',
           ''network.bytes_sent'', ''network.bytes_recv''])],
      create_index ''ix_metric_samples_node_id_collected_at'' ''metric_samples'' [''node_id'', ''collected_at'']]"

definition downgrade_0001 :: "db_schema \<Rightarrow> ddl_error + db_schema" where
  "downgrade_0001 = ddl
     [drop_index ''ix_metric_samples_node_id_collected_at'', drop_table ''metric_samples'', drop_table ''nodes'',
      drop_type ''metrictype'']"

definition upgrade_0002 :: "db_schema \<Rightarrow> ddl_error + db_schema" where
  "upgrade_0002 = ddl
     [create_table ''alerts''
        [autoincrement (primary_key (Column ''id'' IntegerT)),
         ForeignKey ''nodes'' ''node_id'' (Column ''node_id'' StringT), Column ''rule_key'' StringT,
         Column ''rule_kind'' (EnumT ''rulekind''), Column ''severity'' (EnumT ''severity''),
         Column ''status'' (EnumT ''alertstatus''), Column ''description'' StringT,
         Column ''triggering_value'' FloatT, Column ''bound'' FloatT, Column ''first_fired_at'' DateTimeT,
         Column ''last_fired_at'' DateTimeT, nullable (Column ''resolved_at'' DateTimeT)]
        [(''rulekind'', [''threshold'', ''rate_of_change'']), (''severity'', [''warning'', ''critical'']),
         (''alertstatus'', [''firing'', ''resolved''])],
      create_index ''ix_alerts_node_id_rule_key_status'' ''alerts'' [''node_id'', ''rule_key'', ''status'']]"

definition downgrade_0002 :: "db_schema \<Rightarrow> ddl_error + db_schema" where
  "downgrade_0002 = ddl
     [drop_index ''ix_alerts_node_id_rule_key_status'', drop_table ''alerts'', drop_type ''alertstatus'',
      drop_type ''severity'', drop_type ''rulekind'']"

definition upgrade_0003 :: "db_schema \<Rightarrow> ddl_error + db_schema" where
  "upgrade_0003 = ddl
     [add_column ''alerts'' (nullable (Column ''acknowledged_at'' DateTimeT)),
      add_column ''alerts'' (nullable (Column ''acknowledged_by'' StringT)),
      add_column ''alerts'' (nullable (Column ''escalated_at'' DateTimeT))]"

definition downgrade_0003 :: "db_schema \<Rightarrow> ddl_error + db_schema" where
  "downgrade_0003 = ddl
     [drop_column ''alerts'' ''escalated_at'', drop_column ''alerts'' ''acknowledged_by'',
      drop_column ''alerts'' ''acknowledged_at'']"

definition upgrade_0004 :: "db_schema \<Rightarrow> ddl_error + db_schema" where
  "upgrade_0004 = ddl
     [create_table ''remediation_actions''
        [autoincrement (primary_key (Column ''id'' IntegerT)),
         ForeignKey ''nodes'' ''node_id'' (Column ''node_id'' StringT),
         ForeignKey ''alerts'' ''id'' (Column ''alert_id'' IntegerT), Column ''rule_key'' StringT,
         Column ''playbook_name'' StringT, Column ''action_type'' (EnumT ''playbookactiontype''),
         Column ''parameters'' JsonT, Column ''status'' (EnumT ''remediationactionstatus''),
         nullable (Column ''reason'' StringT), Column ''created_at'' DateTimeT,
         nullable (Column ''completed_at'' DateTimeT)]
        [(''playbookactiontype'', [''noop'', ''clear_directory'', ''restart_service'']),
         (''remediationactionstatus'', [''blocked_by_safety_limit'', ''dispatched'', ''executed'', ''failed''])],
      create_index ''ix_remediation_actions_node_id_playbook_name_created_at'' ''remediation_actions''
        [''node_id'', ''playbook_name'', ''created_at''],
      add_column ''alerts'' (nullable (Column ''remediated_at'' DateTimeT))]"

definition downgrade_0004 :: "db_schema \<Rightarrow> ddl_error + db_schema" where
  "downgrade_0004 = ddl
     [drop_column ''alerts'' ''remediated_at'', drop_index ''ix_remediation_actions_node_id_playbook_name_created_at'',
      drop_table ''remediation_actions'', drop_type ''remediationactionstatus'', drop_type ''playbookactiontype'']"

definition upgrade_0005 :: "db_schema \<Rightarrow> ddl_error + db_schema" where
  "upgrade_0005 = ddl [create_index ''ix_metric_samples_received_at'' ''metric_samples'' [''received_at'']]"

definition downgrade_0005 :: "db_schema \<Rightarrow> ddl_error + db_schema" where
  "downgrade_0005 = ddl [drop_index ''ix_metric_samples_received_at'']"

definition upgrade_0006 :: "db_schema \<Rightarrow> ddl_error + db_schema" where
  "upgrade_0006 = ddl [add_value ''rulekind'' ''staleness'']"

definition downgrade_0006 :: "db_schema \<Rightarrow> ddl_error + db_schema" where
  "downgrade_0006 = ddl []"

text \<open>
  A revision with the one it revises, and the chain in the order Alembic follows: upwards along
  \<open>down_revision\<close>, and back.
\<close>

record migration =
  mg_revision :: string
  mg_down_revision :: "string option"
  mg_upgrade :: "db_schema \<Rightarrow> ddl_error + db_schema"
  mg_downgrade :: "db_schema \<Rightarrow> ddl_error + db_schema"

definition migrations :: "migration list" where
  "migrations =
     [\<lparr>mg_revision = ''0001'', mg_down_revision = None, mg_upgrade = upgrade_0001, mg_downgrade = downgrade_0001\<rparr>,
      \<lparr>mg_revision = ''0002'', mg_down_revision = Some ''0001'', mg_upgrade = upgrade_0002, mg_downgrade = downgrade_0002\<rparr>,
      \<lparr>mg_revision = ''0003'', mg_down_revision = Some ''0002'', mg_upgrade = upgrade_0003, mg_downgrade = downgrade_0003\<rparr>,
      \<lparr>mg_revision = ''0004'', mg_down_revision = Some ''0003'', mg_upgrade = upgrade_0004, mg_downgrade = downgrade_0004\<rparr>,
      \<lparr>mg_revision = ''0005'', mg_down_revision = Some ''0004'', mg_upgrade = upgrade_0005, mg_downgrade = downgrade_0005\<rparr>,
      \<lparr>mg_revision = ''0006'', mg_down_revision = Some ''0005'', mg_upgrade = upgrade_0006, mg_downgrade = downgrade_0006\<rparr>]"

definition upgrade_to :: "nat \<Rightarrow> db_schema \<Rightarrow> ddl_error + db_schema" where
  "upgrade_to n = ddl (map mg_upgrade (take n migrations))"


subsection \<open>The ORM classes\<close>










subsection \<open>The migrations build the schema the classes describe\<close>

lemma revisions_form_a_chain:
  "map mg_down_revision migrations = None # map (Some \<circ> mg_revision) (butlast migrations)"
  by (simp add: migrations_def)

definition head_schema :: db_schema where
  "head_schema = (case upgrade_to 6 empty_schema of Inr s \<Rightarrow> s | Inl x \<Rightarrow> empty_schema)"

lemma upgrade_head: "upgrade_to 6 empty_schema = Inr head_schema"
  by code_simp


end
