(* ===== verification/Stress_Load.thy ===== *)
theory Stress_Load
  imports Interleaving
begin

text \<open>
  \<open>scripts/stress_load.py\<close>, the load generator: virtual agents that push one fixed payload until a
  deadline, and the figures of a step. Its safety note says that a run opens no alerts; this is
  proved of the Collector's threads with the shipped rules, \<open>collector/rules/default_rules.json\<close>.
\<close>

subsection \<open>Virtual agents\<close>

definition PAYLOAD_SAMPLES :: "metric_sample list" where
  "PAYLOAD_SAMPLES =
     [\<lparr>ms_metric_type = CPU_USAGE_PERCENT, ms_value = Fin (25 / 2), ms_unit = ''percent'', ms_labels = []\<rparr>,
      \<lparr>ms_metric_type = MEMORY_USAGE_PERCENT, ms_value = Fin 41, ms_unit = ''percent'', ms_labels = []\<rparr>,
      \<lparr>ms_metric_type = DISK_USAGE_PERCENT, ms_value = Fin 33, ms_unit = ''percent'', ms_labels = []\<rparr>,
      \<lparr>ms_metric_type = NETWORK_BYTES_SENT, ms_value = Fin 1024, ms_unit = ''bytes'', ms_labels = []\<rparr>,
      \<lparr>ms_metric_type = NETWORK_BYTES_RECV, ms_value = Fin 2048, ms_unit = ''bytes'', ms_labels = []\<rparr>]"

definition virtual_payload :: "string \<Rightarrow> int \<Rightarrow> payload" where
  "virtual_payload node_id now = \<lparr>pl_node_id = node_id, pl_collected_at = utc now,
     pl_samples = PAYLOAD_SAMPLES, pl_collection_errors = []\<rparr>"

text \<open>
  The agents of a step share one list of results, of a latency and a status code each. The event
  loop runs other agents while one awaits its response or its next turn, so both are operations of
  the environment on the whole state; \<open>None\<close> is an \<open>httpx.HTTPError\<close>.
\<close>

record 'w load =
  ld_world :: 'w
  ld_results :: "(pyfloat \<times> nat) list"

record 'w load_env =
  ld_monotonic :: "'w load \<Rightarrow> rat"
  ld_perf_counter :: "'w load \<Rightarrow> pyfloat"
  ld_now :: "'w load \<Rightarrow> int"
  ld_post :: "string \<Rightarrow> payload \<Rightarrow> 'w load \<Rightarrow> nat option \<times> 'w load"
  ld_sleep :: "pyfloat \<Rightarrow> 'w load \<Rightarrow> 'w load"

definition virtual_agent_turn :: "'w load_env \<Rightarrow> string \<Rightarrow> string \<Rightarrow> pyfloat \<Rightarrow> 'w load \<Rightarrow> 'w load" where
  "virtual_agent_turn e url node_id interval s =
     (let started = ld_perf_counter e s;
          (response, s1) = ld_post e (url @ ''/api/v1/metrics'') (virtual_payload node_id (ld_now e s)) s;
          latency = fsub (ld_perf_counter e s1) started;
          s2 = s1\<lparr>ld_results := ld_results s1 @ [(latency, case response of Some code \<Rightarrow> code | None \<Rightarrow> 0)]\<rparr>
      in ld_sleep e interval s2)"

partial_function (option) virtual_agent ::
    "'w load_env \<Rightarrow> string \<Rightarrow> string \<Rightarrow> pyfloat \<Rightarrow> pyfloat \<Rightarrow> 'w load \<Rightarrow> 'w load option" where
  "virtual_agent e url node_id interval stop_at s =
     (if flt (Fin (ld_monotonic e s)) stop_at
      then virtual_agent e url node_id interval stop_at (virtual_agent_turn e url node_id interval s)
      else Some s)"

text \<open>An agent ends once every turn takes some time, for any deadline but infinity.\<close>

lemma virtual_agent_returns:
  assumes "\<And>s. ld_monotonic e s + d \<le> ld_monotonic e (virtual_agent_turn e url node_id interval s)"
    and "0 < d" and "stop_at \<noteq> PInf"
  shows "\<exists>t. virtual_agent e url node_id interval stop_at s = Some t"
proof (cases stop_at)
  case (Fin x)
  obtain n where "(x - ld_monotonic e s) / d < rat_of_nat n"
    using reals_Archimedean2 by blast
  then have "x < ld_monotonic e s + rat_of_nat n * d"
    using assms(2) by (simp add: field_simps)
  then show ?thesis
  proof (induction n arbitrary: s)
    case 0
    then show ?case
      by (subst virtual_agent.simps) (simp add: Fin)
  next
    case (Suc n)
    show ?case
    proof (cases "ld_monotonic e s < x")
      case True
      then show ?thesis
        using Suc.IH [of "virtual_agent_turn e url node_id interval s"] Suc.prems assms(1) [of s]
        by (subst virtual_agent.simps) (simp add: Fin field_simps)
    qed (subst virtual_agent.simps, simp add: Fin)
  qed
qed (subst virtual_agent.simps, use assms(3) in simp)+

subsection \<open>The figures of a step\<close>

text \<open>Python's \<open>sorted\<close> and the true division of two integers, on finite doubles.\<close>

primrec fin_value :: "pyfloat \<Rightarrow> rat" where
  "fin_value (Fin x) = x"
| "fin_value PInf = 0"
| "fin_value NInf = 0"
| "fin_value NaN = 0"

definition percentile :: "pyfloat list \<Rightarrow> nat \<Rightarrow> pyfloat" where
  "percentile latencies pct =
     (if latencies = [] then Fin 0
      else let ordered = sort_key fin_value latencies;
               index = min (trunc_rat (fin_value (round_double (of_nat (length ordered * pct) / 100))))
                           (int (length ordered) - 1)
           in ordered ! nat index)"

record step_report =
  sr_requests :: nat
  sr_ok :: nat
  sr_errors :: "(nat \<times> nat) list"
  sr_p50 :: pyfloat
  sr_p95 :: pyfloat
  sr_p99 :: pyfloat

definition step_figures :: "(pyfloat \<times> nat) list \<Rightarrow> step_report" where
  "step_figures results =
     (let latencies = map fst results
      in \<lparr>sr_requests = length results,
          sr_ok = length (filter (\<lambda>(_, code). code = 200) results),
          sr_errors = map (\<lambda>code. (code, length (filter (\<lambda>(_, c). c = code) results)))
            (remdups (filter (\<lambda>c. c \<noteq> 200) (map snd results))),
          sr_p50 = percentile latencies 50, sr_p95 = percentile latencies 95, sr_p99 = percentile latencies 99\<rparr>)"

lemma percentile_member:
  assumes "latencies \<noteq> []"
  shows "percentile latencies pct \<in> set latencies"
proof -
  have "nat (min i (int (length (sort_key fin_value latencies)) - 1)) < length (sort_key fin_value latencies)" for i
    using assms by (cases latencies) auto
  then have "sort_key fin_value latencies ! nat (min i (int (length (sort_key fin_value latencies)) - 1)) \<in>
      set (sort_key fin_value latencies)" for i
    by (rule nth_mem)
  then show ?thesis
    using assms by (simp add: percentile_def Let_def)
qed

text \<open>Every request is counted once.\<close>

lemma count_by_code:
  "length xs = sum_list (map (\<lambda>c. length (filter (\<lambda>(_, d). d = c) xs)) cs)"
  if "distinct cs" and "snd ` set xs \<subseteq> set cs" for xs :: "('a \<times> nat) list"
  using that
proof (induction xs)
  case (Cons x xs)
  have "(\<Sum>c\<leftarrow>cs. length (filter (\<lambda>(_, d). d = c) (x # xs))) =
      (\<Sum>c\<leftarrow>cs. (if c = snd x then 1 else 0) + length (filter (\<lambda>(_, d). d = c) xs))"
    by (intro arg_cong [of _ _ sum_list] map_cong) (auto simp: split_beta)
  also have "\<dots> = (\<Sum>c\<leftarrow>cs. if c = snd x then 1 else 0) + (\<Sum>c\<leftarrow>cs. length (filter (\<lambda>(_, d). d = c) xs))"
    by (simp add: sum_list_addf)
  also have "(\<Sum>c\<leftarrow>cs. if c = snd x then 1 else 0) = (1 :: nat)"
    using Cons.prems by (simp add: sum_list_distinct_conv_sum_set)
  finally show ?case
    using Cons by simp
qed (simp add: sum_list_0)

lemma figures_add_up:
  "sr_ok (step_figures rs) + sum_list (map snd (sr_errors (step_figures rs))) = sr_requests (step_figures rs)"
proof -
  let ?codes = "remdups (filter (\<lambda>c. c \<noteq> 200) (map snd rs))"
  have "length rs = sum_list (map (\<lambda>c. length (filter (\<lambda>(_, d). d = c) rs)) (200 # ?codes))"
    by (rule count_by_code) auto
  then show ?thesis
    by (simp add: step_figures_def Let_def comp_def)
qed

subsection \<open>A run opens no alerts\<close>

definition default_rules :: rules_config where
  "default_rules = \<lparr>
     rc_threshold_rules =
       [\<lparr>tr_metric_type = CPU_USAGE_PERCENT, tr_comparison = GREATER_THAN, tr_threshold = Fin 90,
         tr_severity = CRITICAL, tr_description = ''CPU usage above 90%''\<rparr>,
        \<lparr>tr_metric_type = MEMORY_USAGE_PERCENT, tr_comparison = GREATER_THAN, tr_threshold = Fin 90,
         tr_severity = CRITICAL, tr_description = ''Memory usage above 90%''\<rparr>,
        \<lparr>tr_metric_type = DISK_USAGE_PERCENT, tr_comparison = GREATER_THAN, tr_threshold = Fin 85,
         tr_severity = WARNING, tr_description = ''Disk usage above 85%''\<rparr>],
     rc_rate_of_change_rules =
       [\<lparr>rt_metric_type = CPU_USAGE_PERCENT, rt_comparison = GREATER_THAN, rt_max_delta = Fin 30,
         rt_window_seconds = Fin 300, rt_severity = WARNING,
         rt_description = ''CPU usage increased by more than 30 percentage points within 5 minutes''\<rparr>]\<rparr>"

text \<open>
  While virtual agents push, the alerts, the audit log and the messages stay what they were, and
  the readings of the virtual nodes are those of the payload.
\<close>

definition unharmed :: "string set \<Rightarrow> world \<Rightarrow> unit \<times> world \<Rightarrow> bool" where
  "unharmed fleet w0 c \<longleftrightarrow>
     alerts (tables (snd c)) = alerts (tables w0) \<and> actions (tables (snd c)) = actions (tables w0) \<and>
     outbox (snd c) = outbox w0 \<and>
     (\<forall>s \<in> set (samples (tables (snd c))). sm_node_id s \<in> fleet \<longrightarrow> sm_metric_type s = CPU_USAGE_PERCENT \<longrightarrow>
        sm_value s = Fin (25 / 2))"

lemma unharmed_same: "same_data w w' \<Longrightarrow> unharmed fleet w0 (h, w) \<Longrightarrow> unharmed fleet w0 (h', w')"
  by (simp add: unharmed_def same_data_def)

interpretation swarm: rely "\<lambda>_ _. True" "unharmed fleet w0" "\<lambda>_ _ _. True" "\<lambda>_ _. ()" for fleet w0
  by unfold_locales simp_all

definition keeps_calm :: "string set \<Rightarrow> world \<Rightarrow> (world, exn, 'a) prog \<Rightarrow> ('a \<Rightarrow> bool) \<Rightarrow> bool" where
  "keeps_calm fleet w0 p P \<longleftrightarrow> (\<forall>c. guarantees (\<lambda>_ _. True) (unharmed fleet w0) (\<lambda>_ _ _. True) (\<lambda>_ _. ()) p
     (\<lambda>r d. \<forall>v. r = Inr v \<longrightarrow> P v) c)"

lemma keeps_calmD:
  "keeps_calm fleet w0 p P \<Longrightarrow> guarantees (\<lambda>_ _. True) (unharmed fleet w0) (\<lambda>_ _ _. True) (\<lambda>_ _. ()) p
     (\<lambda>r d. \<forall>v. r = Inr v \<longrightarrow> P v) c"
  unfolding keeps_calm_def by (rule spec)

lemma calm_yields: "P v \<Longrightarrow> keeps_calm fleet w0 (yields v) P"
  by (simp add: keeps_calm_def)

lemma calm_call:
  assumes "\<And>w. unharmed fleet w0 ((), w) \<Longrightarrow>
      wp m (\<lambda>v w'. unharmed fleet w0 ((), w') \<and> P v) (\<lambda>_ w'. unharmed fleet w0 ((), w')) w"
  shows "keeps_calm fleet w0 (call m) P"
  unfolding keeps_calm_def
proof (intro allI, rule swarm.ensures_call)
  fix h :: unit and w
  assume "unharmed fleet w0 (h, w)"
  then show "wp m (\<lambda>v w'. True \<longrightarrow> True \<and> unharmed fleet w0 ((), w') \<and> (\<forall>d. True \<longrightarrow> unharmed fleet w0 d \<longrightarrow> P v))
      (\<lambda>_ w'. True \<longrightarrow> True \<and> unharmed fleet w0 ((), w')) w"
    by (intro wp_mono [OF assms]) auto
qed

lemma calm_pbind:
  assumes "keeps_calm fleet w0 p P" and "\<And>v. P v \<Longrightarrow> keeps_calm fleet w0 (f v) Q"
  shows "keeps_calm fleet w0 (pbind p f) Q"
  unfolding keeps_calm_def
  by (intro allI, rule swarm.ensures_pbind [OF keeps_calmD [OF assms(1)]]) (rule keeps_calmD [OF assms(2)])

lemma calm_ptry:
  assumes "keeps_calm fleet w0 p P" and "\<And>x. keeps_calm fleet w0 (h x) P"
  shows "keeps_calm fleet w0 (ptry p h) P"
  unfolding keeps_calm_def
  by (intro allI, rule swarm.ensures_ptry [OF keeps_calmD [OF assms(1)]]) (rule keeps_calmD [OF assms(2)])

lemma calm_pfor:
  assumes "\<And>x. x \<in> set xs \<Longrightarrow> keeps_calm fleet w0 (f x) P"
  shows "keeps_calm fleet w0 (pfor f xs) (\<lambda>vs. \<forall>v \<in> set vs. P v)"
  unfolding keeps_calm_def
  by (intro allI, rule swarm.ensures_pfor) (rule keeps_calmD [OF assms])

text \<open>No rule of the shipped configuration is breached by the payload.\<close>

lemma round_double_0 [simp]: "round_double 0 = Fin 0"
  by (simp add: round_double_def)

lemma calm_evaluate:
  assumes "n \<in> fleet"
  shows "keeps_calm fleet w0 (evaluate_calls e (RuleEngine default_rules) n PAYLOAD_SAMPLES t)
     (\<lambda>rs. \<forall>r \<in> set rs. \<not> rr_breached r)"
proof -
  let ?rule = "hd (rc_rate_of_change_rules default_rules)"
  have rate: "keeps_calm fleet w0 (evaluate_rate_of_change_calls e n ?rule s t)
      (\<lambda>r. \<forall>x. r = Some x \<longrightarrow> \<not> rr_breached x)"
    if "ms_metric_type s = CPU_USAGE_PERCENT" "ms_value s = Fin (25 / 2)" for s
    unfolding evaluate_rate_of_change_calls_def
  proof (rule calm_pbind [where P = "\<lambda>p. \<forall>x. p = Some x \<longrightarrow> sm_value x = Fin (25 / 2)"])
    show "keeps_calm fleet w0 (call (find_previous_sample e n (ms_metric_type s) t (rt_window_seconds ?rule)))
        (\<lambda>p. \<forall>x. p = Some x \<longrightarrow> sm_value x = Fin (25 / 2))"
      by (rule calm_call, rule find_previous_sample_rule)
        (use assms that in \<open>auto simp: in_window_def sample_to_record_def unharmed_def same_data_def\<close>)
  qed (rule calm_yields, auto simp: that rate_result_def default_rules_def split: option.splits)
  have sample: "keeps_calm fleet w0 (evaluate_sample_calls e (RuleEngine default_rules) n t s)
      (\<lambda>rs. \<forall>r \<in> set rs. \<not> rr_breached r)" if "s \<in> set PAYLOAD_SAMPLES" for s
  proof (cases "ms_metric_type s = CPU_USAGE_PERCENT")
    case True
    then have s: "s = hd PAYLOAD_SAMPLES"
      using that by (auto simp: PAYLOAD_SAMPLES_def)
    then have "re_rate_of_change_rules (RuleEngine default_rules) (ms_metric_type s) = Some ?rule"
      by (simp add: RuleEngine_def default_rules_def PAYLOAD_SAMPLES_def)
    then show ?thesis
      unfolding evaluate_sample_calls_def Let_def
      by (simp, intro calm_pbind [OF rate] calm_yields)
        (auto simp: s PAYLOAD_SAMPLES_def RuleEngine_def default_rules_def evaluate_threshold_def split: option.splits)
  next
    case False
    then have "re_rate_of_change_rules (RuleEngine default_rules) (ms_metric_type s) = None"
      by (simp add: RuleEngine_def default_rules_def)
    moreover have "\<not> rr_breached (evaluate_threshold rule s)"
      if "re_threshold_rules (RuleEngine default_rules) (ms_metric_type s) = Some rule" for rule
      using that \<open>s \<in> set PAYLOAD_SAMPLES\<close>
      by (auto simp: PAYLOAD_SAMPLES_def RuleEngine_def default_rules_def evaluate_threshold_def split: if_splits)
    ultimately show ?thesis
      unfolding evaluate_sample_calls_def Let_def
      by (simp, intro calm_yields) (auto split: option.splits)
  qed
  show ?thesis
    unfolding evaluate_calls_def
    by (rule calm_pbind [OF calm_pfor [OF sample]], assumption, rule calm_yields) auto
qed

lemma calm_apply_result:
  assumes "n \<in> fleet" and "\<not> rr_breached r" and "al_node_id ` set (alerts (tables w0)) \<inter> fleet = {}"
  shows "keeps_calm fleet w0 (apply_result_calls e sv n t r) (\<lambda>_. True)"
  unfolding apply_result_calls_def
proof (rule calm_pbind [where P = "\<lambda>found. found = None"])
  show "keeps_calm fleet w0 (call (find_open_alert e n (rr_rule_key r))) (\<lambda>found. found = None)"
    by (rule calm_call, rule find_open_alert_rule)
      (use assms in \<open>auto simp: is_open_def unharmed_def same_data_def\<close>)
qed (simp add: assms(2) calm_yields)

lemma calm_ingest:
  assumes "n \<in> fleet" and "al_node_id ` set (alerts (tables w0)) \<inter> fleet = {}"
    and "sv_rule_engine sv = RuleEngine default_rules"
  shows "keeps_calm fleet w0 (ingest_calls e stale (Some sv) (virtual_payload n now) received_at t) (\<lambda>_. True)"
proof -
  have "keeps_calm fleet w0 (call (record_seen e stale n (utc now) t)) (\<lambda>_. True)"
    by (rule calm_call, rule record_seen_rule) (auto simp: unharmed_def same_data_def)
  moreover have "keeps_calm fleet w0 (call (bulk_insert e n PAYLOAD_SAMPLES (utc now) (utc received_at))) (\<lambda>_. True)"
    by (rule calm_call, rule bulk_insert_rule)
      (auto simp: unharmed_def same_data_def PAYLOAD_SAMPLES_def sample_rows_def)
  moreover have "keeps_calm fleet w0 (evaluate_and_apply_calls e sv n PAYLOAD_SAMPLES (utc now)) (\<lambda>_. True)"
    unfolding evaluate_and_apply_calls_def assms(3)
    by (rule calm_pbind [OF calm_evaluate [OF assms(1)]], rule calm_pbind, rule calm_pfor, rule calm_apply_result)
      (use assms in \<open>simp_all add: calm_yields\<close>)
  ultimately show ?thesis
    unfolding ingest_calls_def evaluate_rules_best_effort_calls_def option.case
    by (intro calm_pbind calm_ptry calm_yields TrueI) (simp_all add: virtual_payload_def)
qed

text \<open>The requests of virtual agents of a fleet, at any time and with any credentials.\<close>

inductive virtual_request :: "env \<Rightarrow> collector_app \<Rightarrow> string set \<Rightarrow> (world, exn, unit) prog \<Rightarrow> bool"
  for e app fleet where
  push: "n \<in> fleet \<Longrightarrow>
    virtual_request e app fleet (thread (handle_calls e app clock credentials (PostMetrics (virtual_payload n now))))"

theorem stress_run_opens_no_alerts:
  assumes "(interleave (virtual_request e app fleet) (\<lambda>_ _ _. True) (\<lambda>_ _. ()))\<^sup>*\<^sup>* (((), w0), []) (((), w), ps)"
    and "ap_rules_config app = default_rules"
    and "al_node_id ` set (alerts (tables w0)) \<inter> fleet = {}"
    and "sm_node_id ` set (samples (tables w0)) \<inter> fleet = {}"
  shows "alerts (tables w) = alerts (tables w0) \<and> actions (tables w) = actions (tables w0) \<and> outbox w = outbox w0"
proof -
  have engine: "sv_rule_engine (get_alert_evaluation_service app) = RuleEngine default_rules"
    by (simp add: get_alert_evaluation_service_def assms(2))
  have calm: "keeps_calm fleet w0 (handle_calls e app clock credentials (PostMetrics (virtual_payload n now))) (\<lambda>_. True)"
    if "n \<in> fleet" for n clock credentials now
    unfolding handle_calls_def route_calls.simps
    by (auto split: sum.splits intro!: calm_yields calm_ptry calm_pbind [where P = "\<lambda>_. True"]
        calm_ingest [OF that assms(3) engine])
  have "unharmed fleet w0 ((), w)"
    using assms(1)
  proof (rule swarm.interleave_safe)
    show "unharmed fleet w0 ((), w0)"
      using assms(4) by (auto simp: unharmed_def)
    fix p and c :: "unit \<times> world"
    assume "virtual_request e app fleet p"
    then have "keeps_calm fleet w0 p (\<lambda>_. True)"
      by cases (auto simp: thread_def intro: calm_pbind [OF calm] calm_yields)
    then show "guarantees (\<lambda>_ _. True) (unharmed fleet w0) (\<lambda>_ _ _. True) (\<lambda>_ _. ()) p
        (\<lambda>r d. \<forall>v. r = Inr v \<longrightarrow> True) c"
      by (rule keeps_calmD)
  qed
  then show ?thesis
    by (simp add: unharmed_def)
qed

end
