(* ===== verification/Findings.thy ===== *)
theory Findings
  imports Example_Run
begin

text \<open>
  Runs of the example Collector that show behaviour its documentation does not promise: each lemma
  evaluates a few pushes and reads the tables.
\<close>

definition push_all :: "env \<Rightarrow> (datetime \<times> pyfloat list) list \<Rightarrow> world" where
  "push_all e xs = foldl (\<lambda>w (t, vs). snd (handle e ex_app (\<lambda>_. us t) None
     (PostMetrics \<lparr>pl_node_id = ''web-1'', pl_collected_at = t,
        pl_samples = map (\<lambda>v. \<lparr>ms_metric_type = CPU_USAGE_PERCENT, ms_value = v, ms_unit = ''percent'', ms_labels = []\<rparr>) vs,
        pl_collection_errors = []\<rparr>) w)) init_world xs"

text \<open>
  If the statement that marks an alert as remediated fails after the action was recorded, the next
  push after the cooldown dispatches a second action for the same alert.
\<close>

lemma failed_mark_dispatches_twice:
  "map (\<lambda>a. (ac_alert_id a, ac_status a)) (actions (tables (push_all (ex_env\<lparr>fails := \<lambda>n. n = 17\<rparr>)
     [(utc (at_sec 0), [Fin 95]), (utc (at_sec 1800), [Fin 95]), (utc (at_sec 3700), [Fin 95])]))) =
   [(1, DISPATCHED), (1, DISPATCHED)]"
  by code_simp

text \<open>An alert that times with an offset escalate is never escalated when they come without one.\<close>

lemma naive_times_never_escalate:
  "map (\<lambda>a. al_escalated_at a \<noteq> None) (alerts (tables (push_all ex_env
     [(utc (at_sec 0), [Fin 95]), (utc (at_sec 1000), [Fin 95])]))) = [True] \<and>
   map (\<lambda>a. al_escalated_at a \<noteq> None) (alerts (tables (push_all ex_env
     [(DT (at_sec 0) False, [Fin 95]), (DT (at_sec 1000) False, [Fin 95])]))) = [False]"
  by code_simp

text \<open>A reading that is not a number resolves a firing alert.\<close>

lemma nan_resolves_alert:
  "map al_status (alerts (tables (push_all ex_env
     [(utc (at_sec 0), [Fin 95]), (utc (at_sec 60), [NaN])]))) = [RESOLVED]"
  by code_simp

text \<open>Of two samples of one metric in a payload the later one decides: the alert opens and is resolved at once.\<close>

lemma second_sample_resolves_alert:
  "map al_status (alerts (tables (push_all ex_env [(utc (at_sec 0), [Fin 95, Fin 10])]))) = [RESOLVED]"
  by code_simp

end
